(* ===== verification/Prelude.thy ===== *)
theory Prelude
  imports Main "HOL-Library.Word" "HOL-Library.AList"
begin

text \<open>
  Shared ground of the development: Go's maps as association lists, the functions of
  Go's packages \<open>strings\<close> and \<open>fmt\<close> that the operator calls, panics as values, and the
  generic lemmas the component theories use.

  A Go map is an association list with distinct keys. The order of the list stands for
  the order in which one particular run ranges over the map, which Go leaves open. Reads
  of a missing key give the zero value of the element type, as \<open>m[k]\<close> does in Go.
\<close>

named_theorems go_simps \<open>unfolding of the Go standard library functions used by the model\<close>
named_theorems frame_simps \<open>what an operation leaves unchanged\<close>

section \<open>Panics and non-termination as values\<close>

text \<open>A Go call returns, panics, or does not return at all.\<close>

datatype 'a outcome = Returns 'a | Panics | Diverges

fun bind_outcome :: "'a outcome \<Rightarrow> ('a \<Rightarrow> 'b outcome) \<Rightarrow> 'b outcome" where
  "bind_outcome (Returns a) f = f a"
| "bind_outcome Panics f = Panics"
| "bind_outcome Diverges f = Diverges"

text \<open>The result of a loop modelled by a \<^theory_text>\<open>partial_function\<close>: \<open>None\<close> is "does not return".\<close>

fun of_partial :: "'a option \<Rightarrow> 'a outcome" where
  "of_partial (Some a) = Returns a"
| "of_partial None = Diverges"

lemma bind_outcome_eq_Returns:
  "bind_outcome m f = Returns b \<longleftrightarrow> (\<exists>a. m = Returns a \<and> f a = Returns b)"
  by (cases m) simp_all

section \<open>Go maps\<close>

type_synonym ('k, 'v) go_map = "('k \<times> 'v) list"

definition gm_get :: "('k, 'v) go_map \<Rightarrow> 'k \<Rightarrow> 'v \<Rightarrow> 'v" where
  "gm_get m k zero = (case map_of m k of Some v \<Rightarrow> v | None \<Rightarrow> zero)"

definition gm_put :: "('k, 'v) go_map \<Rightarrow> 'k \<Rightarrow> 'v \<Rightarrow> ('k, 'v) go_map" where
  "gm_put m k v = AList.update k v m"

definition gm_has :: "('k, 'v) go_map \<Rightarrow> 'k \<Rightarrow> bool" where
  "gm_has m k = (map_of m k \<noteq> None)"

definition gm_ok :: "('k, 'v) go_map \<Rightarrow> bool" where
  "gm_ok m = distinct (map fst m)"

lemma map_of_gm_put [simp]: "map_of (gm_put m k v) = (map_of m)(k \<mapsto> v)"
  by (simp add: gm_put_def update_conv')

lemma gm_get_put [simp]: "gm_get (gm_put m k v) k' z = (if k' = k then v else gm_get m k' z)"
  by (simp add: gm_get_def)

lemma gm_ok_put [simp]: "gm_ok m \<Longrightarrow> gm_ok (gm_put m k v)"
  by (simp add: gm_ok_def gm_put_def distinct_update)

lemma gm_ok_Nil [simp]: "gm_ok []"
  by (simp add: gm_ok_def)

lemma gm_get_Nil [simp]: "gm_get [] k z = z"
  by (simp add: gm_get_def)

lemma gm_has_put [simp]: "gm_has (gm_put m k v) k' \<longleftrightarrow> k' = k \<or> gm_has m k'"
  by (simp add: gm_has_def)

lemma gm_has_iff: "gm_has m k \<longleftrightarrow> k \<in> fst ` set m"
  by (simp add: gm_has_def map_of_eq_None_iff)

lemma map_of_map_snd: "map_of (map (\<lambda>(k, v). (k, f k v)) m) k = map_option (f k) (map_of m k)"
  by (induction m) auto

lemma gm_ok_map_snd [simp]: "gm_ok (map (\<lambda>(k, v). (k, f k v)) m) = gm_ok m"
  by (simp add: gm_ok_def case_prod_beta comp_def)

lemma gm_ok_entry: "gm_ok m \<Longrightarrow> (k, v) \<in> set m \<Longrightarrow> map_of m k = Some v"
  by (simp add: gm_ok_def)

section \<open>Package strings\<close>

text \<open>\<open>strings.Split(s, sep)\<close> for a separator of one character.\<close>

fun strings_Split :: "string \<Rightarrow> char \<Rightarrow> string list" where
  "strings_Split [] c = [[]]"
| "strings_Split (x # xs) c =
     (if x = c then [] # strings_Split xs c
      else (case strings_Split xs c of [] \<Rightarrow> [[x]] | y # ys \<Rightarrow> (x # y) # ys))"

definition strings_HasPrefix :: "string \<Rightarrow> string \<Rightarrow> bool" where
  "strings_HasPrefix s p = (take (length p) s = p)"

definition strings_TrimPrefix :: "string \<Rightarrow> string \<Rightarrow> string" where
  "strings_TrimPrefix s p = (if strings_HasPrefix s p then drop (length p) s else s)"

definition strings_HasSuffix :: "string \<Rightarrow> string \<Rightarrow> bool" where
  "strings_HasSuffix s p = (length p \<le> length s \<and> drop (length s - length p) s = p)"

definition strings_TrimSuffix :: "string \<Rightarrow> string \<Rightarrow> string" where
  "strings_TrimSuffix s p =
     (if strings_HasSuffix s p then take (length s - length p) s else s)"

lemma strings_HasPrefix_append [simp]: "strings_HasPrefix (p @ s) p"
  by (simp add: strings_HasPrefix_def)

lemma strings_HasPrefix_iff: "strings_HasPrefix s p \<longleftrightarrow> (\<exists>t. s = p @ t)"
  unfolding strings_HasPrefix_def by (metis append_eq_conv_conj append_take_drop_id)

lemma strings_TrimPrefix_append [simp]: "strings_TrimPrefix (p @ s) p = s"
  by (simp add: strings_TrimPrefix_def)

lemma strings_HasSuffix_append [simp]: "strings_HasSuffix (s @ p) p"
  by (simp add: strings_HasSuffix_def)

lemma strings_TrimSuffix_append [simp]: "strings_TrimSuffix (s @ p) p = s"
  by (simp add: strings_TrimSuffix_def)

lemma strings_Split_neq_Nil [simp]: "strings_Split s c \<noteq> []"
  by (induction s) (auto split: list.splits)

lemma strings_Split_no_sep: "c \<notin> set s \<Longrightarrow> strings_Split s c = [s]"
  by (induction s) auto

lemma strings_Split_sep_append:
  "c \<notin> set s \<Longrightarrow> strings_Split (s @ c # t) c = s # strings_Split t c"
  by (induction s) auto

lemma strings_Split_parts: "p \<in> set (strings_Split s c) \<Longrightarrow> c \<notin> set p"
  by (induction s arbitrary: p) (auto split: if_splits list.splits)

section \<open>Package fmt: decimal and hexadecimal numbers\<close>

definition digit_char :: "nat \<Rightarrow> char" where
  "digit_char d = ''0123456789abcdef'' ! d"

fun itoa :: "nat \<Rightarrow> string" where
  "itoa n = (if n < 10 then [digit_char n] else itoa (n div 10) @ [digit_char (n mod 10)])"

fun itox :: "nat \<Rightarrow> string" where
  "itox n = (if n < 16 then [digit_char n] else itox (n div 16) @ [digit_char (n mod 16)])"

declare itoa.simps [simp del] itox.simps [simp del]

section \<open>Lists\<close>

lemma distinct_map_filter_eq:
  "distinct (map f (filter P xs))" if "distinct (map f xs)"
  using that by (rule distinct_map_filter)

lemma distinct_map_snoc:
  "distinct (map f (xs @ [x])) \<longleftrightarrow> distinct (map f xs) \<and> f x \<notin> f ` set xs"
  by auto

lemma filter_neq_id: "k \<notin> f ` set xs \<Longrightarrow> filter (\<lambda>x. f x \<noteq> k) xs = xs"
  by (induction xs) auto

lemma map_list_update_same:
  "i < length xs \<Longrightarrow> f x = f (xs ! i) \<Longrightarrow> map f (xs[i := x]) = map f xs"
  by (metis list_update_id map_update)

end
