(* ===== verification/GoNet.thy ===== *)
theory GoNet
  imports Prelude
begin

unbundle bit_operations_syntax

text \<open>
  The part of Go's package \<open>net\<close> (Go 1.19, the version of \<open>go.mod\<close> and of the
  \<open>Dockerfile\<close>) that the operator uses: addresses, masks, networks, their parsers and
  printers. An \<open>IP\<close> is a slice of bytes, a list of \<open>8 word\<close> of length 4 or 16; the
  empty list is \<open>nil\<close>, which is what the parsers return for a malformed text.
\<close>

type_synonym ip = "8 word list"
type_synonym ip_mask = "8 word list"

record ipnet =
  net_IP :: ip
  net_Mask :: ip_mask

section \<open>Addresses and masks\<close>

definition v4InV6Prefix :: "8 word list" where
  "v4InV6Prefix = [0, 0, 0, 0, 0, 0, 0, 0, 0, 0, 255, 255]"

definition IPv4 :: "8 word \<Rightarrow> 8 word \<Rightarrow> 8 word \<Rightarrow> 8 word \<Rightarrow> ip" where
  "IPv4 a b c d = v4InV6Prefix @ [a, b, c, d]"

definition To4 :: "ip \<Rightarrow> ip" where
  "To4 ip = (if length ip = 4 then ip
     else if length ip = 16 \<and> take 12 ip = v4InV6Prefix then drop 12 ip
     else [])"

definition IP_Equal :: "ip \<Rightarrow> ip \<Rightarrow> bool" where
  "IP_Equal ip x = (if length ip = length x then ip = x
     else if length ip = 4 \<and> length x = 16 then take 12 x = v4InV6Prefix \<and> ip = drop 12 x
     else if length ip = 16 \<and> length x = 4 then take 12 ip = v4InV6Prefix \<and> drop 12 ip = x
     else False)"

text \<open>\<open>CIDRMask(ones, bits)\<close>: \<open>bits / 8\<close> bytes of which the first \<open>ones\<close> bits are set.\<close>

fun mask_bytes :: "nat \<Rightarrow> nat \<Rightarrow> ip_mask" where
  "mask_bytes 0 n = []"
| "mask_bytes (Suc l) n =
     (if 8 \<le> n then 255 # mask_bytes l (n - 8) else NOT (drop_bit n 255) # mask_bytes l 0)"

definition CIDRMask :: "nat \<Rightarrow> nat \<Rightarrow> ip_mask" where
  "CIDRMask ones bits =
     (if bits \<noteq> 32 \<and> bits \<noteq> 128 then [] else if ones > bits then []
      else mask_bytes (bits div 8) ones)"

definition IP_Mask :: "ip \<Rightarrow> ip_mask \<Rightarrow> ip" where
  "IP_Mask ip msk =
     (let msk = (if length msk = 16 \<and> length ip = 4 \<and> (\<forall>b \<in> set (take 12 msk). b = 255)
                  then drop 12 msk else msk);
          ip = (if length msk = 4 \<and> length ip = 16 \<and> take 12 ip = v4InV6Prefix
                then drop 12 ip else ip)
      in if length ip \<noteq> length msk then [] else map2 (AND) ip msk)"

text \<open>\<open>IPMask.Size\<close>: the number of leading ones and the width, \<open>(0, 0)\<close> for a mask that is
  not of the form ones then zeros.\<close>

fun leading_ones :: "nat \<Rightarrow> 8 word \<Rightarrow> nat \<times> 8 word" where
  "leading_ones 0 v = (0, v)"
| "leading_ones (Suc fuel) v =
     (if v AND 128 \<noteq> 0 then (case leading_ones fuel (push_bit 1 v) of (n, w) \<Rightarrow> (Suc n, w))
      else (0, v))"

fun simpleMaskLength :: "ip_mask \<Rightarrow> nat option" where
  "simpleMaskLength [] = Some 0"
| "simpleMaskLength (v # vs) =
     (if v = 255 then map_option (\<lambda>n. 8 + n) (simpleMaskLength vs)
      else (case leading_ones 8 v of (n, w) \<Rightarrow>
        if w \<noteq> 0 then None else if \<exists>b \<in> set vs. b \<noteq> 0 then None else Some n))"

definition Mask_Size :: "ip_mask \<Rightarrow> nat \<times> nat" where
  "Mask_Size m = (case simpleMaskLength m of None \<Rightarrow> (0, 0) | Some n \<Rightarrow> (n, length m * 8))"

section \<open>Networks\<close>

definition networkNumberAndMask :: "ipnet \<Rightarrow> ip \<times> ip_mask" where
  "networkNumberAndMask n =
     (let ip = (if To4 (net_IP n) \<noteq> [] then To4 (net_IP n) else net_IP n); m = net_Mask n
      in if length ip \<noteq> 4 \<and> length ip \<noteq> 16 then ([], [])
         else if length m = 4 then (if length ip \<noteq> 4 then ([], []) else (ip, m))
         else if length m = 16 then (ip, if length ip = 4 then drop 12 m else m)
         else ([], []))"

definition Contains :: "ipnet \<Rightarrow> ip \<Rightarrow> bool" where
  "Contains n ip =
     (case networkNumberAndMask n of (nn, m) \<Rightarrow>
       let ip = (if To4 ip \<noteq> [] then To4 ip else ip)
       in length ip = length nn \<and> map2 (AND) nn m = map2 (AND) ip m)"

section \<open>Parsing\<close>

definition big :: nat where "big = 0xFFFFFF"

definition dec_digit :: "char \<Rightarrow> nat option" where
  "dec_digit c = (let v = of_char c :: nat in if 48 \<le> v \<and> v \<le> 57 then Some (v - 48) else None)"

definition hex_digit :: "char \<Rightarrow> nat option" where
  "hex_digit c = (let v = of_char c :: nat in
     if 48 \<le> v \<and> v \<le> 57 then Some (v - 48)
     else if 97 \<le> v \<and> v \<le> 102 then Some (v - 97 + 10)
     else if 65 \<le> v \<and> v \<le> 70 then Some (v - 65 + 10) else None)"

text \<open>\<open>dtoi\<close>: the number, the count of characters consumed, and success.\<close>

fun dtoi_loop :: "string \<Rightarrow> nat \<Rightarrow> nat \<Rightarrow> nat \<times> nat \<times> bool" where
  "dtoi_loop [] n i = (n, i, True)"
| "dtoi_loop (c # cs) n i =
     (case dec_digit c of None \<Rightarrow> (n, i, True)
      | Some d \<Rightarrow> (let n' = n * 10 + d in
          if n' \<ge> big then (big, i, False) else dtoi_loop cs n' (Suc i)))"

definition dtoi :: "string \<Rightarrow> nat \<times> nat \<times> bool" where
  "dtoi s = (case dtoi_loop s 0 0 of (n, i, ok) \<Rightarrow> if ok \<and> i = 0 then (0, 0, False) else (n, i, ok))"

fun xtoi_loop :: "string \<Rightarrow> nat \<Rightarrow> nat \<Rightarrow> nat \<times> nat \<times> bool" where
  "xtoi_loop [] n i = (n, i, True)"
| "xtoi_loop (c # cs) n i =
     (case hex_digit c of None \<Rightarrow> (n, i, True)
      | Some d \<Rightarrow> (let n' = n * 16 + d in
          if n' \<ge> big then (0, i, False) else xtoi_loop cs n' (Suc i)))"

definition xtoi :: "string \<Rightarrow> nat \<times> nat \<times> bool" where
  "xtoi s = (case xtoi_loop s 0 0 of (n, i, ok) \<Rightarrow> if ok \<and> i = 0 then (0, 0, False) else (n, i, ok))"

text \<open>
  \<open>parseIPv4\<close>: four decimal octets without leading zeros. The first argument counts the
  octets to go, the second those already read.
\<close>

fun parseIPv4_loop :: "nat \<Rightarrow> nat \<Rightarrow> string \<Rightarrow> 8 word list \<Rightarrow> 8 word list option" where
  "parseIPv4_loop 0 i s p = (if s \<noteq> [] then None else Some p)"
| "parseIPv4_loop (Suc k) i s p =
     (if s = [] then None
      else if i > 0 \<and> hd s \<noteq> CHR ''.'' then None
      else let s = (if i > 0 then tl s else s) in
        (case dtoi s of (n, c, ok) \<Rightarrow>
          if \<not> ok \<or> n > 255 then None
          else if c > 1 \<and> hd s = CHR ''0'' then None
          else parseIPv4_loop k (Suc i) (drop c s) (p @ [of_nat n])))"

definition parseIPv4 :: "string \<Rightarrow> ip" where
  "parseIPv4 s = (case parseIPv4_loop 4 0 s [] of None \<Rightarrow> [] | Some p \<Rightarrow> v4InV6Prefix @ p)"

text \<open>
  \<open>parseIPv6\<close>: the bytes read so far (the source's \<open>ip[0:i]\<close>), the position of the
  ellipsis, and the rest of the text. \<open>None\<close> is the source's \<open>return nil\<close>.
\<close>

function parseIPv6_loop ::
  "string \<Rightarrow> 8 word list \<Rightarrow> nat option \<Rightarrow> (string \<times> 8 word list \<times> nat option) option" where
  "parseIPv6_loop s p e =
     (if length p \<ge> 16 then Some (s, p, e)
      else (case xtoi s of (n, c, ok) \<Rightarrow>
        if \<not> ok \<or> n > 0xFFFF then None
        else if c < length s \<and> s ! c = CHR ''.'' then
          (if e = None \<and> length p \<noteq> 12 then None
           else if length p + 4 > 16 then None
           else if parseIPv4 s = [] then None
           else Some ([], p @ drop 12 (parseIPv4 s), e))
        else
          let p = p @ [of_nat (n div 256), of_nat n]; s = drop c s in
          if s = [] then Some (s, p, e)
          else if hd s \<noteq> CHR '':'' \<or> length s = 1 then None
          else let s = tl s in
            if hd s = CHR '':'' then
              (if e \<noteq> None then None
               else let e = Some (length p); s = tl s in
                 if s = [] then Some (s, p, e) else parseIPv6_loop s p e)
            else parseIPv6_loop s p e))"
  by pat_completeness auto
termination
  by (relation "measure (\<lambda>(s, p, e). 16 - length p)") auto

declare parseIPv6_loop.simps [simp del]

definition parseIPv6 :: "string \<Rightarrow> ip" where
  "parseIPv6 s =
     (let lead = (length s \<ge> 2 \<and> s ! 0 = CHR '':'' \<and> s ! 1 = CHR '':'');
          s = (if lead then drop 2 s else s)
      in if lead \<and> s = [] then replicate 16 0
         else (case parseIPv6_loop s [] (if lead then Some 0 else None) of
           None \<Rightarrow> []
         | Some (s, p, e) \<Rightarrow>
             if s \<noteq> [] then []
             else if length p < 16 then
               (case e of None \<Rightarrow> []
                | Some k \<Rightarrow> take k p @ replicate (16 - length p) 0 @ drop k p)
             else if e \<noteq> None then [] else p))"

text \<open>\<open>ParseIP\<close> looks for the first dot or colon to choose between the two parsers.\<close>

definition ParseIP :: "string \<Rightarrow> ip" where
  "ParseIP s = (case dropWhile (\<lambda>c. c \<noteq> CHR ''.'' \<and> c \<noteq> CHR '':'') s of
      [] \<Rightarrow> []
    | c # _ \<Rightarrow> if c = CHR ''.'' then parseIPv4 s else parseIPv6 s)"

text \<open>\<open>ParseCIDR\<close>: the address as written and the network it lies in; \<open>None\<close> is the error.\<close>

definition ParseCIDR :: "string \<Rightarrow> (ip \<times> ipnet) option" where
  "ParseCIDR s =
     (case dropWhile (\<lambda>c. c \<noteq> CHR ''/'') s of
       [] \<Rightarrow> None
     | _ # bits \<Rightarrow>
        (let addr = takeWhile (\<lambda>c. c \<noteq> CHR ''/'') s;
             iplen = (if parseIPv4 addr \<noteq> [] then 4 else 16);
             ip = (if parseIPv4 addr \<noteq> [] then parseIPv4 addr else parseIPv6 addr)
         in (case dtoi bits of (n, i, ok) \<Rightarrow>
              if ip = [] \<or> \<not> ok \<or> i \<noteq> length bits \<or> n > 8 * iplen then None
              else let m = CIDRMask n (8 * iplen)
                   in Some (ip, \<lparr>net_IP = IP_Mask ip m, net_Mask = m\<rparr>))))"

section \<open>Printing\<close>

definition dotted :: "ip \<Rightarrow> string" where
  "dotted p = itoa (unat (p ! 0)) @ ''.'' @ itoa (unat (p ! 1)) @ ''.'' @
              itoa (unat (p ! 2)) @ ''.'' @ itoa (unat (p ! 3))"

text \<open>The longest run of zero groups, as \<open>IP.String\<close> looks for it.\<close>

function zero_run_end :: "ip \<Rightarrow> nat \<Rightarrow> nat" where
  "zero_run_end p j =
     (if j < 16 \<and> p ! j = 0 \<and> p ! Suc j = 0 then zero_run_end p (j + 2) else j)"
  by pat_completeness auto
termination by (relation "measure (\<lambda>(p, j). 16 - j)") auto

declare zero_run_end.simps [simp del]

function longest_zeros :: "ip \<Rightarrow> nat \<Rightarrow> int \<Rightarrow> int \<Rightarrow> int \<times> int" where
  "longest_zeros p i e0 e1 =
     (if i \<ge> 16 then (e0, e1)
      else let j = zero_run_end p i in
        if j > i \<and> int j - int i > e1 - e0 then longest_zeros p (j + 2) (int i) (int j)
        else longest_zeros p (i + 2) e0 e1)"
  by pat_completeness auto
termination by (relation "measure (\<lambda>(p, i, e0, e1). 16 - i)") auto

declare longest_zeros.simps [simp del]

function print_groups :: "ip \<Rightarrow> nat \<Rightarrow> int \<Rightarrow> int \<Rightarrow> string" where
  "print_groups p i e0 e1 =
     (if i \<ge> 16 then []
      else if int i = e0 \<and> e0 < e1 then
        '':'' @ '':'' @
        (if e1 \<ge> 16 then []
         else itox (unat (p ! nat e1) * 256 + unat (p ! Suc (nat e1))) @
              print_groups p (nat e1 + 2) e0 e1)
      else (if i > 0 then '':'' else []) @
           itox (unat (p ! i) * 256 + unat (p ! Suc i)) @ print_groups p (i + 2) e0 e1)"
  by pat_completeness auto
termination by (relation "measure (\<lambda>(p, i, e0, e1). 16 - i)") auto

declare print_groups.simps [simp del]

definition IP_String :: "ip \<Rightarrow> string" where
  "IP_String ip =
     (if ip = [] then ''<nil>''
      else if length (To4 ip) = 4 then dotted (To4 ip)
      else if length ip \<noteq> 16 then
        ''?'' @ concat (map (\<lambda>b. [digit_char (unat b div 16), digit_char (unat b mod 16)]) ip)
      else (case longest_zeros ip 0 (-1) (-1) of (e0, e1) \<Rightarrow>
        if e1 - e0 \<le> 2 then print_groups ip 0 (-1) (-1) else print_groups ip 0 e0 e1))"

section \<open>Evaluation\<close>

text \<open>
  Equations by which the simplifier runs the functions of this theory on closed arguments;
  the counters are numerals, so the recursion over them is restated for \<open>numeral\<close>.
\<close>

lemma mask_bytes_numeral [simp]:
  "mask_bytes (numeral v) n =
     (if 8 \<le> n then 255 # mask_bytes (pred_numeral v) (n - 8)
      else NOT (drop_bit n 255) # mask_bytes (pred_numeral v) 0)"
  by (simp add: numeral_eq_Suc)

lemma leading_ones_numeral [simp]:
  "leading_ones (numeral v) w =
     (if w AND 128 \<noteq> 0 then (case leading_ones (pred_numeral v) (push_bit 1 w) of (n, u) \<Rightarrow> (Suc n, u))
      else (0, w))"
  by (simp add: numeral_eq_Suc)

lemma parseIPv4_loop_numeral [simp]:
  "parseIPv4_loop (numeral v) i s p =
     (if s = [] then None
      else if i > 0 \<and> hd s \<noteq> CHR ''.'' then None
      else let s = (if i > 0 then tl s else s) in
        (case dtoi s of (n, c, ok) \<Rightarrow>
          if \<not> ok \<or> n > 255 then None
          else if c > 1 \<and> hd s = CHR ''0'' then None
          else parseIPv4_loop (pred_numeral v) (Suc i) (drop c s) (p @ [of_nat n])))"
  by (simp add: numeral_eq_Suc)

lemma replicate_numeral_eval: "replicate (numeral v) x = x # replicate (pred_numeral v) x"
  by (simp add: numeral_eq_Suc)

lemmas go_parse_eval =
  ParseIP_def ParseCIDR_def parseIPv4_def parseIPv6_def parseIPv6_loop.simps
  dtoi_def xtoi_def dec_digit_def hex_digit_def big_def CIDRMask_def IP_Mask_def
  IPv4_def v4InV6Prefix_def replicate_numeral_eval

lemmas go_net_eval =
  go_parse_eval To4_def IP_Equal_def Mask_Size_def networkNumberAndMask_def Contains_def

lemmas go_print_eval =
  IP_String_def dotted_def itoa.simps itox.simps digit_char_def zero_run_end.simps
  longest_zeros.simps print_groups.simps To4_def v4InV6Prefix_def

section \<open>Numbers read back\<close>

lemma less_16_cases:
  "d < (16::nat) \<Longrightarrow> d \<in> {0, 1, 2, 3, 4, 5, 6, 7, 8, 9, 10, 11, 12, 13, 14, 15}"
  by (simp add: less_Suc_eq numeral_eq_Suc)

lemma hex_digit_digit_char: "d < 16 \<Longrightarrow> hex_digit (digit_char d) = Some d"
  by (drule less_16_cases) (auto simp: hex_digit_def digit_char_def)

lemma dec_digit_digit_char: "d < 10 \<Longrightarrow> dec_digit (digit_char d) = Some d"
  using less_16_cases [of d] by (auto simp: dec_digit_def digit_char_def)

lemma digit_char_eq_0: "d < 10 \<Longrightarrow> digit_char d = CHR ''0'' \<Longrightarrow> d = 0"
  using less_16_cases [of d] by (auto simp: digit_char_def)

lemma digit_char_no_sep: "d < 16 \<Longrightarrow> digit_char d \<noteq> CHR ''.'' \<and> digit_char d \<noteq> CHR '':''"
  using less_16_cases [of d] by (auto simp: digit_char_def)

lemma itoa_neq_Nil [simp]: "itoa n \<noteq> []"
  by (subst itoa.simps) simp

lemma length_itoa_pos [simp]: "0 < length (itoa n)"
  by simp

lemma itoa_no_sep: "c \<in> set (itoa n) \<Longrightarrow> c \<noteq> CHR ''.'' \<and> c \<noteq> CHR '':''"
proof (induction n rule: itoa.induct)
  case (1 n)
  from "1.prems" show ?case
    by (subst (asm) itoa.simps) (auto split: if_splits simp: digit_char_no_sep dest!: "1.IH" [rotated])
qed

lemma hd_itoa_0: "hd (itoa n) = CHR ''0'' \<Longrightarrow> n = 0"
proof (induction n rule: itoa.induct)
  case (1 n)
  show ?case
  proof (cases "n < 10")
    case True
    with "1.prems" show ?thesis by (subst (asm) itoa.simps) (simp add: digit_char_eq_0)
  next
    case False
    with "1.prems" have "hd (itoa (n div 10)) = CHR ''0''"
      by (subst (asm) itoa.simps) simp
    with "1.IH" False show ?thesis by fastforce
  qed
qed

lemma itoa_0: "itoa 0 = ''0''"
  by (simp add: itoa.simps digit_char_def)

lemma dtoi_loop_itoa:
  "n < big \<Longrightarrow> dtoi_loop (itoa n @ s) 0 i = dtoi_loop s n (i + length (itoa n))"
proof (induction n arbitrary: s rule: itoa.induct)
  case (1 n)
  show ?case
  proof (cases "n < 10")
    case True
    with "1.prems" show ?thesis
      by (simp add: itoa.simps [of n] dec_digit_digit_char Let_def)
  next
    case False
    have "n div 10 < big" using "1.prems" by simp
    with "1.IH" False "1.prems" show ?thesis
      by (simp add: itoa.simps [of n] dec_digit_digit_char Let_def)
  qed
qed

lemma dtoi_itoa:
  assumes "n < big" and "s = [] \<or> dec_digit (hd s) = None"
  shows "dtoi (itoa n @ s) = (n, length (itoa n), True)"
  using assms dtoi_loop_itoa [of n s 0] by (cases s) (auto simp: dtoi_def)

section \<open>Dotted quads read back\<close>

lemma parseIPv4_step:
  assumes "n < 256" and "s = [] \<or> dec_digit (hd s) = None"
  shows "parseIPv4_loop (Suc k) 0 (itoa n @ s) p = parseIPv4_loop k 1 s (p @ [of_nat n])"
    and "parseIPv4_loop (Suc k) (Suc i) (CHR ''.'' # itoa n @ s) p =
           parseIPv4_loop k (Suc (Suc i)) s (p @ [of_nat n])"
proof -
  have lead: "\<not> (Suc 0 < length (itoa n) \<and> hd (itoa n @ s) = CHR ''0'')"
    using hd_itoa_0 [of n] by (cases "itoa n") (auto simp: itoa_0)
  have "n < big" using assms(1) by (simp add: big_def)
  note d = dtoi_itoa [OF this assms(2)]
  show "parseIPv4_loop (Suc k) 0 (itoa n @ s) p = parseIPv4_loop k 1 s (p @ [of_nat n])"
    using lead assms(1) by (auto simp: d)
  show "parseIPv4_loop (Suc k) (Suc i) (CHR ''.'' # itoa n @ s) p =
      parseIPv4_loop k (Suc (Suc i)) s (p @ [of_nat n])"
    using lead assms(1) by (auto simp: d)
qed

lemma dec_digit_sep [simp]:
  "dec_digit CHR ''.'' = None" "dec_digit CHR '':'' = None" "dec_digit CHR ''/'' = None"
  by (simp_all add: dec_digit_def)

lemma parseIPv4_dots:
  assumes "n < 256"
  shows "parseIPv4_loop (Suc k) 0 (itoa n @ CHR ''.'' # s) p =
           parseIPv4_loop k (Suc 0) (CHR ''.'' # s) (p @ [of_nat n])"
    and "parseIPv4_loop (Suc k) (Suc i) (CHR ''.'' # itoa n @ CHR ''.'' # s) p =
           parseIPv4_loop k (Suc (Suc i)) (CHR ''.'' # s) (p @ [of_nat n])"
    and "parseIPv4_loop (Suc k) (Suc i) (CHR ''.'' # itoa n) p =
           parseIPv4_loop k (Suc (Suc i)) [] (p @ [of_nat n])"
  using parseIPv4_step [OF assms, of "CHR ''.'' # s"] parseIPv4_step(2) [OF assms, of "[]"]
  by (simp_all del: parseIPv4_loop.simps)

lemma parseIPv4_dotted:
  assumes "length p = 4"
  shows "parseIPv4 (dotted p) = v4InV6Prefix @ p"
proof -
  obtain a b c d where p: "p = [a, b, c, d]"
    using assms by (auto simp: numeral_eq_Suc length_Suc_conv)
  have u: "unat x < 256" for x :: "8 word"
    using unsigned_less [of x, where ?'a = nat] by simp
  have "dotted p = itoa (unat a) @ CHR ''.'' # itoa (unat b) @ CHR ''.'' # itoa (unat c) @
      CHR ''.'' # itoa (unat d)"
    by (simp add: p dotted_def)
  then have "parseIPv4_loop (Suc (Suc (Suc (Suc 0)))) 0 (dotted p) [] = Some p"
    by (simp only: parseIPv4_dots [OF u]) (simp add: p)
  then show ?thesis
    by (simp add: parseIPv4_def numeral_eq_Suc del: parseIPv4_loop.simps parseIPv4_loop_numeral)
qed

lemma dropWhile_itoa:
  "dropWhile (\<lambda>c. c \<noteq> CHR ''.'' \<and> c \<noteq> CHR '':'') (itoa n @ s) =
   dropWhile (\<lambda>c. c \<noteq> CHR ''.'' \<and> c \<noteq> CHR '':'') s"
  using itoa_no_sep by (auto intro!: dropWhile_append2)

lemma ParseIP_dotted: "length p = 4 \<Longrightarrow> ParseIP (dotted p) = v4InV6Prefix @ p"
  by (simp add: ParseIP_def parseIPv4_dotted [symmetric])
    (simp add: dotted_def dropWhile_itoa)

lemma length_v4InV6Prefix [simp]: "length v4InV6Prefix = 12"
  by (simp add: v4InV6Prefix_def)

lemma To4_mapped [simp]: "length p = 4 \<Longrightarrow> To4 (v4InV6Prefix @ p) = p"
  by (simp add: To4_def)

lemma To4_cases:
  assumes "To4 ip \<noteq> []"
  obtains (four) "length ip = 4" "To4 ip = ip"
    | (mapped) p where "ip = v4InV6Prefix @ p" "length p = 4" "To4 ip = p"
proof (cases "length ip = 4")
  case True
  then show ?thesis by (intro four) (simp_all add: To4_def)
next
  case False
  with assms have "length ip = 16" "take 12 ip = v4InV6Prefix" "To4 ip = drop 12 ip"
    by (auto simp: To4_def split: if_splits)
  then show ?thesis
    by (intro mapped [of "drop 12 ip"]) (metis append_take_drop_id, simp_all)
qed

lemma IP_String_mapped: "length p = 4 \<Longrightarrow> IP_String (v4InV6Prefix @ p) = dotted p"
  by (auto simp: IP_String_def)

lemma ParseIP_IP_String_v4:
  "length p = 4 \<Longrightarrow> ParseIP (IP_String (v4InV6Prefix @ p)) = v4InV6Prefix @ p"
  by (simp add: IP_String_mapped ParseIP_dotted)

section \<open>Lengths of parsed addresses\<close>

lemma parseIPv4_loop_length:
  "parseIPv4_loop k i s p = Some q \<Longrightarrow> length q = length p + k"
  by (induction k i s p rule: parseIPv4_loop.induct)
    (auto split: if_splits prod.splits simp: Let_def)

lemma parseIPv4_cases: "parseIPv4 s = [] \<or> (\<exists>p. length p = 4 \<and> parseIPv4 s = v4InV6Prefix @ p)"
  by (auto simp: parseIPv4_def simp del: parseIPv4_loop_numeral split: option.splits
      dest: parseIPv4_loop_length)

lemma parseIPv4_length: "parseIPv4 s \<noteq> [] \<Longrightarrow> length (parseIPv4 s) = 16"
  using parseIPv4_cases [of s] by auto

lemma parseIPv6_loop_elim:
  assumes "parseIPv6_loop s p e = Some (s', q, e')"
  obtains (full) "16 \<le> length p" "q = p" "e' = e"
  | (v4) "length p + 4 \<le> 16" "parseIPv4 s \<noteq> []" "q = p @ drop 12 (parseIPv4 s)" "e' = e"
  | (last) a b where "length p < 16" "q = p @ [a, b]" "e' = e"
  | (ellipsis) a b where "length p < 16" "q = p @ [a, b]" "e' = Some (length q)"
  | (more_ellipsis) a b t where "length p < 16"
      "parseIPv6_loop t (p @ [a, b]) (Some (length p + 2)) = Some (s', q, e')"
  | (more) a b t where "length p < 16" "parseIPv6_loop t (p @ [a, b]) e = Some (s', q, e')"
proof -
  obtain n c ok where x: "xtoi s = (n, c, ok)" by (cases "xtoi s")
  define a b where "a = (word_of_nat (n div 256) :: 8 word)" and "b = (word_of_nat n :: 8 word)"
  define s1 s2 s3 where "s1 = drop c s" and "s2 = tl s1" and "s3 = tl s2"
  note eq = assms [unfolded parseIPv6_loop.simps [of s p e] x prod.case Let_def,
      folded a_def b_def s1_def, folded s2_def, folded s3_def]
  from eq that show thesis
    by (auto split: if_splits)
qed

lemma parseIPv6_loop_length:
  "parseIPv6_loop s p e = Some (s', q, e') \<Longrightarrow> length p \<le> 16 \<Longrightarrow> even (length p) \<Longrightarrow>
   (\<forall>k. e = Some k \<longrightarrow> k \<le> length p) \<Longrightarrow>
   length q \<le> 16 \<and> (\<forall>k. e' = Some k \<longrightarrow> k \<le> length q)"
proof (induction "16 - length p" arbitrary: s p e rule: less_induct)
  case less
  have room: "length p + 2 \<le> 16" if "length p < 16"
    using that less.prems(3) by presburger
  from less.prems(1) show ?case
  proof (cases rule: parseIPv6_loop_elim)
    case (more_ellipsis a b t)
    then show ?thesis using less.hyps [OF _ more_ellipsis(2)] room less.prems(3) by simp
  next
    case (more a b t)
    then show ?thesis using less.hyps [OF _ more(2)] room less.prems(3,4) by fastforce
  qed (use less.prems room parseIPv4_length [of s] in auto)
qed

lemma parseIPv6_length: "parseIPv6 s \<noteq> [] \<Longrightarrow> length (parseIPv6 s) = 16"
proof -
  define lead where "lead = (length s \<ge> 2 \<and> s ! 0 = CHR '':'' \<and> s ! 1 = CHR '':'')"
  define t e where "t = (if lead then drop 2 s else s)" and "e = (if lead then Some (0::nat) else None)"
  note eq = parseIPv6_def [of s, unfolded Let_def, folded lead_def, folded t_def e_def]
  show ?thesis if "parseIPv6 s \<noteq> []"
    using that parseIPv6_loop_length [of t "[]" e]
    by (auto simp: eq e_def split: option.splits if_splits prod.splits)
qed

lemma ParseIP_length: "ParseIP s = [] \<or> length (ParseIP s) = 16"
  using parseIPv4_length [of s] parseIPv6_length [of s]
  by (auto simp: ParseIP_def split: list.splits)

lemma ParseCIDR_length: "ParseCIDR s = Some (ip, n) \<Longrightarrow> length ip = 16"
  using parseIPv4_length parseIPv6_length
  by (auto simp: ParseCIDR_def Let_def split: list.splits prod.splits if_splits)

end
