(* ===== verification/AddrNum.thy ===== *)
theory AddrNum
  imports GoNet
begin

unbundle bit_operations_syntax

text \<open>
  Addresses as numbers: the big-endian value of a byte list, what a mask of \<open>n\<close> ones does
  to that value, and the text form of a network read back by \<^const>\<open>ParseCIDR\<close>. These
  are the facts that relate the byte loops of package \<open>iputil\<close> to address ranges.
\<close>

section \<open>The value of an address\<close>

fun ip_val :: "ip \<Rightarrow> nat" where
  "ip_val [] = 0"
| "ip_val (b # bs) = unat b * 256 ^ length bs + ip_val bs"

lemma unat_byte: "unat (b :: 8 word) < 256"
  using unsigned_less [of b, where ?'a = nat] by simp

lemma ip_val_less: "ip_val ip < 256 ^ length ip"
proof (induction ip)
  case (Cons b bs)
  have "unat b * 256 ^ length bs + ip_val bs < (unat b + 1) * 256 ^ length bs"
    using Cons.IH by simp
  also have "\<dots> \<le> 256 * 256 ^ length bs"
    using unat_byte [of b] by (intro mult_right_mono) auto
  finally show ?case by simp
qed simp

lemma ip_val_snoc: "ip_val (bs @ [b]) = ip_val bs * 256 + unat b"
  by (induction bs) (simp_all add: algebra_simps)

lemma ip_val_append: "ip_val (xs @ ys) = ip_val xs * 256 ^ length ys + ip_val ys"
  by (induction xs) (simp_all add: algebra_simps power_add)

lemma ip_val_inject: "length xs = length ys \<Longrightarrow> ip_val xs = ip_val ys \<Longrightarrow> xs = ys"
proof (induction xs ys rule: rev_induct2)
  case (4 x xs y ys)
  then have "ip_val xs * 256 + unat x = ip_val ys * 256 + unat y"
    by (simp add: ip_val_snoc)
  then have "(ip_val xs * 256 + unat x) div 256 = (ip_val ys * 256 + unat y) div 256"
     and "(ip_val xs * 256 + unat x) mod 256 = (ip_val ys * 256 + unat y) mod 256"
    by simp_all
  then have "ip_val xs = ip_val ys" "unat x = unat y"
    using unat_byte [of x] unat_byte [of y] by simp_all
  with 4 show ?case by (simp add: unsigned_word_eqI)
qed auto

section \<open>Masks cut the number\<close>

lemma drop_bit_255: "n \<le> 8 \<Longrightarrow> drop_bit n (255 :: 8 word) = mask (8 - n)"
proof -
  have e: "(255 :: 8 word) = mask 8" by (simp add: mask_numeral)
  show "n \<le> 8 \<Longrightarrow> drop_bit n (255 :: 8 word) = mask (8 - n)"
    unfolding e by (rule bit_word_eqI) (auto simp: bit_drop_bit_eq bit_mask_iff)
qed

lemma and_not_mask_eq_iff:
  fixes x y :: "8 word"
  shows "x AND NOT (mask k) = y AND NOT (mask k) \<longleftrightarrow> drop_bit k x = drop_bit k y"
proof -
  have shift: "push_bit k (drop_bit k z) = z AND NOT (mask k)" for z :: "8 word"
    by (rule bit_word_eqI) (auto simp: bit_simps)
  have "drop_bit k (z AND NOT (mask k)) = drop_bit k z" for z :: "8 word"
    by (rule bit_word_eqI) (auto simp: bit_simps dest: bit_imp_le_length)
  then show ?thesis by (metis shift)
qed

lemma drop_bit_byte_eq_iff:
  fixes x y :: "8 word"
  shows "drop_bit k x = drop_bit k y \<longleftrightarrow> unat x div 2 ^ k = unat y div 2 ^ k"
  by (metis unat_drop_bit_eq drop_bit_eq_div unsigned_word_eqI)

lemma length_mask_bytes [simp]: "length (mask_bytes l n) = l"
  by (induction l n rule: mask_bytes.induct) auto

lemma byte_and_255 [simp]: "b AND 255 = (b :: 8 word)"
proof -
  have e: "(255 :: 8 word) = mask 8" by (simp add: mask_numeral)
  show ?thesis unfolding e by (rule bit_word_eqI) (simp add: bit_simps)
qed

lemma byte_neg_256 [simp]: "(-256 :: 8 word) = 0"
  by simp

lemma and_mask_bytes_0: "length xs = l \<Longrightarrow> map2 (AND) xs (mask_bytes l 0) = replicate l 0"
  by (induction l arbitrary: xs) (auto simp: length_Suc_conv)

lemma div_pow_split:
  "v < 2 ^ m \<Longrightarrow> e \<le> m \<Longrightarrow> (x * 2 ^ m + v) div 2 ^ e = x * 2 ^ (m - e) + v div (2 ^ e :: nat)"
proof -
  assume "e \<le> m"
  then have "x * 2 ^ m = x * 2 ^ (m - e) * (2 ^ e :: nat)"
    by (simp add: mult.assoc flip: power_add)
  then show ?thesis by (simp only: ) (simp add: div_mult_self3)
qed

lemma pow256: "256 ^ l = (2 :: nat) ^ (8 * l)"
  by (simp add: power_mult)

lemma mask_bytes_eq_iff:
  "length xs = l \<Longrightarrow> length ys = l \<Longrightarrow> n \<le> 8 * l \<Longrightarrow>
   map2 (AND) xs (mask_bytes l n) = map2 (AND) ys (mask_bytes l n) \<longleftrightarrow>
   ip_val xs div 2 ^ (8 * l - n) = ip_val ys div 2 ^ (8 * l - n)"
proof (induction l n arbitrary: xs ys rule: mask_bytes.induct)
  case (2 l n)
  obtain x xs' y ys' where xs: "xs = x # xs'" "length xs' = l" and ys: "ys = y # ys'" "length ys' = l"
    using 2(3,4) by (auto simp: length_Suc_conv)
  have lx: "ip_val xs' < 2 ^ (8 * l)" and ly: "ip_val ys' < 2 ^ (8 * l)"
    using ip_val_less [of xs'] ip_val_less [of ys'] by (simp_all add: xs ys pow256)
  show ?case
  proof (cases "8 \<le> n")
    case True
    define e where "e = 8 * l - (n - 8)"
    have e: "8 + 8 * l - n = e" "e \<le> 8 * l" using True 2(5) by (auto simp: e_def)
    have bnd: "ip_val xs' div 2 ^ e < 2 ^ (8 * l - e)" "ip_val ys' div 2 ^ e < 2 ^ (8 * l - e)"
      using lx ly e(2) by (simp_all add: less_mult_imp_div_less flip: power_add)
    have IH: "map2 (AND) xs' (mask_bytes l (n - 8)) = map2 (AND) ys' (mask_bytes l (n - 8)) \<longleftrightarrow>
        ip_val xs' div 2 ^ e = ip_val ys' div 2 ^ e"
      using 2(1) [OF True xs(2) ys(2)] 2(5) by (simp add: e_def)
    have uniq: "a * m + b = c * m + d \<longleftrightarrow> a = c \<and> b = d" if "b < m" "d < m" for a b c d m :: nat
      using that by (metis add.commute div_mult_self3 mod_mult_self3 div_less mod_less add_0 less_nat_zero_code)
    show ?thesis
      using True uniq [OF bnd] IH
      by (auto simp: xs ys e pow256 div_pow_split [OF lx] div_pow_split [OF ly] intro: unsigned_word_eqI)
  next
    case False
    have e: "8 + 8 * l - n = 8 * l + (8 - n)" using False by simp
    have "(x * 2 ^ (8 * l) + v) div 2 ^ (8 * l + (8 - n)) = x div 2 ^ (8 - n)"
      if "v < 2 ^ (8 * l)" for x v :: nat
      using that by (simp add: power_add div_mult2_eq)
    with False lx ly show ?thesis
      by (simp add: xs ys e pow256 and_mask_bytes_0 drop_bit_255 and_not_mask_eq_iff
          drop_bit_byte_eq_iff)
  qed
qed simp

section \<open>Dotted networks\<close>

lemma dec_digit_itoa: "c \<in> set (itoa n) \<Longrightarrow> dec_digit c \<noteq> None"
proof (induction n rule: itoa.induct)
  case (1 n)
  from "1.prems" show ?case
    by (subst (asm) itoa.simps) (auto split: if_splits simp: dec_digit_digit_char dest!: "1.IH" [rotated])
qed

lemma itoa_no_slash: "CHR ''/'' \<notin> set (itoa n)"
  using dec_digit_itoa by fastforce

lemma dotted_no_slash: "CHR ''/'' \<notin> set (dotted p)"
  by (simp add: dotted_def itoa_no_slash)

definition v4_cidr :: "ip \<Rightarrow> nat \<Rightarrow> string" where
  "v4_cidr p n = dotted p @ ''/'' @ itoa n"

definition v4_net :: "ip \<Rightarrow> nat \<Rightarrow> ipnet" where
  "v4_net p n = \<lparr>net_IP = map2 (AND) p (mask_bytes 4 n), net_Mask = mask_bytes 4 n\<rparr>"

lemma v4InV6Prefix_neq_Nil [simp]: "v4InV6Prefix \<noteq> []"
  by (simp add: v4InV6Prefix_def)

lemma takeWhile_dropWhile_sep:
  "c \<notin> set s \<Longrightarrow> takeWhile (\<lambda>x. x \<noteq> c) (s @ c # t) = s"
  "c \<notin> set s \<Longrightarrow> dropWhile (\<lambda>x. x \<noteq> c) (s @ c # t) = c # t"
  by (induction s) auto

lemma ParseCIDR_dotted:
  assumes "length p = 4" and "n \<le> 32"
  shows "ParseCIDR (v4_cidr p n) = Some (v4InV6Prefix @ p, v4_net p n)"
proof -
  have "n < big" using assms(2) by (simp add: big_def)
  from dtoi_itoa [OF this, of "[]"] have d: "dtoi (itoa n) = (n, length (itoa n), True)" by simp
  have m: "IP_Mask (v4InV6Prefix @ p) (mask_bytes 4 n) = map2 (AND) p (mask_bytes 4 n)"
    using assms(1) by (simp add: IP_Mask_def Let_def del: mask_bytes_numeral)
  show ?thesis
    using assms
    by (simp add: ParseCIDR_def v4_cidr_def takeWhile_dropWhile_sep dotted_no_slash
        parseIPv4_dotted d CIDRMask_def m v4_net_def Let_def del: mask_bytes_numeral)
qed

lemma and_and_mask: "length p = length m \<Longrightarrow> map2 (AND) (map2 (AND) p m) m = map2 (AND) p (m :: 8 word list)"
  by (induction p m rule: list_induct2) (auto simp: and.assoc)

lemma networkNumberAndMask_v4:
  "length p = 4 \<Longrightarrow> networkNumberAndMask (v4_net p n) = (map2 (AND) p (mask_bytes 4 n), mask_bytes 4 n)"
  by (simp add: networkNumberAndMask_def v4_net_def To4_def Let_def del: mask_bytes_numeral)

lemma Contains_v4_net:
  assumes "length p = 4" and "length q = 4" and "n \<le> 32"
  shows "Contains (v4_net p n) (v4InV6Prefix @ q) \<longleftrightarrow>
           ip_val q div 2 ^ (32 - n) = ip_val p div 2 ^ (32 - n)"
  using mask_bytes_eq_iff [of q 4 p n] assms
  by (auto simp: Contains_def networkNumberAndMask_v4 and_and_mask Let_def simp del: mask_bytes_numeral)

lemma not_Contains_v4_net:
  assumes "length p = 4" and "To4 ip = []" and "length ip = 16"
  shows "\<not> Contains (v4_net p n) ip"
  using assms by (auto simp: Contains_def networkNumberAndMask_v4 Let_def simp del: mask_bytes_numeral)

text \<open>No network contains every 16-byte address: it holds either mapped or unmapped ones.\<close>

lemma Contains_exit: "\<exists>e. length e = 16 \<and> \<not> Contains n e"
proof (cases "length (fst (networkNumberAndMask n)) = 4")
  case True
  have "To4 (replicate 16 0) = []" "length (replicate 16 (0 :: 8 word)) = 16"
    by (simp_all add: To4_def v4InV6Prefix_def replicate_numeral_eval)
  with True show ?thesis
    by (intro exI [of _ "replicate 16 0"]) (auto simp: Contains_def Let_def split: prod.splits)
next
  case False
  then show ?thesis
    by (intro exI [of _ "v4InV6Prefix @ [0, 0, 0, 0]"])
      (auto simp: Contains_def Let_def split: prod.splits)
qed

end
