(* ===== verification/IPUtil.thy ===== *)
theory IPUtil
  imports AddrNum
begin

text \<open>
  Package \<open>controllers/iputil\<close> (\<open>pickip.go\<close>): the choice of an overlay address for a pod.
  The loop of \<open>FirstFreeHost\<close> has no bound in the source, so it is a
  \<^theory_text>\<open>partial_function\<close> whose \<open>None\<close> is "does not return"; the theory proves that it
  always returns, which address it returns, and when the pool counts as exhausted.
\<close>

section \<open>The code\<close>

datatype alloc_error =
    ErrAddressPoolExhausted
  | ErrDuplicateIPRequest
  | ErrInvalidCIDR string \<comment> \<open>the \<open>ParseError\<close> of \<open>net.ParseCIDR\<close>\<close>

text \<open>\<open>inc\<close>: index \<open>j\<close> runs from \<open>len(ip)-1\<close> down to 0; the recursion counts \<open>j + 1\<close>.\<close>

fun inc_from :: "ip \<Rightarrow> nat \<Rightarrow> ip" where
  "inc_from ip 0 = ip"
| "inc_from ip (Suc j) =
     (let ip = ip[j := ip ! j + 1] in if ip ! j > 0 then ip else inc_from ip j)"

definition inc :: "ip \<Rightarrow> ip" where
  "inc ip = inc_from ip (length ip)"

partial_function (option) free_host_loop ::
  "ipnet \<Rightarrow> (string, bool) go_map \<Rightarrow> ip \<Rightarrow> (alloc_error + string) option" where
  "free_host_loop ipnet allocated ip =
     (if Contains ipnet ip then
        (if gm_get allocated (IP_String ip) False then free_host_loop ipnet allocated (inc ip)
         else Some (Inr (IP_String ip)))
      else Some (Inl ErrAddressPoolExhausted))"

definition FirstFreeHost ::
  "string \<Rightarrow> (string, bool) go_map \<Rightarrow> ip \<Rightarrow> (alloc_error + string) option" where
  "FirstFreeHost cidr allocated request =
     (case ParseCIDR cidr of
       None \<Rightarrow> Some (Inl (ErrInvalidCIDR cidr))
     | Some (ip, ipnet) \<Rightarrow>
         if request \<noteq> [] \<and> \<not> gm_get allocated (IP_String request) False
         then Some (Inr (IP_String request))
         else if request \<noteq> [] then Some (Inl ErrDuplicateIPRequest)
         else free_host_loop ipnet allocated (inc ip))"

section \<open>The increment\<close>

lemma inc_from_append:
  "j \<le> length xs \<Longrightarrow> inc_from (xs @ ys) j = inc_from xs j @ ys"
  by (induction j arbitrary: xs) (auto simp: Let_def list_update_append nth_append)

lemma length_inc_from [simp]: "length (inc_from ip j) = length ip"
  by (induction j arbitrary: ip) (auto simp: Let_def)

lemma length_inc [simp]: "length (inc ip) = length ip"
  by (simp add: inc_def)

lemma length_inc_funpow [simp]: "length ((inc ^^ k) ip) = length ip"
  by (induction k) simp_all

lemma inc_Nil [simp]: "inc [] = []"
  by (simp add: inc_def)

lemma inc_snoc: "inc (bs @ [b]) = (if b + 1 > 0 then bs @ [b + 1] else inc bs @ [0])"
  by (auto simp: inc_def Let_def list_update_append inc_from_append word_gt_0)

lemma unat_byte_inc: "unat (b + 1 :: 8 word) = (if b + 1 > 0 then unat b + 1 else 0)"
  by (cases "b + 1 = 0") (auto simp: word_gt_0 unat_eq_zero unatSuc add.commute)

lemma byte_wraps: "\<not> b + 1 > 0 \<Longrightarrow> unat (b :: 8 word) = 255"
proof -
  assume "\<not> b + 1 > 0"
  then have "b = - 1" by (simp add: word_gt_0 eq_neg_iff_add_eq_0)
  then show ?thesis by (simp add: unsigned_minus_1_eq_mask mask_eq_exp_minus_1)
qed

lemma ip_val_inc: "ip_val (inc ip) = (ip_val ip + 1) mod 256 ^ length ip"
proof (induction ip rule: rev_induct)
  case (snoc b bs)
  have bound: "ip_val bs < 256 ^ length bs" by (rule ip_val_less)
  show ?case
  proof (cases "b + 1 > 0")
    case True
    have "unat b + 1 < 256" using True unat_byte [of "b + 1"] by (simp add: unat_byte_inc)
    then have "ip_val bs * 256 + unat b + 1 < 256 ^ length bs * 256"
      using bound by (simp add: less_eq_Suc_le)
    with True show ?thesis by (simp add: inc_snoc ip_val_snoc unat_byte_inc mult.commute)
  next
    case False
    then show ?thesis
      using byte_wraps [OF False] snoc.IH
      by (simp add: inc_snoc ip_val_snoc mult.commute [of _ 256])
        (metis add.commute mult_Suc_right mult_mod_right)
  qed
qed simp

lemma ip_val_inc_funpow: "ip_val ((inc ^^ k) ip) = (ip_val ip + k) mod 256 ^ length ip"
proof (induction k)
  case 0
  then show ?case by (simp add: ip_val_less)
next
  case (Suc k)
  then show ?case by (simp add: ip_val_inc mod_Suc_eq)
qed

lemma inc_reaches: "length e = length ip \<Longrightarrow> \<exists>k. (inc ^^ k) ip = e"
proof -
  assume len: "length e = length ip"
  let ?N = "256 ^ length ip"
  have "(ip_val ip + (?N - ip_val ip + ip_val e)) mod ?N = ip_val e"
    using ip_val_less [of ip] ip_val_less [of e] len by simp
  then have "ip_val ((inc ^^ (?N - ip_val ip + ip_val e)) ip) = ip_val e"
    by (simp only: ip_val_inc_funpow)
  with len show ?thesis by (intro exI) (rule ip_val_inject, simp_all)
qed

section \<open>The search\<close>

abbreviation taken :: "(string, bool) go_map \<Rightarrow> ip \<Rightarrow> bool" where
  "taken allocated ip \<equiv> gm_get allocated (IP_String ip) False"

lemma free_host_loop_skip:
  "(\<And>j. j < k \<Longrightarrow> Contains n ((inc ^^ j) ip) \<and> taken A ((inc ^^ j) ip)) \<Longrightarrow>
   free_host_loop n A ip = free_host_loop n A ((inc ^^ k) ip)"
proof (induction k)
  case (Suc k)
  then have "free_host_loop n A ip = free_host_loop n A ((inc ^^ k) ip)" by simp
  also have "\<dots> = free_host_loop n A ((inc ^^ Suc k) ip)"
    using Suc.prems [of k] by (subst free_host_loop.simps) simp
  finally show ?case .
qed simp

text \<open>
  The loop always stops: some 16-byte address lies outside every network, and repeated
  increments reach it.
\<close>

lemma free_host_loop_cases:
  assumes "length ip = 16"
  obtains (free) k where "Contains n ((inc ^^ k) ip)" "\<not> taken A ((inc ^^ k) ip)"
      "\<And>j. j < k \<Longrightarrow> Contains n ((inc ^^ j) ip) \<and> taken A ((inc ^^ j) ip)"
      "free_host_loop n A ip = Some (Inr (IP_String ((inc ^^ k) ip)))"
  | (exhausted) k where "\<not> Contains n ((inc ^^ k) ip)"
      "\<And>j. j < k \<Longrightarrow> Contains n ((inc ^^ j) ip) \<and> taken A ((inc ^^ j) ip)"
      "free_host_loop n A ip = Some (Inl ErrAddressPoolExhausted)"
proof -
  obtain e where e: "length e = 16" "\<not> Contains n e" using Contains_exit by blast
  with assms obtain m where "(inc ^^ m) ip = e" using inc_reaches by metis
  with e(2) have "\<not> (Contains n ((inc ^^ m) ip) \<and> taken A ((inc ^^ m) ip))" by simp
  then obtain k where stop: "\<not> (Contains n ((inc ^^ k) ip) \<and> taken A ((inc ^^ k) ip))"
    and before: "\<And>j. j < k \<Longrightarrow> Contains n ((inc ^^ j) ip) \<and> taken A ((inc ^^ j) ip)"
    using exists_least_iff [of "\<lambda>k. \<not> (Contains n ((inc ^^ k) ip) \<and> taken A ((inc ^^ k) ip))"]
    by metis
  have run: "free_host_loop n A ip = free_host_loop n A ((inc ^^ k) ip)"
    using before by (rule free_host_loop_skip)
  show thesis
  proof (cases "Contains n ((inc ^^ k) ip)")
    case True
    with stop have "free_host_loop n A ((inc ^^ k) ip) = Some (Inr (IP_String ((inc ^^ k) ip)))"
      by (subst free_host_loop.simps) simp
    with True stop before run show thesis by (intro free) simp_all
  next
    case False
    then have "free_host_loop n A ((inc ^^ k) ip) = Some (Inl ErrAddressPoolExhausted)"
      by (subst free_host_loop.simps) simp
    with False before run show thesis by (intro exhausted) simp_all
  qed
qed

lemma free_host_loop_returns: "length ip = 16 \<Longrightarrow> \<exists>r. free_host_loop n A ip = Some r"
  by (erule free_host_loop_cases) auto

lemma first_stop_iff:
  assumes "\<not> P k" and "\<And>j. j < k \<Longrightarrow> P j"
  shows "(\<exists>k'. \<not> P k' \<and> (\<forall>j < k'. P j) \<and> R k') \<longleftrightarrow> R (k :: nat)"
proof -
  have "k' = k" if "\<not> P k'" "\<forall>j < k'. P j" for k'
    using that assms by (meson nat_neq_iff)
  with assms show ?thesis by blast
qed

lemma free_host_loop_iff:
  assumes "length ip = 16"
  shows "free_host_loop n A ip = Some r \<longleftrightarrow>
    (\<exists>k. \<not> (Contains n ((inc ^^ k) ip) \<and> taken A ((inc ^^ k) ip)) \<and>
         (\<forall>j < k. Contains n ((inc ^^ j) ip) \<and> taken A ((inc ^^ j) ip)) \<and>
         r = (if Contains n ((inc ^^ k) ip) then Inr (IP_String ((inc ^^ k) ip))
              else Inl ErrAddressPoolExhausted))"
  using assms
proof (cases rule: free_host_loop_cases [of ip n A])
  case (free k)
  show ?thesis
    using free(1,2,4) by (subst first_stop_iff [of _ k]) (auto simp: free(3))
next
  case (exhausted k)
  show ?thesis
    using exhausted(1,3) by (subst first_stop_iff [of _ k]) (auto simp: exhausted(2))
qed

lemma free_host_loop_Inr:
  assumes "length ip = 16" and "free_host_loop n A ip = Some (Inr s)"
  obtains k where "s = IP_String ((inc ^^ k) ip)" "Contains n ((inc ^^ k) ip)" "\<not> taken A ((inc ^^ k) ip)"
    "\<And>j. j < k \<Longrightarrow> Contains n ((inc ^^ j) ip) \<and> taken A ((inc ^^ j) ip)"
  using assms(2) by (auto simp: free_host_loop_iff [OF assms(1)] split: if_splits)

section \<open>The pool of an IPv4 network as a range of numbers\<close>

definition v4_addr :: "nat \<Rightarrow> ip" where
  "v4_addr x = v4InV6Prefix @
     [of_nat (x div 256 div 256 div 256), of_nat (x div 256 div 256), of_nat (x div 256), of_nat x]"

definition v4_pool_end :: "ip \<Rightarrow> nat \<Rightarrow> nat" where
  "v4_pool_end p n = (ip_val p div 2 ^ (32 - n) + 1) * 2 ^ (32 - n)"

definition at_v4 :: "nat \<Rightarrow> ip \<Rightarrow> bool" where
  "at_v4 a ip \<longleftrightarrow> length ip = 16 \<and> ip_val ip = 0xFFFF * 2 ^ 32 + a"

lemma ip_val_v4InV6Prefix: "ip_val v4InV6Prefix = 0xFFFF"
  by (simp add: v4InV6Prefix_def)

lemma ip_val_v4_addr: "x < 2 ^ 32 \<Longrightarrow> at_v4 x (v4_addr x)"
proof -
  assume x: "x < 2 ^ 32"
  define a b c where "a = x div 256" and "b = a div 256" and "c = b div 256"
  have c: "c < 256" using x unfolding c_def b_def a_def by (simp add: less_mult_imp_div_less)
  have "b = c * 256 + b mod 256" "a = b * 256 + a mod 256" "x = a * 256 + x mod 256"
    unfolding c_def b_def a_def by simp_all
  then have "c * 16777216 + (b mod 256 * 65536 + (a mod 256 * 256 + x mod 256)) = x"
    by linarith
  with c show ?thesis
    by (simp add: at_v4_def v4_addr_def ip_val_append ip_val_v4InV6Prefix unsigned_of_nat
        take_bit_eq_mod flip: a_def b_def c_def)
qed

lemma at_v4_addr: "x < 2 ^ 32 \<Longrightarrow> at_v4 x ip \<longleftrightarrow> ip = v4_addr x"
  using ip_val_v4_addr [of x] ip_val_inject [of ip "v4_addr x"] by (auto simp: at_v4_def)

lemma at_v4_mapped: "length q = 4 \<Longrightarrow> at_v4 a (v4InV6Prefix @ q) \<longleftrightarrow> a = ip_val q"
  by (auto simp: at_v4_def ip_val_append ip_val_v4InV6Prefix)

lemma at_v4_inc: "at_v4 a ip \<Longrightarrow> a < 2 ^ 32 \<Longrightarrow> at_v4 (Suc a) (inc ip)"
  by (simp add: at_v4_def ip_val_inc)

lemma Contains_at_v4:
  assumes "at_v4 a ip" and "length p = 4" and "n \<le> 32"
  shows "Contains (v4_net p n) ip \<longleftrightarrow> a < 2 ^ 32 \<and> a div 2 ^ (32 - n) = ip_val p div 2 ^ (32 - n)"
proof (cases "To4 ip = []")
  case True
  then have "\<not> a < 2 ^ 32"
    using at_v4_addr [of a ip] assms(1) by (auto simp: v4_addr_def To4_def)
  with True show ?thesis
    using assms not_Contains_v4_net [of p ip n] by (auto simp: at_v4_def)
next
  case False
  then obtain q where q: "ip = v4InV6Prefix @ q" "length q = 4"
    using assms(1) by (auto simp: at_v4_def elim: To4_cases)
  with assms(1) have "a = ip_val q" by (simp add: at_v4_mapped)
  with q assms show ?thesis using ip_val_less [of q] by (simp add: Contains_v4_net)
qed

lemma in_block_iff: "b > 0 \<Longrightarrow> (h :: nat) \<le> a \<Longrightarrow> a div b = h div b \<longleftrightarrow> a < (h div b + 1) * b"
  by (metis Suc_eq_plus1 div_le_mono div_less_iff_less_mult le_antisym less_Suc_eq_le)

lemma v4_pool_end_le: "length p = 4 \<Longrightarrow> n \<le> 32 \<Longrightarrow> v4_pool_end p n \<le> 2 ^ 32"
proof -
  assume a: "length p = 4" "n \<le> 32"
  have e: "(2 :: nat) ^ 32 = 2 ^ n * 2 ^ (32 - n)" using a(2) by (simp flip: power_add)
  have "ip_val p < 2 ^ n * 2 ^ (32 - n)" using ip_val_less [of p] a(1) by (simp flip: e)
  then have "ip_val p div 2 ^ (32 - n) + 1 \<le> 2 ^ n"
    by (simp add: less_mult_imp_div_less Suc_leI)
  then show ?thesis unfolding e v4_pool_end_def by (rule mult_right_mono) simp
qed

lemma Contains_in_pool:
  assumes "at_v4 a ip" and "length p = 4" and "n \<le> 32" and "ip_val p \<le> a"
  shows "Contains (v4_net p n) ip \<longleftrightarrow> a < v4_pool_end p n"
  using assms(4) v4_pool_end_le [OF assms(2,3)] in_block_iff [of "2 ^ (32 - n)" "ip_val p" a]
  unfolding Contains_at_v4 [OF assms(1-3)] v4_pool_end_def by auto

definition pool_result :: "nat option \<Rightarrow> alloc_error + string" where
  "pool_result r = (case r of None \<Rightarrow> Inl ErrAddressPoolExhausted | Some x \<Rightarrow> Inr (IP_String (v4_addr x)))"

lemma free_host_loop_find:
  assumes "length p = 4" and "n \<le> 32"
  shows "at_v4 a ip \<Longrightarrow> ip_val p \<le> a \<Longrightarrow> a \<le> v4_pool_end p n \<Longrightarrow>
    free_host_loop (v4_net p n) A ip =
      Some (pool_result (find (\<lambda>x. \<not> taken A (v4_addr x)) [a ..< v4_pool_end p n]))"
proof (induction "v4_pool_end p n - a" arbitrary: a ip)
  case 0
  then have "\<not> Contains (v4_net p n) ip" by (simp add: Contains_in_pool [OF _ assms])
  with 0 show ?case by (subst free_host_loop.simps) (simp add: pool_result_def)
next
  case (Suc d)
  then have lt: "a < v4_pool_end p n" by simp
  have small: "a < 2 ^ 32" using lt v4_pool_end_le [OF assms] by (rule less_le_trans)
  have ip: "ip = v4_addr a" using Suc.prems(1) small by (simp add: at_v4_addr)
  have c: "Contains (v4_net p n) ip" using lt Suc.prems by (simp add: Contains_in_pool [OF _ assms])
  have step: "free_host_loop (v4_net p n) A (inc ip) =
      Some (pool_result (find (\<lambda>x. \<not> taken A (v4_addr x)) [Suc a ..< v4_pool_end p n]))"
    using Suc.hyps(2) Suc.prems lt by (intro Suc.hyps(1) at_v4_inc) (use small in simp_all)
  from c step lt show ?case
    by (subst free_host_loop.simps) (simp add: ip upt_conv_Cons pool_result_def)
qed

section \<open>The contract a client relies on\<close>

text \<open>
  What the pod controller needs of an address source: it answers, and a granted address is
  not among those already marked. The lemma says that granting from the map of the addresses
  in use keeps the addresses in use distinct.
\<close>

locale address_source =
  fixes pick :: "string \<Rightarrow> (string, bool) go_map \<Rightarrow> ip \<Rightarrow> (alloc_error + string) option"
  assumes pick_returns: "\<exists>r. pick cidr A req = Some r"
    and pick_fresh: "pick cidr A req = Some (Inr s) \<Longrightarrow> \<not> gm_get A s False"
begin

lemma pick_cases:
  obtains (refused) e where "pick cidr A req = Some (Inl e)"
    | (granted) s where "pick cidr A req = Some (Inr s)" "\<not> gm_get A s False"
proof -
  obtain r where "pick cidr A req = Some r" using pick_returns by blast
  with that show thesis by (cases r) (auto dest: pick_fresh)
qed

lemma pick_distinct:
  assumes "pick cidr A req = Some (Inr s)" and "\<And>u. u \<in> set used \<Longrightarrow> gm_get A u False"
    and "distinct used"
  shows "distinct (used @ [s])"
  using pick_fresh [OF assms(1)] assms(2) [of s] assms(3) by auto

end

lemma FirstFreeHost_total: "\<exists>r. FirstFreeHost cidr allocated request = Some r"
  using free_host_loop_returns ParseCIDR_length
  by (auto simp: FirstFreeHost_def split: option.splits)

lemma FirstFreeHost_fresh:
  assumes "FirstFreeHost cidr allocated request = Some (Inr s)"
  shows "\<not> gm_get allocated s False"
proof (cases "ParseCIDR cidr")
  case None
  with assms show ?thesis by (simp add: FirstFreeHost_def)
next
  case (Some r)
  then obtain ip n where r: "r = (ip, n)" "length ip = 16" using ParseCIDR_length by (cases r) auto
  with assms Some show ?thesis
    by (auto simp: FirstFreeHost_def split: if_splits elim: free_host_loop_Inr [rotated])
qed

interpretation first_free: address_source FirstFreeHost
  by unfold_locales (auto simp: FirstFreeHost_total dest: FirstFreeHost_fresh)

lemma FirstFreeHost_find:
  assumes "length p = 4" and "n \<le> 32"
  shows "FirstFreeHost (v4_cidr p n) A [] =
    Some (pool_result (find (\<lambda>x. \<not> taken A (v4_addr x)) [Suc (ip_val p) ..< v4_pool_end p n]))"
proof -
  have "ip_val p < v4_pool_end p n"
    using in_block_iff [of "2 ^ (32 - n)" "ip_val p" "ip_val p"] by (simp add: v4_pool_end_def)
  moreover have "at_v4 (Suc (ip_val p)) (inc (v4InV6Prefix @ p))"
    using ip_val_less [of p] assms(1) by (intro at_v4_inc) (simp_all add: at_v4_mapped)
  ultimately show ?thesis
    using free_host_loop_find [OF assms]
    by (simp add: FirstFreeHost_def ParseCIDR_dotted [OF assms])
qed

lemmas FirstFreeHost_eval =
  pool_result_def v4_pool_end_def v4_addr_def go_print_eval gm_get_def upt_conv_Cons upt_rec_numeral

lemma v4_h: "length [10, 0, 0, 1 :: 8 word] = 4" "(30 :: nat) \<le> 32"
  by simp_all

section \<open>Properties\<close>

text \<open>C16: on an IPv4 network \<open>a.b.c.d/n\<close>, and without a requested address, the byte loop refines a linear search over numbers:
  the result is the least address above \<open>a.b.c.d\<close> within its block that is not allocated, and
  the pool counts as exhausted exactly when there is none.\<close>

theorem FirstFreeHost_refines_find:
  assumes "length p = 4" and "n \<le> 32"
  shows "FirstFreeHost (v4_cidr p n) A [] =
    Some (pool_result (find (\<lambda>x. \<not> taken A (v4_addr x)) [Suc (ip_val p) ..< v4_pool_end p n]))"
  using assms by (rule FirstFreeHost_find)

theorem FirstFreeHost_refines_find_witness:
  "FirstFreeHost (v4_cidr [10, 0, 0, 1] 30) [(''10.0.0.2'', True)] [] = Some (Inr ''10.0.0.3'')"
  unfolding FirstFreeHost_refines_find [OF v4_h]
  by (simp add: FirstFreeHost_eval)

text \<open>C27: \<open>FirstFreeHost\<close> returns on every input: for any CIDR text, any set of allocated
  addresses and any request its loop ends, for IPv4, IPv6 and v4-mapped networks alike
  (also \<open>0.0.0.0/0\<close> and \<open>::/0\<close>, where the increment could wrap around).\<close>

theorem FirstFreeHost_returns: "\<exists>r. FirstFreeHost cidr allocated request = Some r"
  by (rule first_free.pick_returns)

text \<open>\<open>inc\<close> adds one to the big-endian value of an address, modulo the size of the
  address space, and keeps the length: the byte loop with its carry refines addition.\<close>

lemma inc_refines_addition:
  "ip_val (inc ip) = (ip_val ip + 1) mod 256 ^ length ip \<and> length (inc ip) = length ip"
  by (simp add: ip_val_inc)

text \<open>C26: an address that the search grants on an IPv4 network to a pod that requests none, read back with \<open>net.ParseIP\<close>, lies in the
  allocatable network, above the address written in the CIDR, and is not allocated: printing
  and parsing lose nothing.\<close>

theorem FirstFreeHost_in_network:
  assumes "length p = 4" and "n \<le> 32" and "FirstFreeHost (v4_cidr p n) A [] = Some (Inr s)"
  shows "Contains (v4_net p n) (ParseIP s) \<and> ip_val (v4InV6Prefix @ p) < ip_val (ParseIP s) \<and>
    IP_String (ParseIP s) = s \<and> \<not> gm_get A s False"
proof -
  from assms(3) obtain x where f: "find (\<lambda>x. \<not> taken A (v4_addr x)) [Suc (ip_val p) ..< v4_pool_end p n] = Some x"
    and s: "s = IP_String (v4_addr x)"
    by (auto simp: FirstFreeHost_find [OF assms(1,2)] pool_result_def split: option.splits)
  from f have x: "ip_val p < x" "x < v4_pool_end p n"
    by (auto simp: find_Some_iff)
  then have small: "x < 2 ^ 32" using v4_pool_end_le [OF assms(1,2)] by (rule_tac less_le_trans)
  have parse: "ParseIP (IP_String (v4_addr x)) = v4_addr x"
    by (simp add: v4_addr_def ParseIP_IP_String_v4)
  have "at_v4 x (v4_addr x)" using small by (rule ip_val_v4_addr)
  with x small show ?thesis
    using Contains_in_pool [of x "v4_addr x", OF _ assms(1,2)] FirstFreeHost_fresh [OF assms(3)]
    by (auto simp: parse s at_v4_def ip_val_append ip_val_v4InV6Prefix assms(1))
qed

theorem FirstFreeHost_in_network_witness:
  "Contains (v4_net [10, 0, 0, 1] 30) (ParseIP ''10.0.0.2'')"
proof -
  have "FirstFreeHost (v4_cidr [10, 0, 0, 1] 30) [] [] = Some (Inr ''10.0.0.2'')"
    unfolding FirstFreeHost_find [OF v4_h] by (simp add: FirstFreeHost_eval)
  from FirstFreeHost_in_network [OF v4_h this] show ?thesis by simp
qed

text \<open>The search starts above the address written in the CIDR, not at the start of the
  network. Where that address is the last one of its block (every \<open>/32\<close>, or
  \<open>10.0.0.255/24\<close>) the pool is exhausted although nothing is allocated, while the comment
  promises the first unallocated address of the CIDR.\<close>

lemma FirstFreeHost_ignores_lower_addresses:
  assumes "length p = 4" and "n \<le> 32" and "v4_pool_end p n = Suc (ip_val p)"
  shows "FirstFreeHost (v4_cidr p n) A [] = Some (Inl ErrAddressPoolExhausted)"
  by (simp add: FirstFreeHost_find [OF assms(1,2)] assms(3) pool_result_def)

lemma FirstFreeHost_ignores_lower_addresses_witness:
  "FirstFreeHost (v4_cidr [10, 0, 0, 255] 24) [] [] = Some (Inl ErrAddressPoolExhausted)"
  by (rule FirstFreeHost_ignores_lower_addresses) (simp_all add: v4_pool_end_def)

end
