(* ===== verification/Api.thy ===== *)
theory Api
  imports GoNet
begin

text \<open>
  The data of the operator: the custom resource of \<open>api/v1alpha1/overlaynetwork_types.go\<close>
  and the fields of the Kubernetes objects (metadata, pods) that the code reads or writes.
  Timestamps are only compared with \<open>nil\<close>, so a \<open>*metav1.Time\<close> is a \<open>string option\<close>.
  A Go \<open>int\<close> that comes from JSON and is only compared is an \<open>int\<close>.
\<close>

section \<open>Object metadata\<close>

record ObjectMeta =
  Name :: string
  Namespace :: string
  ResourceVersion :: string
  DeletionTimestamp :: "string option"
  Finalizers :: "string list"
  Labels :: "(string, string) go_map"
  Annotations :: "(string, string) go_map"

section \<open>The OverlayNetwork resource\<close>

record OverlayNetworkIPAllocation =
  PodName :: string
  PodIP :: string
  IP :: string
  ExtraNetworks :: "string list"

record OverlayNetworkExtraRoute =
  er_Name :: string
  er_RoutableCIDRs :: "string list"

record OverlayNetworkSpec =
  AllocatableCIDR :: string
  Port :: int
  RoutableCIDRs :: "string list"
  OptionalRoutes :: "OverlayNetworkExtraRoute list"
  ServiceNames :: "string list"

text \<open>\<open>OptionalRouters\<close> is a map that may be \<open>nil\<close> (\<open>None\<close>): a write to it then panics.\<close>

record OverlayNetworkStatus =
  Allocations :: "OverlayNetworkIPAllocation list"
  Routers :: "OverlayNetworkIPAllocation list"
  OptionalRouters :: "(string, OverlayNetworkIPAllocation list) go_map option"

record OverlayNetwork =
  nw_meta :: ObjectMeta
  nw_Spec :: OverlayNetworkSpec
  nw_Status :: OverlayNetworkStatus

section \<open>Pods\<close>

record VolumeMount =
  vm_Name :: string
  vm_MountPath :: string
  vm_ReadOnly :: bool

record EnvVar =
  env_Name :: string
  env_FieldPath :: string

record Probe =
  InitialDelaySeconds :: int
  PeriodSeconds :: int
  TimeoutSeconds :: int
  SuccessThreshold :: int
  FailureThreshold :: int
  HTTPGet_Port :: int
  HTTPGet_Path :: string

record Container =
  c_Name :: string
  c_Image :: string
  c_ImagePullPolicy :: string
  c_Env :: "EnvVar list"
  c_Capabilities_Add :: "string list"
  c_ReadinessProbe :: "Probe option"
  c_LivenessProbe :: "Probe option"
  c_VolumeMounts :: "VolumeMount list"

datatype VolumeProjection =
    SecretProjection string "(string \<times> string) list" \<comment> \<open>name, key/path items\<close>
  | ConfigMapProjection string "(string \<times> string) list"
  | DownwardAPIProjection "(string \<times> string \<times> string) list" \<comment> \<open>path, API version, field path\<close>

datatype VolumeSource =
    HostPath string
  | Projected "VolumeProjection list"
  | OtherVolumeSource string \<comment> \<open>the kinds of volume the code never looks into\<close>

record Volume =
  v_Name :: string
  v_Source :: VolumeSource

record Pod =
  pod_meta :: ObjectMeta
  Containers :: "Container list"
  Volumes :: "Volume list"
  status_PodIP :: string

section \<open>Names in annotations and finalizers\<close>

definition POD_NETWORK_MEMBER_ANNOTATION :: string where
  "POD_NETWORK_MEMBER_ANNOTATION = ''network.deinstapel.de/member-of''"

definition POD_NETWORK_ROUTER_ANNOTATION :: string where
  "POD_NETWORK_ROUTER_ANNOTATION = ''network.deinstapel.de/router-for''"

definition POD_NETWORK_EXTRA_ROUTER_ANNOTATION :: string where
  "POD_NETWORK_EXTRA_ROUTER_ANNOTATION = ''network.deinstapel.de/extra-router''"

definition POD_NETWORK_EXTRA_ROUTE_ANNOTATION :: string where
  "POD_NETWORK_EXTRA_ROUTE_ANNOTATION = ''network.deinstapel.de/extra-routes''"

definition POD_IP_ANNOTATION :: string where
  "POD_IP_ANNOTATION = ''network.deinstapel.de/request-ip''"

definition POD_FINALIZER :: string where
  "POD_FINALIZER = ''network.deinstapel.de/ipam''"

definition POD_OVERLAY_LABEL :: string where
  "POD_OVERLAY_LABEL = ''network.deinstapel.de/inject-sidecar''"

definition OVERLAY_NETWORK_FINALIZER :: string where
  "OVERLAY_NETWORK_FINALIZER = ''network.deinstapel.de/network-in-use''"

definition OVELRAY_NETWORK_SERVICE_ACCOUNT :: string where
  "OVELRAY_NETWORK_SERVICE_ACCOUNT = ''overlay-network-sidecar''"

lemmas name_defs =
  POD_NETWORK_MEMBER_ANNOTATION_def POD_NETWORK_ROUTER_ANNOTATION_def
  POD_NETWORK_EXTRA_ROUTER_ANNOTATION_def POD_NETWORK_EXTRA_ROUTE_ANNOTATION_def
  POD_IP_ANNOTATION_def POD_FINALIZER_def POD_OVERLAY_LABEL_def
  OVERLAY_NETWORK_FINALIZER_def OVELRAY_NETWORK_SERVICE_ACCOUNT_def

end
