(* ===== verification/External.thy ===== *)
theory External
  imports Api
begin

text \<open>
  The code the operator calls but does not contain, as parameters of the model.

  \<^item> \<open>github.com/samber/lo\<close>: generic slice helpers. \<open>'a lo_slice\<close> is the package at element
    type \<open>'a\<close>; \<open>lo_slice_ok\<close> states what its documentation promises, and \<open>lo_std\<close> is an
    implementation for which that holds.
  \<^item> \<open>controllerutil\<close> of controller-runtime: the finalizer helpers.
  \<^item> the Kubernetes client: every call gets the state \<open>'s\<close> of the outside world and returns a
    new one, so the API server and the other actors may do anything between two calls.
    Nothing is assumed of it. Each write is also recorded in the ghost field \<open>requests\<close>, so a
    theorem can speak of what a reconciler asked the API server to do.
\<close>

section \<open>Package lo\<close>

record 'a lo_slice =
  lo_Filter :: "'a list \<Rightarrow> ('a \<Rightarrow> int \<Rightarrow> bool) \<Rightarrow> 'a list"
  lo_Find :: "'a list \<Rightarrow> ('a \<Rightarrow> bool) \<Rightarrow> 'a option"
  lo_FindIndexOf :: "'a list \<Rightarrow> ('a \<Rightarrow> bool) \<Rightarrow> ('a \<times> nat) option"
  lo_ContainsBy :: "'a list \<Rightarrow> ('a \<Rightarrow> bool) \<Rightarrow> bool"
  lo_Contains :: "'a list \<Rightarrow> 'a \<Rightarrow> bool"
  lo_Uniq :: "'a list \<Rightarrow> 'a list"

definition first_index :: "'a list \<Rightarrow> ('a \<Rightarrow> bool) \<Rightarrow> nat \<Rightarrow> bool" where
  "first_index xs p i \<longleftrightarrow> i < length xs \<and> p (xs ! i) \<and> (\<forall>j < i. \<not> p (xs ! j))"

definition lo_slice_ok :: "'a lo_slice \<Rightarrow> bool" where
  "lo_slice_ok L \<longleftrightarrow>
     (\<forall>xs p. lo_Filter L xs (\<lambda>x _. p x) = filter p xs) \<and>
     (\<forall>xs p. lo_Find L xs p = find p xs) \<and>
     (\<forall>xs p. lo_FindIndexOf L xs p = None \<longleftrightarrow> (\<forall>x \<in> set xs. \<not> p x)) \<and>
     (\<forall>xs p x i. lo_FindIndexOf L xs p = Some (x, i) \<longrightarrow> x = xs ! i \<and> first_index xs p i) \<and>
     (\<forall>xs p. lo_ContainsBy L xs p \<longleftrightarrow> (\<exists>x \<in> set xs. p x)) \<and>
     (\<forall>xs x. lo_Contains L xs x \<longleftrightarrow> x \<in> set xs) \<and>
     (\<forall>xs. set (lo_Uniq L xs) = set xs \<and> distinct (lo_Uniq L xs))"

fun filter_index :: "int \<Rightarrow> 'a list \<Rightarrow> ('a \<Rightarrow> int \<Rightarrow> bool) \<Rightarrow> 'a list" where
  "filter_index i [] p = []"
| "filter_index i (x # xs) p =
     (if p x i then x # filter_index (i + 1) xs p else filter_index (i + 1) xs p)"

fun find_index_of :: "nat \<Rightarrow> 'a list \<Rightarrow> ('a \<Rightarrow> bool) \<Rightarrow> ('a \<times> nat) option" where
  "find_index_of i [] p = None"
| "find_index_of i (x # xs) p = (if p x then Some (x, i) else find_index_of (Suc i) xs p)"

definition lo_std :: "'a lo_slice" where
  "lo_std = \<lparr>lo_Filter = filter_index 0, lo_Find = (\<lambda>xs p. find p xs),
     lo_FindIndexOf = find_index_of 0, lo_ContainsBy = (\<lambda>xs p. list_ex p xs),
     lo_Contains = (\<lambda>xs x. x \<in> set xs), lo_Uniq = (\<lambda>xs. rev (remdups (rev xs)))\<rparr>"

lemma filter_index_const: "filter_index i xs (\<lambda>x _. p x) = filter p xs"
  by (induction xs arbitrary: i) auto

lemma find_index_of_None: "find_index_of i xs p = None \<longleftrightarrow> (\<forall>x \<in> set xs. \<not> p x)"
  by (induction xs arbitrary: i) auto

lemma find_index_of_Some:
  "find_index_of i xs p = Some (x, k) \<Longrightarrow> i \<le> k \<and> x = xs ! (k - i) \<and> first_index xs p (k - i)"
proof (induction xs arbitrary: i)
  case (Cons y ys)
  show ?case
  proof (cases "p y")
    case True
    with Cons.prems show ?thesis by (auto simp: first_index_def)
  next
    case False
    with Cons have IH: "Suc i \<le> k" "x = ys ! (k - Suc i)" "first_index ys p (k - Suc i)" by auto
    then obtain m where "k = Suc i + m" using le_iff_add by blast
    with IH False show ?thesis
      by (auto simp: first_index_def nth_Cons split: nat.splits)
  qed
qed simp

lemma lo_std_ok [simp]: "lo_slice_ok lo_std"
  by (auto simp: lo_slice_ok_def lo_std_def filter_index_const find_index_of_None list_ex_iff
      dest: find_index_of_Some)

lemma lo_slice_okD:
  assumes "lo_slice_ok L"
  shows "lo_Filter L xs (\<lambda>x _. p x) = filter p xs"
    and "lo_Find L xs p = find p xs"
    and "lo_ContainsBy L xs p \<longleftrightarrow> (\<exists>x \<in> set xs. p x)"
    and "lo_Contains L xs x \<longleftrightarrow> x \<in> set xs"
    and "set (lo_Uniq L xs) = set xs"
    and "distinct (lo_Uniq L xs)"
    and "lo_FindIndexOf L xs p = None \<longleftrightarrow> (\<forall>x \<in> set xs. \<not> p x)"
  using assms by (auto simp: lo_slice_ok_def)

lemma lo_FindIndexOf_SomeD:
  assumes "lo_slice_ok L" and "lo_FindIndexOf L xs p = Some (x, i)"
  shows "x = xs ! i" "i < length xs" "p x" "\<And>j. j < i \<Longrightarrow> \<not> p (xs ! j)"
proof -
  have "x = xs ! i \<and> first_index xs p i" using assms by (simp add: lo_slice_ok_def)
  then show "x = xs ! i" "i < length xs" "p x" "\<And>j. j < i \<Longrightarrow> \<not> p (xs ! j)"
    by (auto simp: first_index_def)
qed

text \<open>The package as the pod controller uses it.\<close>

record lo_pkg =
  lo_str :: "string lo_slice"
  lo_alloc :: "OverlayNetworkIPAllocation lo_slice"
  lo_bool :: "bool lo_slice"
  lo_Map :: "string list \<Rightarrow> (string \<Rightarrow> int \<Rightarrow> string) \<Rightarrow> string list"
  lo_SliceToMap :: "string list \<Rightarrow> (string \<Rightarrow> string \<times> bool) \<Rightarrow> (string, bool) go_map"
  lo_MapToSlice :: "(string, bool) go_map \<Rightarrow> (string \<Rightarrow> bool \<Rightarrow> bool) \<Rightarrow> bool list"

definition lo_pkg_ok :: "lo_pkg \<Rightarrow> bool" where
  "lo_pkg_ok L \<longleftrightarrow> lo_slice_ok (lo_str L) \<and> lo_slice_ok (lo_alloc L) \<and> lo_slice_ok (lo_bool L) \<and>
     (\<forall>xs f. lo_Map L xs (\<lambda>x _. f x) = map f xs) \<and>
     (\<forall>xs f. gm_ok (lo_SliceToMap L xs f) \<and> map_of (lo_SliceToMap L xs f) = map_of (rev (map f xs))) \<and>
     (\<forall>m f. gm_ok m \<longrightarrow> set (lo_MapToSlice L m f) = (\<lambda>(k, v). f k v) ` set m)"

definition lo_pkg_std :: lo_pkg where
  "lo_pkg_std = \<lparr>lo_str = lo_std, lo_alloc = lo_std, lo_bool = lo_std,
     lo_Map = (\<lambda>xs f. map2 f xs (map int [0..<length xs])),
     lo_SliceToMap = (\<lambda>xs f. fold (\<lambda>x m. gm_put m (fst (f x)) (snd (f x))) xs []),
     lo_MapToSlice = (\<lambda>m f. map (\<lambda>(k, v). f k v) m)\<rparr>"

lemma map2_const: "length ys = length xs \<Longrightarrow> map2 (\<lambda>x _. f x) xs ys = map f xs"
  by (induction xs ys rule: list_induct2') auto

lemma fold_gm_put:
  "gm_ok m \<Longrightarrow> gm_ok (fold (\<lambda>x m. gm_put m (fst (f x)) (snd (f x))) xs m) \<and>
   map_of (fold (\<lambda>x m. gm_put m (fst (f x)) (snd (f x))) xs m) = map_of (rev (map f xs) @ m)"
proof (induction xs arbitrary: m)
  case (Cons x xs)
  then show ?case by (cases "f x") (simp add: map_add_assoc)
qed simp

lemma lo_pkg_std_ok [simp]: "lo_pkg_ok lo_pkg_std"
  using fold_gm_put [of "[]"]
  by (auto simp: lo_pkg_ok_def lo_pkg_std_def map2_const)

section \<open>Finalizers\<close>

record finalizer_util =
  fu_Contains :: "string list \<Rightarrow> string \<Rightarrow> bool"
  fu_Add :: "string list \<Rightarrow> string \<Rightarrow> bool \<times> string list"
  fu_Remove :: "string list \<Rightarrow> string \<Rightarrow> bool \<times> string list"

definition finalizer_util_ok :: "finalizer_util \<Rightarrow> bool" where
  "finalizer_util_ok F \<longleftrightarrow>
     (\<forall>fs f. fu_Contains F fs f \<longleftrightarrow> f \<in> set fs) \<and>
     (\<forall>fs f. fu_Add F fs f = (if f \<in> set fs then (False, fs) else (True, fs @ [f]))) \<and>
     (\<forall>fs f. fu_Remove F fs f = (f \<in> set fs, filter (\<lambda>g. g \<noteq> f) fs))"

definition finalizer_util_std :: finalizer_util where
  "finalizer_util_std = \<lparr>fu_Contains = (\<lambda>fs f. f \<in> set fs),
     fu_Add = (\<lambda>fs f. if f \<in> set fs then (False, fs) else (True, fs @ [f])),
     fu_Remove = (\<lambda>fs f. (f \<in> set fs, filter (\<lambda>g. g \<noteq> f) fs))\<rparr>"

lemma finalizer_util_std_ok [simp]: "finalizer_util_ok finalizer_util_std"
  by (auto simp: finalizer_util_ok_def finalizer_util_std_def)

section \<open>The Kubernetes client\<close>

text \<open>API errors by the reason that \<open>errors.IsNotFound\<close> and \<open>errors.IsAlreadyExists\<close> test.\<close>

datatype api_error = NotFound | AlreadyExists | Conflict | OtherError string

definition IsNotFound :: "api_error \<Rightarrow> bool" where
  "IsNotFound e = (e = NotFound)"

definition IsAlreadyExists :: "api_error \<Rightarrow> bool" where
  "IsAlreadyExists e = (e = AlreadyExists)"

record ServiceAccount =
  sa_Name :: string
  sa_Namespace :: string
  sa_Secrets :: "string list"

record Secret =
  sec_Name :: string
  sec_Namespace :: string
  sec_Type :: string
  sec_Annotations :: "(string, string) go_map"

record RoleBinding =
  rb_Name :: string
  rb_Namespace :: string
  rb_Subjects :: "(string \<times> string \<times> string \<times> string) list" \<comment> \<open>kind, API group, namespace, name\<close>
  rb_RoleRef :: "string \<times> string \<times> string" \<comment> \<open>API group, kind, name\<close>

datatype request =
    UpdatePod Pod
  | UpdateNetwork OverlayNetwork
  | UpdateNetworkStatus OverlayNetwork
  | CreateServiceAccount ServiceAccount
  | CreateSecret Secret
  | CreateRoleBinding RoleBinding

record 's world =
  env :: 's
  requests :: "request list"

record 's kube =
  kGetPod :: "string \<Rightarrow> string \<Rightarrow> 's \<Rightarrow> (api_error + Pod) \<times> 's"
  kGetNetwork :: "string \<Rightarrow> string \<Rightarrow> 's \<Rightarrow> (api_error + OverlayNetwork) \<times> 's"
  kGetServiceAccount :: "string \<Rightarrow> string \<Rightarrow> 's \<Rightarrow> (api_error + ServiceAccount) \<times> 's"
  kGetSecret :: "string \<Rightarrow> string \<Rightarrow> 's \<Rightarrow> (api_error + Secret) \<times> 's"
  kGetRoleBinding :: "string \<Rightarrow> string \<Rightarrow> 's \<Rightarrow> (api_error + RoleBinding) \<times> 's"
  kListNetworks :: "string \<Rightarrow> 's \<Rightarrow> (api_error + OverlayNetwork list) \<times> 's"
  kWrite :: "request \<Rightarrow> 's \<Rightarrow> api_error option \<times> 's"

definition read_env :: "('s \<Rightarrow> 'a \<times> 's) \<Rightarrow> 's world \<Rightarrow> 'a \<times> 's world" where
  "read_env f w = (case f (env w) of (a, s) \<Rightarrow> (a, w\<lparr>env := s\<rparr>))"

definition write_api :: "'s kube \<Rightarrow> request \<Rightarrow> 's world \<Rightarrow> api_error option \<times> 's world" where
  "write_api K q w =
     (case kWrite K q (env w) of (e, s) \<Rightarrow> (e, \<lparr>env = s, requests = requests w @ [q]\<rparr>))"

lemma requests_read_env [frame_simps]: "read_env f w = (a, w') \<Longrightarrow> requests w' = requests w"
  by (auto simp: read_env_def split: prod.splits)

lemma requests_write_api [frame_simps]: "write_api K q w = (e, w') \<Longrightarrow> requests w' = requests w @ [q]"
  by (auto simp: write_api_def split: prod.splits)

text \<open>What a \<open>Reconcile\<close> returns: \<open>ctrl.Result{Requeue: b}, nil\<close>, or an error.\<close>

datatype ctrl_result = Done bool | Failed api_error

abbreviation "finished \<equiv> Done False"
abbreviation "requeue \<equiv> Done True"

end
