(* ===== verification/PodController.thy ===== *)
theory PodController
  imports IPUtil External
begin

text \<open>
  The pod reconciler (\<open>controllers/pod_controller.go\<close>), which assigns overlay addresses to
  pods and takes them back. \<open>allocateIP\<close> and \<open>deallocateIP\<close> are split into the computation
  of the new network object (\<open>allocate_status\<close>, \<open>deallocate_status\<close>, the statements up to
  the status update) and the status update itself; \<open>Reconcile\<close> threads the world through
  the listed networks in order, as the source's loop does.
\<close>

section \<open>allocateIP\<close>

datatype pod_error =
    NoPrimaryIP
  | NetworkDeleting
  | RequestOutsideCIDR
  | PickFailed alloc_error
  | StatusUpdateFailed api_error

abbreviation pod_name :: "Pod \<Rightarrow> string" where
  "pod_name pod \<equiv> Name (pod_meta pod)"

abbreviation nw_name :: "OverlayNetwork \<Rightarrow> string" where
  "nw_name nw \<equiv> Name (nw_meta nw)"

abbreviation nw_allocs :: "OverlayNetwork \<Rightarrow> OverlayNetworkIPAllocation list" where
  "nw_allocs nw \<equiv> Allocations (nw_Status nw)"

abbreviation nw_routers :: "OverlayNetwork \<Rightarrow> OverlayNetworkIPAllocation list" where
  "nw_routers nw \<equiv> Routers (nw_Status nw)"

abbreviation nw_optional :: "OverlayNetwork \<Rightarrow> (string, OverlayNetworkIPAllocation list) go_map option" where
  "nw_optional nw \<equiv> OptionalRouters (nw_Status nw)"

definition allocation_map :: "OverlayNetworkIPAllocation list \<Rightarrow> (string, bool) go_map" where
  "allocation_map as = fold (\<lambda>a m. gm_put m (IP a) True) as []"

definition requested_ip :: "lo_pkg \<Rightarrow> OverlayNetwork \<Rightarrow> Pod \<Rightarrow> ip" where
  "requested_ip L nw pod =
     (case map_of (Annotations (pod_meta pod)) POD_IP_ANNOTATION of
       None \<Rightarrow> []
     | Some requestIp \<Rightarrow>
        (let nwPrefix = nw_name nw @ ''/'';
             reqs = lo_Filter (lo_str L) (strings_Split requestIp CHR '','')
                      (\<lambda>i _. strings_HasPrefix i nwPrefix)
         in (case reqs of [] \<Rightarrow> [] | r # _ \<Rightarrow> ParseIP (strings_TrimPrefix r nwPrefix))))"

definition new_allocation ::
  "lo_pkg \<Rightarrow> OverlayNetwork \<Rightarrow> Pod \<Rightarrow> string list \<Rightarrow> (pod_error + OverlayNetworkIPAllocation) outcome" where
  "new_allocation L nw pod extraNetworks =
     (if DeletionTimestamp (nw_meta nw) \<noteq> None then Returns (Inl NetworkDeleting)
      else let allocationMap = allocation_map (nw_allocs nw);
               requestedIp = requested_ip L nw pod;
               cidrText = AllocatableCIDR (nw_Spec nw)
           in (case ParseCIDR cidrText of
                None \<Rightarrow> Returns (Inl (PickFailed (ErrInvalidCIDR cidrText)))
              | Some (_, cidr) \<Rightarrow>
                  if requestedIp \<noteq> [] \<and> \<not> Contains cidr requestedIp
                  then Returns (Inl RequestOutsideCIDR)
                  else bind_outcome (of_partial (FirstFreeHost cidrText allocationMap requestedIp))
                    (\<lambda>r. case r of
                        Inl e \<Rightarrow> Returns (Inl (PickFailed e))
                      | Inr ipAlloc \<Rightarrow> Returns (Inr
                          \<lparr>PodName = pod_name pod, PodIP = status_PodIP pod, IP = ipAlloc,
                           ExtraNetworks = extraNetworks\<rparr>))))"

definition with_allocs :: "OverlayNetwork \<Rightarrow> OverlayNetworkIPAllocation list \<Rightarrow> OverlayNetwork" where
  "with_allocs nw as = nw\<lparr>nw_Status := (nw_Status nw)\<lparr>Allocations := as\<rparr>\<rparr>"

text \<open>The allocation of the pod, found or made, and the network that records it.\<close>

definition ensure_allocation ::
  "lo_pkg \<Rightarrow> OverlayNetwork \<Rightarrow> Pod \<Rightarrow> string list \<Rightarrow>
   (pod_error + OverlayNetworkIPAllocation \<times> OverlayNetwork) outcome" where
  "ensure_allocation L nw pod extraNetworks =
     (case lo_FindIndexOf (lo_alloc L) (nw_allocs nw) (\<lambda>item. pod_name pod = PodName item) of
       None \<Rightarrow>
         bind_outcome (new_allocation L nw pod extraNetworks)
           (\<lambda>r. case r of
               Inl e \<Rightarrow> Returns (Inl e)
             | Inr a \<Rightarrow> Returns (Inr (a, with_allocs nw (nw_allocs nw @ [a]))))
     | Some (allocFromList, allocIndex) \<Rightarrow>
         let a = allocFromList\<lparr>ExtraNetworks := extraNetworks\<rparr>
         in if allocIndex < length (nw_allocs nw)
            then Returns (Inr (a, with_allocs nw ((nw_allocs nw)[allocIndex := a])))
            else Panics)"

text \<open>Recording the pod as an optional router; a write to a \<open>nil\<close> map panics.\<close>

fun add_optional ::
  "lo_pkg \<Rightarrow> OverlayNetworkIPAllocation \<Rightarrow> string list \<Rightarrow>
   (string, OverlayNetworkIPAllocation list) go_map option \<Rightarrow>
   (string, OverlayNetworkIPAllocation list) go_map option outcome" where
  "add_optional L a [] m = Returns m"
| "add_optional L a (r # rs) m =
     (let cur = (case m of None \<Rightarrow> [] | Some m \<Rightarrow> gm_get m r [])
      in if \<not> lo_ContainsBy (lo_alloc L) cur (\<lambda>b. PodName b = PodName a)
         then (case m of None \<Rightarrow> Panics | Some m \<Rightarrow> add_optional L a rs (Some (gm_put m r (cur @ [a]))))
         else add_optional L a rs m)"

definition without_pod ::
  "lo_pkg \<Rightarrow> string \<Rightarrow> OverlayNetworkIPAllocation list \<Rightarrow> OverlayNetworkIPAllocation list" where
  "without_pod L p xs = lo_Filter (lo_alloc L) xs (\<lambda>n _. PodName n \<noteq> p)"

definition prune_optional ::
  "lo_pkg \<Rightarrow> string \<Rightarrow> string list \<Rightarrow> (string, OverlayNetworkIPAllocation list) go_map option \<Rightarrow>
   (string, OverlayNetworkIPAllocation list) go_map option" where
  "prune_optional L p extraRouters m =
     map_option (map (\<lambda>(rtName, v).
       (rtName, if lo_Contains (lo_str L) extraRouters rtName then v else without_pod L p v))) m"

definition update_routers ::
  "lo_pkg \<Rightarrow> string \<Rightarrow> bool \<Rightarrow> OverlayNetworkIPAllocation \<Rightarrow> OverlayNetworkIPAllocation list \<Rightarrow>
   OverlayNetworkIPAllocation list" where
  "update_routers L p isRouter a routers =
     (if isRouter then
        (if \<not> lo_ContainsBy (lo_alloc L) routers (\<lambda>n. PodName n = p) then routers @ [a] else routers)
      else without_pod L p routers)"

definition allocate_status ::
  "lo_pkg \<Rightarrow> OverlayNetwork \<Rightarrow> Pod \<Rightarrow> bool \<Rightarrow> string list \<Rightarrow> string list \<Rightarrow>
   (pod_error + OverlayNetwork) outcome" where
  "allocate_status L nw pod isRouter extraNetworks extraRouters =
     (if status_PodIP pod = '''' then Returns (Inl NoPrimaryIP)
      else bind_outcome (ensure_allocation L nw pod extraNetworks)
        (\<lambda>r. case r of
            Inl e \<Rightarrow> Returns (Inl e)
          | Inr (allocation, nw) \<Rightarrow>
              bind_outcome (add_optional L allocation extraRouters (nw_optional nw))
                (\<lambda>m. Returns (Inr (nw\<lparr>nw_Status := (nw_Status nw)\<lparr>
                    OptionalRouters := prune_optional L (pod_name pod) extraRouters m,
                    Routers := update_routers L (pod_name pod) isRouter allocation (nw_routers nw)\<rparr>\<rparr>)))))"

text \<open>The status update at the end of both operations; a network that is gone is no error.\<close>

definition push_status ::
  "'s kube \<Rightarrow> OverlayNetwork \<Rightarrow> 's world \<Rightarrow> pod_error option \<times> 's world" where
  "push_status K nw w =
     (case write_api K (UpdateNetworkStatus nw) w of
       (None, w) \<Rightarrow> (None, w)
     | (Some e, w) \<Rightarrow> (if \<not> IsNotFound e then Some (StatusUpdateFailed e) else None, w))"

definition allocateIP ::
  "lo_pkg \<Rightarrow> 's kube \<Rightarrow> OverlayNetwork \<Rightarrow> Pod \<Rightarrow> bool \<Rightarrow> string list \<Rightarrow> string list \<Rightarrow> 's world \<Rightarrow>
   (pod_error option \<times> 's world) outcome" where
  "allocateIP L K nw pod isRouter extraNetworks extraRouters w =
     bind_outcome (allocate_status L nw pod isRouter extraNetworks extraRouters)
       (\<lambda>r. case r of
           Inl e \<Rightarrow> Returns (Some e, w)
         | Inr nw \<Rightarrow> Returns (push_status K nw w))"

section \<open>deallocateIP\<close>

definition deallocate_status :: "lo_pkg \<Rightarrow> OverlayNetwork \<Rightarrow> Pod \<Rightarrow> OverlayNetwork" where
  "deallocate_status L nw pod = nw\<lparr>nw_Status := (nw_Status nw)\<lparr>
     Allocations := without_pod L (pod_name pod) (nw_allocs nw),
     Routers := without_pod L (pod_name pod) (nw_routers nw),
     OptionalRouters := map_option
       (map (\<lambda>(rtName, v). (rtName, without_pod L (pod_name pod) v))) (nw_optional nw)\<rparr>\<rparr>"

definition deallocateIP ::
  "lo_pkg \<Rightarrow> 's kube \<Rightarrow> OverlayNetwork \<Rightarrow> Pod \<Rightarrow> 's world \<Rightarrow> pod_error option \<times> 's world" where
  "deallocateIP L K nw pod w = push_status K (deallocate_status L nw pod) w"

section \<open>Reconcile\<close>

definition annotation_list :: "lo_pkg \<Rightarrow> Pod \<Rightarrow> string \<Rightarrow> string list" where
  "annotation_list L pod key =
     lo_Filter (lo_str L) (strings_Split (gm_get (Annotations (pod_meta pod)) key '''') CHR '','')
       (\<lambda>s _. s \<noteq> '''')"

definition names_for :: "lo_pkg \<Rightarrow> OverlayNetwork \<Rightarrow> string list \<Rightarrow> string list" where
  "names_for L nw xs =
     (let extraRoutersPrefix = nw_name nw @ ''/''
      in lo_Map L (lo_Filter (lo_str L) xs (\<lambda>s _. strings_HasPrefix s extraRoutersPrefix))
           (\<lambda>s _. strings_TrimPrefix s extraRoutersPrefix))"

text \<open>Null safety: a \<open>nil\<close> map of optional routers is replaced by an empty one.\<close>

definition init_optional :: "OverlayNetwork \<Rightarrow> OverlayNetwork" where
  "init_optional nw =
     (if nw_optional nw = None then nw\<lparr>nw_Status := (nw_Status nw)\<lparr>OptionalRouters := Some []\<rparr>\<rparr> else nw)"

fun process_networks ::
  "lo_pkg \<Rightarrow> 's kube \<Rightarrow> Pod \<Rightarrow> (string, bool) go_map \<Rightarrow> string list \<Rightarrow> string list \<Rightarrow>
   OverlayNetwork list \<Rightarrow> (string, bool) go_map \<Rightarrow> bool \<Rightarrow> 's world \<Rightarrow>
   ((string, bool) go_map \<times> bool \<times> 's world) outcome" where
  "process_networks L K pod routerNetworks extraRoutes extraRouters [] uniq hasErrors w =
     Returns (uniq, hasErrors, w)"
| "process_networks L K pod routerNetworks extraRoutes extraRouters (item # items) uniq hasErrors w =
     (let nw = init_optional item;
          isRouter = gm_has routerNetworks (nw_name nw)
      in if gm_has uniq (nw_name nw) then
           bind_outcome (allocateIP L K nw pod isRouter (names_for L nw extraRoutes) (names_for L nw extraRouters) w)
             (\<lambda>(err, w). if err \<noteq> None
               then process_networks L K pod routerNetworks extraRoutes extraRouters items uniq True w
               else process_networks L K pod routerNetworks extraRoutes extraRouters items
                      (gm_put uniq (nw_name nw) True) hasErrors w)
         else (case deallocateIP L K nw pod w of (err, w) \<Rightarrow>
           process_networks L K pod routerNetworks extraRoutes extraRouters items uniq
             (if err \<noteq> None then True else hasErrors) w))"

text \<open>Removing the pod's finalizer, and the decision to requeue.\<close>

definition finish_reconcile ::
  "lo_pkg \<Rightarrow> finalizer_util \<Rightarrow> 's kube \<Rightarrow> Pod \<Rightarrow> bool \<Rightarrow> (string, bool) go_map \<Rightarrow> bool \<Rightarrow> 's world \<Rightarrow>
   ctrl_result \<times> 's world" where
  "finish_reconcile L F K pod shouldRemoveFinalizer uniq hasErrors w =
     (let (hasErrors, w) =
        (if shouldRemoveFinalizer \<and> \<not> hasErrors then
           (case fu_Remove F (Finalizers (pod_meta pod)) POD_FINALIZER of
              (True, fs) \<Rightarrow>
                (case write_api K (UpdatePod (pod\<lparr>pod_meta := (pod_meta pod)\<lparr>Finalizers := fs\<rparr>\<rparr>)) w of
                   (None, w) \<Rightarrow> (hasErrors, w)
                 | (Some _, w) \<Rightarrow> (True, w))
            | (False, _) \<Rightarrow> (hasErrors, w))
         else (hasErrors, w));
        anyNetworkUnprocessed = lo_Contains (lo_bool L) (lo_MapToSlice L uniq (\<lambda>_ v. v)) False
      in (if hasErrors \<or> anyNetworkUnprocessed then requeue else finished, w))"

definition reconcile_pod ::
  "lo_pkg \<Rightarrow> finalizer_util \<Rightarrow> 's kube \<Rightarrow> string \<Rightarrow> string \<Rightarrow> 's world \<Rightarrow> (ctrl_result \<times> 's world) outcome" where
  "reconcile_pod L F K ns name w =
     (case read_env (kGetPod K ns name) w of
       (Inl err, w) \<Rightarrow> Returns (if IsNotFound err then finished else Failed err, w)
     | (Inr pod, w) \<Rightarrow>
         (if \<not> gm_has (Labels (pod_meta pod)) POD_OVERLAY_LABEL
             \<or> gm_get (Labels (pod_meta pod)) POD_OVERLAY_LABEL '''' \<noteq> ''true''
          then Returns (finished, w)
          else let
            memberNetworksList = annotation_list L pod POD_NETWORK_MEMBER_ANNOTATION;
            routerNetworksList = annotation_list L pod POD_NETWORK_ROUTER_ANNOTATION;
            extraRoutersList = annotation_list L pod POD_NETWORK_EXTRA_ROUTER_ANNOTATION;
            extraRoutesList = annotation_list L pod POD_NETWORK_EXTRA_ROUTE_ANNOTATION;
            allNetworkList = lo_Uniq (lo_str L) (memberNetworksList @ routerNetworksList);
            uniqueNetworks = lo_SliceToMap L (lo_Uniq (lo_str L) allNetworkList) (\<lambda>nw. (nw, False));
            routerNetworks = lo_SliceToMap L (lo_Uniq (lo_str L) routerNetworksList) (\<lambda>nw. (nw, False))
          in (case read_env (kListNetworks K (Namespace (pod_meta pod))) w of
               (Inl err, w) \<Rightarrow> Returns (Failed err, w)
             | (Inr items, w) \<Rightarrow>
                 let deleted = (DeletionTimestamp (pod_meta pod) \<noteq> None);
                     uniqueNetworks = (if deleted then [] else uniqueNetworks);
                     routerNetworks = (if deleted then [] else routerNetworks)
                 in bind_outcome
                      (process_networks L K pod routerNetworks extraRoutesList extraRoutersList
                         items uniqueNetworks False w)
                      (\<lambda>(uniq, hasErrors, w).
                         Returns (finish_reconcile L F K pod deleted uniq hasErrors w)))))"

end
