(* ===== verification/PodStatus.thy ===== *)
theory PodStatus
  imports PodController
begin

text \<open>
  What \<open>allocateIP\<close> and \<open>deallocateIP\<close> do to the status of a network: the well-formedness
  invariant \<open>status_ok\<close> (addresses and pods are unique, every router is a member) and its
  preservation, the membership they establish, what they leave alone, and idempotence.
\<close>

section \<open>Well-formed status\<close>

definition binding :: "OverlayNetworkIPAllocation \<Rightarrow> string \<times> string \<times> string" where
  "binding a = (PodName a, PodIP a, IP a)"

definition members_of :: "OverlayNetworkIPAllocation list \<Rightarrow> OverlayNetworkIPAllocation list \<Rightarrow> bool" where
  "members_of as xs \<longleftrightarrow> distinct (map PodName xs) \<and> binding ` set xs \<subseteq> binding ` set as"

definition status_ok :: "OverlayNetwork \<Rightarrow> bool" where
  "status_ok nw \<longleftrightarrow>
     distinct (map PodName (nw_allocs nw)) \<and> distinct (map IP (nw_allocs nw)) \<and>
     members_of (nw_allocs nw) (nw_routers nw) \<and>
     (case nw_optional nw of None \<Rightarrow> True
      | Some m \<Rightarrow> gm_ok m \<and> (\<forall>(k, v) \<in> set m. members_of (nw_allocs nw) v))"

abbreviation others :: "string \<Rightarrow> OverlayNetworkIPAllocation list \<Rightarrow> OverlayNetworkIPAllocation list" where
  "others p xs \<equiv> filter (\<lambda>a. PodName a \<noteq> p) xs"

lemma lo_pkg_okD:
  assumes "lo_pkg_ok L"
  shows "lo_slice_ok (lo_str L)" "lo_slice_ok (lo_alloc L)" "lo_slice_ok (lo_bool L)"
    "lo_Map L xs (\<lambda>x _. f x) = map f xs"
    "gm_ok (lo_SliceToMap L ys g)" "map_of (lo_SliceToMap L ys g) = map_of (rev (map g ys))"
    "gm_ok m \<Longrightarrow> set (lo_MapToSlice L m h) = (\<lambda>(k, v). h k v) ` set m"
  using assms by (simp_all add: lo_pkg_ok_def)

lemma without_pod_eq: "lo_pkg_ok L \<Longrightarrow> without_pod L p xs = others p xs"
  by (simp add: without_pod_def lo_slice_okD(1) [OF lo_pkg_okD(2)])

lemma prune_optional_eq:
  "lo_pkg_ok L \<Longrightarrow> prune_optional L p rs m =
     map_option (map (\<lambda>(k, v). (k, if k \<in> set rs then v else others p v))) m"
  by (cases m) (auto simp: prune_optional_def without_pod_eq lo_slice_okD(4) [OF lo_pkg_okD(1)])

lemma members_of_mono:
  "members_of as xs \<Longrightarrow> binding ` set as \<subseteq> binding ` set as' \<Longrightarrow> members_of as' xs"
  unfolding members_of_def by (meson subset_trans)

lemma members_of_filter: "members_of as xs \<Longrightarrow> members_of as (filter P xs)"
  by (auto simp: members_of_def distinct_map_filter)

lemma members_of_snoc:
  "members_of as xs \<Longrightarrow> binding a \<in> binding ` set as \<Longrightarrow> PodName a \<notin> PodName ` set xs \<Longrightarrow>
   members_of as (xs @ [a])"
  by (auto simp: members_of_def)

lemma members_of_others: "members_of as xs \<Longrightarrow> members_of (others p as) (others p xs)"
proof -
  assume m: "members_of as xs"
  have "binding x \<in> binding ` set (others p as)" if x: "x \<in> set (others p xs)" for x
  proof -
    from m x obtain a where "a \<in> set as" "binding a = binding x" by (force simp: members_of_def)
    with x show ?thesis by (intro image_eqI [of _ _ a]) (auto simp: binding_def)
  qed
  with m show ?thesis by (auto simp: members_of_def distinct_map_filter)
qed

lemma members_of_Nil [simp]: "members_of as []"
  by (simp add: members_of_def)

section \<open>The allocation of the pod\<close>

lemma with_allocs_simps [simp]:
  "nw_Status (with_allocs nw as) = (nw_Status nw)\<lparr>Allocations := as\<rparr>"
  "nw_meta (with_allocs nw as) = nw_meta nw" "nw_Spec (with_allocs nw as) = nw_Spec nw"
  by (simp_all add: with_allocs_def)

text \<open>The map of addresses in use marks exactly the allocated ones.\<close>

lemma allocation_map_get: "gm_get (allocation_map as) s False \<longleftrightarrow> s \<in> IP ` set as"
proof -
  have "gm_get (fold (\<lambda>a m. gm_put m (IP a) True) as m) s False \<longleftrightarrow> s \<in> IP ` set as \<or> gm_get m s False" for m
    by (induction as arbitrary: m) auto
  then show ?thesis by (simp add: allocation_map_def)
qed

lemma new_allocation_cases:
  obtains (Refused) e where "new_allocation L nw pod en = Returns (Inl e)"
  | (Granted) s where "new_allocation L nw pod en =
        Returns (Inr \<lparr>PodName = pod_name pod, PodIP = status_PodIP pod, IP = s, ExtraNetworks = en\<rparr>)"
      "DeletionTimestamp (nw_meta nw) = None" "s \<notin> IP ` set (nw_allocs nw)"
proof (cases "\<exists>e. new_allocation L nw pod en = Returns (Inl e)")
  case True
  then show thesis using Refused by blast
next
  case False
  show thesis
  proof (cases rule: first_free.pick_cases [of "AllocatableCIDR (nw_Spec nw)" "allocation_map (nw_allocs nw)" "requested_ip L nw pod"])
    case (refused e)
    with False show thesis
      by (simp add: new_allocation_def Let_def split: if_splits option.splits prod.splits)
  next
    case (granted s)
    with False show thesis
      by (intro Granted [of s])
        (auto simp: new_allocation_def allocation_map_get Let_def split: if_splits option.splits prod.splits)
  qed
qed

lemma ensure_allocation_cases:
  assumes "lo_pkg_ok L"
  obtains (Refused) e where "ensure_allocation L nw pod en = Returns (Inl e)"
      "new_allocation L nw pod en = Returns (Inl e)" "pod_name pod \<notin> PodName ` set (nw_allocs nw)"
  | (Found) a i where "ensure_allocation L nw pod en =
        Returns (Inr (a, with_allocs nw ((nw_allocs nw)[i := a])))"
      "i < length (nw_allocs nw)" "a = (nw_allocs nw ! i)\<lparr>ExtraNetworks := en\<rparr>" "PodName a = pod_name pod"
  | (Fresh) a where "ensure_allocation L nw pod en = Returns (Inr (a, with_allocs nw (nw_allocs nw @ [a])))"
      "PodName a = pod_name pod" "PodIP a = status_PodIP pod" "ExtraNetworks a = en"
      "IP a \<notin> IP ` set (nw_allocs nw)" "pod_name pod \<notin> PodName ` set (nw_allocs nw)"
      "DeletionTimestamp (nw_meta nw) = None"
proof -
  note lo = lo_pkg_okD(2) [OF assms]
  let ?p = "\<lambda>item. pod_name pod = PodName item"
  show thesis
  proof (cases "lo_FindIndexOf (lo_alloc L) (nw_allocs nw) ?p")
    case None
    then have absent: "pod_name pod \<notin> PodName ` set (nw_allocs nw)"
      using lo_slice_okD(7) [OF lo] by auto
    show thesis
    proof (cases rule: new_allocation_cases [of L nw pod en])
      case (Refused e)
      with None absent that(1) show thesis by (simp add: ensure_allocation_def)
    next
      case (Granted s)
      with None absent that(3) show thesis by (simp add: ensure_allocation_def)
    qed
  next
    case (Some r)
    then obtain b i where r: "r = (b, i)" by (cases r)
    note f = lo_FindIndexOf_SomeD [OF lo Some [unfolded r]]
    show thesis
      using Some f by (intro Found [of "b\<lparr>ExtraNetworks := en\<rparr>" i]) (simp_all add: r ensure_allocation_def Let_def)
  qed
qed

lemma others_snoc: "PodName a = p \<Longrightarrow> others p (xs @ [a]) = others p xs"
  by simp

lemma others_list_update: "PodName a = p \<Longrightarrow> PodName (xs ! i) = p \<Longrightarrow> others p (xs[i := a]) = others p xs"
  by (induction xs arbitrary: i) (auto split: nat.splits)

lemma ensure_allocation_result:
  assumes "lo_pkg_ok L" and "ensure_allocation L nw pod en = Returns (Inr (a, nw'))"
  obtains as where "nw' = with_allocs nw as" "a \<in> set as" "PodName a = pod_name pod" "ExtraNetworks a = en"
    "others (pod_name pod) as = others (pod_name pod) (nw_allocs nw)"
    "binding ` set (nw_allocs nw) \<subseteq> binding ` set as"
    "distinct (map PodName (nw_allocs nw)) \<Longrightarrow> distinct (map PodName as)"
    "distinct (map IP (nw_allocs nw)) \<Longrightarrow> distinct (map IP as)"
  using assms(1)
proof (cases rule: ensure_allocation_cases [of L nw pod en])
  case (Found b i)
  let ?xs = "nw_allocs nw"
  have b: "binding b = binding (?xs ! i)" "PodName b = PodName (?xs ! i)" "IP b = IP (?xs ! i)"
    by (simp_all add: Found(3) binding_def)
  then have maps: "map binding (?xs[i := b]) = map binding ?xs"
      "map PodName (?xs[i := b]) = map PodName ?xs" "map IP (?xs[i := b]) = map IP ?xs"
    using Found(2) by (simp_all add: map_list_update_same)
  then have "set (map binding (?xs[i := b])) = set (map binding ?xs)" by simp
  then have "binding ` set (?xs[i := b]) = binding ` set ?xs" by (simp del: maps)
  with Found assms(2) b maps show thesis
    by (intro that [of "?xs[i := b]"]) (simp_all add: others_list_update set_update_memI)
next
  case (Fresh b)
  with assms(2) show thesis by (intro that [of "nw_allocs nw @ [b]"]) auto
qed (use assms(2) in simp)

section \<open>Optional routers\<close>

lemma add_optional_result:
  assumes "lo_pkg_ok L"
  shows "\<exists>m'. add_optional L a rs (Some m) = Returns (Some m') \<and> (gm_ok m \<longrightarrow> gm_ok m') \<and>
    (\<forall>k. gm_get m' k [] =
       (if k \<in> set rs \<and> PodName a \<notin> PodName ` set (gm_get m k []) then gm_get m k [] @ [a]
        else gm_get m k []))"
proof (induction rs arbitrary: m)
  case (Cons r rs)
  have c: "lo_ContainsBy (lo_alloc L) (gm_get m r []) (\<lambda>b. PodName b = PodName a) \<longleftrightarrow>
      PodName a \<in> PodName ` set (gm_get m r [])"
    using lo_slice_okD(3) [OF lo_pkg_okD(2) [OF assms]] by (auto intro: rev_image_eqI)
  show ?case
  proof (cases "PodName a \<in> PodName ` set (gm_get m r [])")
    case True
    with Cons.IH [of m] c show ?thesis by auto
  next
    case False
    with Cons.IH [of "gm_put m r (gm_get m r [] @ [a])"] c show ?thesis by auto
  qed
qed simp

lemma gm_get_map_snd:
  "f k z = z \<Longrightarrow> gm_get (map (\<lambda>(k, v). (k, f k v)) m) k z = f k (gm_get m k z)"
  by (auto simp: gm_get_def map_of_map_snd split: option.splits)

lemma gm_entries_iff:
  "gm_ok m \<Longrightarrow> P [] \<Longrightarrow> (\<forall>(k, v) \<in> set m. P v) \<longleftrightarrow> (\<forall>k. P (gm_get m k []))"
  by (auto simp: gm_get_def split: option.splits dest: gm_ok_entry map_of_SomeD)

lemma status_ok_iff:
  "status_ok nw \<longleftrightarrow>
     distinct (map PodName (nw_allocs nw)) \<and> distinct (map IP (nw_allocs nw)) \<and>
     members_of (nw_allocs nw) (nw_routers nw) \<and>
     (case nw_optional nw of None \<Rightarrow> True
      | Some m \<Rightarrow> gm_ok m \<and> (\<forall>k. members_of (nw_allocs nw) (gm_get m k [])))"
  by (cases "nw_optional nw")
    (simp_all add: status_ok_def gm_entries_iff [where P = "members_of (nw_allocs nw)"] cong: conj_cong)


section \<open>The new status\<close>

lemma update_routers_eq:
  "lo_pkg_ok L \<Longrightarrow> update_routers L p isRouter a rs =
     (if isRouter then (if p \<in> PodName ` set rs then rs else rs @ [a]) else others p rs)"
  by (auto simp: update_routers_def without_pod_eq lo_slice_okD(3) [OF lo_pkg_okD(2)])

definition opt_get :: "OverlayNetwork \<Rightarrow> string \<Rightarrow> OverlayNetworkIPAllocation list" where
  "opt_get nw k = (case nw_optional nw of None \<Rightarrow> [] | Some m \<Rightarrow> gm_get m k [])"

text \<open>Everything a successful allocation does to the network object, in one elimination rule.\<close>

lemma allocate_status_result:
  assumes "lo_pkg_ok L" and "nw_optional nw = Some m"
    and "allocate_status L nw pod isRouter en er = Returns (Inr nw')"
  obtains a m' where
    "ensure_allocation L nw pod en = Returns (Inr (a, with_allocs nw (nw_allocs nw')))"
    "a \<in> set (nw_allocs nw')" "PodName a = pod_name pod" "ExtraNetworks a = en"
    "others (pod_name pod) (nw_allocs nw') = others (pod_name pod) (nw_allocs nw)"
    "binding ` set (nw_allocs nw) \<subseteq> binding ` set (nw_allocs nw')"
    "distinct (map PodName (nw_allocs nw)) \<Longrightarrow> distinct (map PodName (nw_allocs nw'))"
    "distinct (map IP (nw_allocs nw)) \<Longrightarrow> distinct (map IP (nw_allocs nw'))"
    "nw_meta nw' = nw_meta nw" "nw_Spec nw' = nw_Spec nw"
    "nw_optional nw' = Some m'" "gm_ok m \<Longrightarrow> gm_ok m'"
    "\<And>k. gm_get m' k [] =
       (if k \<in> set er then
          (if pod_name pod \<in> PodName ` set (gm_get m k []) then gm_get m k [] else gm_get m k [] @ [a])
        else others (pod_name pod) (gm_get m k []))"
    "nw_routers nw' = update_routers L (pod_name pod) isRouter a (nw_routers nw)"
proof -
  from assms(3) obtain r where r: "ensure_allocation L nw pod en = Returns r"
    by (auto simp: allocate_status_def bind_outcome_eq_Returns split: if_splits)
  with assms(3) obtain a nw1 where e: "ensure_allocation L nw pod en = Returns (Inr (a, nw1))"
    by (cases r) (auto simp: allocate_status_def split: if_splits)
  show thesis
  proof (rule ensure_allocation_result [OF assms(1) e])
    fix as
    assume as: "nw1 = with_allocs nw as" "a \<in> set as" "PodName a = pod_name pod" "ExtraNetworks a = en"
      "others (pod_name pod) as = others (pod_name pod) (nw_allocs nw)"
      "binding ` set (nw_allocs nw) \<subseteq> binding ` set as"
      "distinct (map PodName (nw_allocs nw)) \<Longrightarrow> distinct (map PodName as)"
      "distinct (map IP (nw_allocs nw)) \<Longrightarrow> distinct (map IP as)"
    obtain m1 where m1: "add_optional L a er (Some m) = Returns (Some m1)" "gm_ok m \<longrightarrow> gm_ok m1"
        "\<And>k. gm_get m1 k [] = (if k \<in> set er \<and> PodName a \<notin> PodName ` set (gm_get m k [])
            then gm_get m k [] @ [a] else gm_get m k [])"
      using add_optional_result [OF assms(1)] by metis
    define m' where "m' = map (\<lambda>(k, v). (k, if k \<in> set er then v else others (pod_name pod) v)) m1"
    have nw': "nw' = (with_allocs nw as)\<lparr>nw_Status := (nw_Status (with_allocs nw as))\<lparr>
        OptionalRouters := Some m',
        Routers := update_routers L (pod_name pod) isRouter a (nw_routers nw)\<rparr>\<rparr>"
      using assms(2,3) e m1(1)
      by (simp add: allocate_status_def as(1,3) prune_optional_eq [OF assms(1)] m'_def split: if_splits)
    have opt: "gm_get m' k [] = (if k \<in> set er then
            (if pod_name pod \<in> PodName ` set (gm_get m k []) then gm_get m k [] else gm_get m k [] @ [a])
          else others (pod_name pod) (gm_get m k []))" for k
      unfolding m'_def by (subst gm_get_map_snd) (auto simp: m1(3) as(3))
    show thesis
    proof (rule that [of a m'])
      show "gm_ok m \<Longrightarrow> gm_ok m'" using m1(2) by (simp add: m'_def)
    qed (use e as in \<open>simp_all add: nw' opt\<close>)
  qed
qed

lemma status_ok_allocate:
  assumes lo: "lo_pkg_ok L" and ok: "status_ok nw" and some: "nw_optional nw = Some m"
    and run: "allocate_status L nw pod isRouter en er = Returns (Inr nw')"
  shows "status_ok nw'"
proof (rule allocate_status_result [OF lo some run])
  fix a m'
  assume as: "a \<in> set (nw_allocs nw')" "PodName a = pod_name pod"
      "binding ` set (nw_allocs nw) \<subseteq> binding ` set (nw_allocs nw')"
      "distinct (map PodName (nw_allocs nw)) \<Longrightarrow> distinct (map PodName (nw_allocs nw'))"
      "distinct (map IP (nw_allocs nw)) \<Longrightarrow> distinct (map IP (nw_allocs nw'))"
    and new: "nw_optional nw' = Some m'" "gm_ok m \<Longrightarrow> gm_ok m'"
      "nw_routers nw' = update_routers L (pod_name pod) isRouter a (nw_routers nw)"
    and opt: "\<And>k. gm_get m' k [] =
       (if k \<in> set er then
          (if pod_name pod \<in> PodName ` set (gm_get m k []) then gm_get m k [] else gm_get m k [] @ [a])
        else others (pod_name pod) (gm_get m k []))"
  have keep: "members_of (nw_allocs nw') xs" if "members_of (nw_allocs nw) xs" for xs
    using that as(3) by (rule members_of_mono)
  have join: "members_of (nw_allocs nw') (xs @ [a])"
    if "members_of (nw_allocs nw) xs" "pod_name pod \<notin> PodName ` set xs" for xs
    using that as(1,2) by (intro members_of_snoc keep) auto
  from ok some have old: "distinct (map PodName (nw_allocs nw))" "distinct (map IP (nw_allocs nw))"
      "members_of (nw_allocs nw) (nw_routers nw)" "gm_ok m"
      "\<And>k. members_of (nw_allocs nw) (gm_get m k [])"
    by (simp_all add: status_ok_iff)
  show "status_ok nw'"
    unfolding status_ok_iff
    using old as(4,5) new(2)
    by (simp add: new(1,3) opt update_routers_eq [OF lo] keep join members_of_filter)
qed

lemma status_ok_deallocate:
  assumes lo: "lo_pkg_ok L" and ok: "status_ok nw"
  shows "status_ok (deallocate_status L nw pod)"
proof -
  have d: "distinct (map f (others p xs))" if "distinct (map f xs)" for f :: "OverlayNetworkIPAllocation \<Rightarrow> string" and p xs
    using that by (rule distinct_map_filter)
  show ?thesis
    using ok
    by (auto simp: status_ok_def deallocate_status_def without_pod_eq [OF lo] d members_of_others
        split: option.splits prod.splits)
qed


section \<open>Both operations stay on their feet\<close>

lemma ensure_allocation_returns:
  "lo_pkg_ok L \<Longrightarrow> \<exists>r. ensure_allocation L nw pod en = Returns r"
  by (rule ensure_allocation_cases [of L nw pod en]) auto

lemma allocate_status_returns:
  assumes "lo_pkg_ok L" and "nw_optional nw = Some m"
  shows "\<exists>r. allocate_status L nw pod isRouter en er = Returns r"
proof (cases "status_PodIP pod = ''''")
  case True
  then show ?thesis by (simp add: allocate_status_def)
next
  case False
  obtain r where r: "ensure_allocation L nw pod en = Returns r"
    using ensure_allocation_returns [OF assms(1)] by blast
  show ?thesis
  proof (cases r)
    case (Inl e)
    with False r show ?thesis by (simp add: allocate_status_def)
  next
    case (Inr b)
    then obtain a nw1 where b: "r = Inr (a, nw1)" by (cases b) simp
    obtain as where "nw1 = with_allocs nw as"
      using ensure_allocation_result [OF assms(1) r [unfolded b]] by metis
    then have "nw_optional nw1 = Some m" using assms(2) by simp
    moreover obtain m' where "add_optional L a er (Some m) = Returns (Some m')"
      using add_optional_result [OF assms(1)] by metis
    ultimately show ?thesis using False r b by (simp add: allocate_status_def)
  qed
qed

section \<open>Idempotence\<close>

lemma others_id: "p \<notin> PodName ` set xs \<Longrightarrow> others p xs = xs"
  by (rule filter_neq_id)

lemma add_optional_id:
  assumes "lo_pkg_ok L" and "\<And>k. k \<in> set rs \<Longrightarrow> PodName a \<in> PodName ` set (gm_get m k [])"
  shows "add_optional L a rs (Some m) = Returns (Some m)"
  using assms(2)
proof (induction rs)
  case (Cons r rs)
  have "lo_ContainsBy (lo_alloc L) (gm_get m r []) (\<lambda>b. PodName b = PodName a)"
    using Cons.prems [of r] lo_slice_okD(3) [OF lo_pkg_okD(2) [OF assms(1)]] by auto
  with Cons show ?case by simp
qed simp

lemma prune_optional_id:
  assumes "lo_pkg_ok L" and "gm_ok m" and "\<And>k. k \<notin> set rs \<Longrightarrow> p \<notin> PodName ` set (gm_get m k [])"
  shows "prune_optional L p rs (Some m) = Some m"
proof -
  have "(\<lambda>(k, v). (k, if k \<in> set rs then v else others p v)) e = e" if e: "e \<in> set m" for e
  proof (cases e)
    case (Pair k v)
    with e assms(2) have "gm_get m k [] = v" by (simp add: gm_get_def gm_ok_entry)
    with assms(3) [of k] Pair show ?thesis by (auto simp: others_id)
  qed
  then show ?thesis by (simp add: prune_optional_eq [OF assms(1)] map_idI)
qed

lemma distinct_map_unique:
  "distinct (map f xs) \<Longrightarrow> x \<in> set xs \<Longrightarrow> y \<in> set xs \<Longrightarrow> f x = f y \<Longrightarrow> x = y"
  by (metis distinct_map inj_on_def)

lemma ensure_allocation_again:
  assumes lo: "lo_pkg_ok L" and "distinct (map PodName (nw_allocs nw))"
    and a: "a \<in> set (nw_allocs nw)" "PodName a = pod_name pod" "ExtraNetworks a = en"
  shows "ensure_allocation L nw pod en = Returns (Inr (a, nw))"
  using lo
proof (cases rule: ensure_allocation_cases [of L nw pod en])
  case (Refused e)
  with a show ?thesis by force
next
  case (Found b i)
  have "nw_allocs nw ! i = a"
    using Found a assms(2) by (intro distinct_map_unique [of PodName "nw_allocs nw"]) auto
  then have "b = a" using Found(3) a(3) by simp
  moreover have "(nw_allocs nw)[i := a] = nw_allocs nw"
    using \<open>nw_allocs nw ! i = a\<close> by (metis list_update_id)
  ultimately show ?thesis
    using Found(1) by (simp add: with_allocs_def)
next
  case (Fresh b)
  with a show ?thesis by force
qed

lemma allocate_status_again:
  assumes lo: "lo_pkg_ok L" and ok: "status_ok nw" and some: "nw_optional nw = Some m"
    and run: "allocate_status L nw pod isRouter en er = Returns (Inr nw')"
  shows "allocate_status L nw' pod isRouter en er = Returns (Inr nw')"
proof (rule allocate_status_result [OF lo some run])
  fix a m'
  assume a: "a \<in> set (nw_allocs nw')" "PodName a = pod_name pod" "ExtraNetworks a = en"
    and new: "nw_optional nw' = Some m'" "gm_ok m \<Longrightarrow> gm_ok m'"
      "nw_routers nw' = update_routers L (pod_name pod) isRouter a (nw_routers nw)"
    and opt: "\<And>k. gm_get m' k [] =
       (if k \<in> set er then
          (if pod_name pod \<in> PodName ` set (gm_get m k []) then gm_get m k [] else gm_get m k [] @ [a])
        else others (pod_name pod) (gm_get m k []))"
  have ok': "status_ok nw'" using lo ok some run by (rule status_ok_allocate)
  then have "ensure_allocation L nw' pod en = Returns (Inr (a, nw'))"
    using a by (intro ensure_allocation_again [OF lo]) (simp_all add: status_ok_def)
  moreover have "add_optional L a er (Some m') = Returns (Some m')"
    by (rule add_optional_id [OF lo]) (auto simp: opt a(2))
  moreover have "prune_optional L (pod_name pod) er (Some m') = Some m'"
    using ok' new(1) by (intro prune_optional_id [OF lo]) (auto simp: opt status_ok_def)
  moreover have "update_routers L (pod_name pod) isRouter a (nw_routers nw') = nw_routers nw'"
    using a(2) by (auto simp: new(3) update_routers_eq [OF lo])
  moreover have "status_PodIP pod \<noteq> ''''" using run by (auto simp: allocate_status_def)
  ultimately show ?thesis
    by (simp add: allocate_status_def new(1))
qed


section \<open>Taking the addresses back\<close>

lemma deallocate_status_simps:
  assumes "lo_pkg_ok L"
  shows "nw_allocs (deallocate_status L nw pod) = others (pod_name pod) (nw_allocs nw)"
    and "nw_routers (deallocate_status L nw pod) = others (pod_name pod) (nw_routers nw)"
    and "nw_optional (deallocate_status L nw pod) =
      map_option (map (\<lambda>(k, v). (k, others (pod_name pod) v))) (nw_optional nw)"
    and "nw_meta (deallocate_status L nw pod) = nw_meta nw"
    and "nw_Spec (deallocate_status L nw pod) = nw_Spec nw"
  by (simp_all add: deallocate_status_def without_pod_eq [OF assms])

lemma init_optional_simps [simp]:
  "nw_allocs (init_optional nw) = nw_allocs nw" "nw_routers (init_optional nw) = nw_routers nw"
  "nw_meta (init_optional nw) = nw_meta nw" "nw_Spec (init_optional nw) = nw_Spec nw"
  by (simp_all add: init_optional_def)

lemma init_optional_Some: "\<exists>m. nw_optional (init_optional nw) = Some m"
  by (auto simp: init_optional_def)

lemma status_ok_init [simp]: "status_ok (init_optional nw) = status_ok nw"
  by (simp add: init_optional_def status_ok_def)

section \<open>The steps a network can take\<close>

text \<open>
  One step of the reconciler on one network: some pod is given its place in it, or removed
  from it. The predicate is indexed by the name of the pod.
\<close>

inductive status_step :: "string \<Rightarrow> OverlayNetwork \<Rightarrow> OverlayNetwork \<Rightarrow> bool" where
  allocate: "lo_pkg_ok L \<Longrightarrow>
    allocate_status L (init_optional nw) pod isRouter en er = Returns (Inr nw') \<Longrightarrow>
    status_step (pod_name pod) nw nw'"
| deallocate: "lo_pkg_ok L \<Longrightarrow>
    status_step (pod_name pod) nw (deallocate_status L (init_optional nw) pod)"

text \<open>
  The contract of the operations that rewrite a network on behalf of one pod: they keep the
  invariant, they leave the entries of all other pods alone, and they never touch the
  specification or the metadata. What follows from it for a whole history of such
  operations is proved once, here.
\<close>

locale status_operation =
  fixes step :: "string \<Rightarrow> OverlayNetwork \<Rightarrow> OverlayNetwork \<Rightarrow> bool"
  assumes step_ok: "step p nw nw' \<Longrightarrow> status_ok nw \<Longrightarrow> status_ok nw'"
    and step_others: "step p nw nw' \<Longrightarrow> others p (nw_allocs nw') = others p (nw_allocs nw)"
    and step_frame: "step p nw nw' \<Longrightarrow> nw_meta nw' = nw_meta nw \<and> nw_Spec nw' = nw_Spec nw"
begin

lemma steps_ok: "(\<lambda>x y. \<exists>p \<in> P. step p x y)\<^sup>*\<^sup>* nw nw' \<Longrightarrow> status_ok nw \<Longrightarrow> status_ok nw'"
  by (induction rule: rtranclp_induct) (auto dest: step_ok)

lemma steps_frame:
  "(\<lambda>x y. \<exists>p \<in> P. step p x y)\<^sup>*\<^sup>* nw nw' \<Longrightarrow> nw_meta nw' = nw_meta nw \<and> nw_Spec nw' = nw_Spec nw"
  by (induction rule: rtranclp_induct) (auto dest: step_frame)

lemma step_entry:
  assumes "step p nw nw'" and "PodName a \<noteq> p"
  shows "a \<in> set (nw_allocs nw') \<longleftrightarrow> a \<in> set (nw_allocs nw)"
proof -
  have "a \<in> set (others p (nw_allocs nw')) \<longleftrightarrow> a \<in> set (others p (nw_allocs nw))"
    by (simp only: step_others [OF assms(1)])
  with assms(2) show ?thesis by simp
qed

lemma steps_entry:
  "(\<lambda>x y. \<exists>p \<in> P. step p x y)\<^sup>*\<^sup>* nw nw' \<Longrightarrow> PodName a \<notin> P \<Longrightarrow>
   a \<in> set (nw_allocs nw') \<longleftrightarrow> a \<in> set (nw_allocs nw)"
proof (induction rule: rtranclp_induct)
  case (step y z)
  then obtain p where "p \<in> P" "step p y z" "PodName a \<noteq> p" by auto
  then show ?case using step_entry [of p y z a] step.IH step.prems by simp
qed simp

end

lemma status_step_ok: "status_step p nw nw' \<Longrightarrow> status_ok nw \<Longrightarrow> status_ok nw'"
proof (induction rule: status_step.induct)
  case (allocate L nw pod isRouter en er nw')
  obtain m where "nw_optional (init_optional nw) = Some m" using init_optional_Some by blast
  from status_ok_allocate [OF allocate(1) _ this allocate(2)] show ?case using allocate(3) by simp
next
  case (deallocate L nw pod)
  then show ?case by (simp add: status_ok_deallocate)
qed

lemma status_step_frame:
  "status_step p nw nw' \<Longrightarrow> others p (nw_allocs nw') = others p (nw_allocs nw) \<and>
     nw_meta nw' = nw_meta nw \<and> nw_Spec nw' = nw_Spec nw"
proof (induction rule: status_step.induct)
  case (allocate L nw pod isRouter en er nw')
  obtain m where "nw_optional (init_optional nw) = Some m" using init_optional_Some by blast
  from allocate_status_result [OF allocate(1) this allocate(2)] show ?case
    by (metis init_optional_simps(1,3,4))
next
  case (deallocate L nw pod)
  then show ?case by (simp add: deallocate_status_simps)
qed

interpretation pod_ops: status_operation status_step
  by unfold_locales (auto dest: status_step_ok status_step_frame)

section \<open>Sample data\<close>

definition demo_meta :: "string \<Rightarrow> ObjectMeta" where
  "demo_meta n = \<lparr>Name = n, Namespace = ''ns'', ResourceVersion = ''1'', DeletionTimestamp = None,
     Finalizers = [], Labels = [], Annotations = []\<rparr>"

definition demo_network :: OverlayNetwork where
  "demo_network = \<lparr>nw_meta = demo_meta ''net'',
     nw_Spec = \<lparr>AllocatableCIDR = ''10.0.0.0/24'', Port = 5555, RoutableCIDRs = [], OptionalRoutes = [],
       ServiceNames = []\<rparr>,
     nw_Status = \<lparr>Allocations = [], Routers = [], OptionalRouters = None\<rparr>\<rparr>"

definition demo_pod :: "string \<Rightarrow> Pod" where
  "demo_pod n = \<lparr>pod_meta = demo_meta n, Containers = [], Volumes = [], status_PodIP = ''172.16.0.9''\<rparr>"

definition demo_entry :: OverlayNetworkIPAllocation where
  "demo_entry = \<lparr>PodName = ''p'', PodIP = ''172.16.0.9'', IP = ''10.0.0.1'', ExtraNetworks = []\<rparr>"

definition demo_network1 :: OverlayNetwork where
  "demo_network1 = demo_network\<lparr>nw_Status := \<lparr>Allocations = [demo_entry], Routers = [demo_entry],
     OptionalRouters = Some [(''vpn'', [demo_entry])]\<rparr>\<rparr>"

lemmas demo_defs = demo_meta_def demo_network_def demo_pod_def demo_entry_def demo_network1_def

lemmas lo_std_eval = lo_pkg_std_def lo_std_def filter_index_const map2_const

lemmas allocate_eval =
  demo_defs init_optional_def allocate_status_def ensure_allocation_def new_allocation_def
  allocation_map_def requested_ip_def POD_IP_ANNOTATION_def
  FirstFreeHost_def inc_def free_host_loop.simps Let_def gm_get_def gm_put_def with_allocs_def
  update_routers_def prune_optional_def without_pod_def lo_std_eval

lemma demo_allocate:
  "allocate_status lo_pkg_std (init_optional demo_network) (demo_pod ''p'') True [] [''vpn'']
     = Returns (Inr demo_network1)"
  by (simp add: allocate_eval go_net_eval go_print_eval)

lemma demo_status_ok: "status_ok demo_network"
  by (simp add: demo_defs status_ok_def)

lemma demo_step: "status_step ''p'' demo_network demo_network1"
  using status_step.allocate [OF lo_pkg_std_ok demo_allocate] by (simp add: demo_pod_def demo_meta_def)

lemma allocate_membership:
  assumes "lo_pkg_ok L"
    and "allocate_status L (init_optional nw) pod isRouter en er = Returns (Inr nw')"
  shows "(\<exists>a \<in> set (nw_allocs nw'). PodName a = pod_name pod \<and> ExtraNetworks a = en) \<and>
    (pod_name pod \<in> PodName ` set (nw_routers nw') \<longleftrightarrow> isRouter) \<and>
    (\<forall>k. pod_name pod \<in> PodName ` set (opt_get nw' k) \<longleftrightarrow> k \<in> set er) \<and>
    others (pod_name pod) (nw_allocs nw') = others (pod_name pod) (nw_allocs nw) \<and>
    others (pod_name pod) (nw_routers nw') = others (pod_name pod) (nw_routers nw) \<and>
    (\<forall>k. others (pod_name pod) (opt_get nw' k) = others (pod_name pod) (opt_get nw k))"
proof -
  obtain m where m: "nw_optional (init_optional nw) = Some m" using init_optional_Some by blast
  then have old: "opt_get nw k = gm_get m k []" for k
    by (auto simp: opt_get_def init_optional_def split: option.splits if_splits)
  show ?thesis
  proof (rule allocate_status_result [OF assms(1) m assms(2)], goal_cases)
    case (1 a m')
    then have "opt_get nw' k = (if k \<in> set er then
          (if pod_name pod \<in> PodName ` set (gm_get m k []) then gm_get m k [] else gm_get m k [] @ [a])
        else others (pod_name pod) (gm_get m k []))" for k
      by (simp add: opt_get_def)
    with 1 show ?case by (auto simp: old update_routers_eq [OF assms(1)])
  qed
qed

section \<open>Properties\<close>

text \<open>Address uniqueness. Whatever sequence of allocations and deallocations the reconciler
  performs on a network, for whatever pods, no two entries of its status share an address or a
  pod, and every router and every optional router is bound exactly as in the allocations.\<close>

lemma allocation_history_ok:
  assumes "(\<lambda>x y. \<exists>p \<in> UNIV. status_step p x y)\<^sup>*\<^sup>* nw nw'" and "status_ok nw"
  shows "status_ok nw'"
  using assms by (rule pod_ops.steps_ok)

text \<open>Isolation between pods. A history of allocations and deallocations for the pods of a
  set \<open>P\<close> leaves the allocation of every pod outside \<open>P\<close> exactly as it was (its address
  included), and leaves the metadata and the specification of the network untouched.\<close>

lemma other_pods_keep_their_address:
  assumes "(\<lambda>x y. \<exists>p \<in> P. status_step p x y)\<^sup>*\<^sup>* nw nw'" and "PodName a \<notin> P"
  shows "(a \<in> set (nw_allocs nw') \<longleftrightarrow> a \<in> set (nw_allocs nw)) \<and>
    nw_meta nw' = nw_meta nw \<and> nw_Spec nw' = nw_Spec nw"
  using pod_ops.steps_entry [OF assms] pod_ops.steps_frame [OF assms(1)] by simp

text \<open>C28: what a successful allocation establishes: the pod has an allocation carrying the
  requested extra networks, it is in \<open>Routers\<close> exactly if it is annotated as a router, and it
  is an optional router of exactly the routes it asked for; the entries that other pods have
  are unchanged.\<close>

theorem allocate_establishes_membership:
  assumes "lo_pkg_ok L"
    and "allocate_status L (init_optional nw) pod isRouter en er = Returns (Inr nw')"
  shows "(\<exists>a \<in> set (nw_allocs nw'). PodName a = pod_name pod \<and> ExtraNetworks a = en) \<and>
    (pod_name pod \<in> PodName ` set (nw_routers nw') \<longleftrightarrow> isRouter) \<and>
    (\<forall>k. pod_name pod \<in> PodName ` set (opt_get nw' k) \<longleftrightarrow> k \<in> set er) \<and>
    others (pod_name pod) (nw_allocs nw') = others (pod_name pod) (nw_allocs nw) \<and>
    others (pod_name pod) (nw_routers nw') = others (pod_name pod) (nw_routers nw) \<and>
    (\<forall>k. others (pod_name pod) (opt_get nw' k) = others (pod_name pod) (opt_get nw k))"
  using assms by (rule allocate_membership)

theorem allocate_establishes_membership_witness:
  "pod_name (demo_pod ''p'') \<in> PodName ` set (nw_routers demo_network1)"
  using allocate_establishes_membership [OF lo_pkg_std_ok demo_allocate] by simp

text \<open>Reconciling is idempotent. Allocating again for the same pod with the same annotations,
  from the status a first allocation produced, changes nothing.\<close>

lemma allocate_idempotent:
  assumes "lo_pkg_ok L" and "status_ok nw"
    and "allocate_status L (init_optional nw) pod isRouter en er = Returns (Inr nw')"
  shows "allocate_status L (init_optional nw') pod isRouter en er = Returns (Inr nw')"
proof -
  obtain m where m: "nw_optional (init_optional nw) = Some m" using init_optional_Some by blast
  have "nw_optional nw' \<noteq> None" using allocate_status_result [OF assms(1) m assms(3)] by (metis option.distinct(1))
  then have "init_optional nw' = nw'" by (simp add: init_optional_def)
  moreover have "allocate_status L nw' pod isRouter en er = Returns (Inr nw')"
    using assms(2) by (intro allocate_status_again [OF assms(1) _ m assms(3)]) simp
  ultimately show ?thesis by simp
qed

text \<open>C33: giving an address and taking it back is a round trip. If the pod was not part of the
  network, removing it after an allocation restores the allocations, the routers and, for every route name, the
  list of its optional routers. The map of optional routers itself is restored only up to entries
  with an empty list and up to \<open>nil\<close>: the entries made for the routes of the pod stay.\<close>

theorem allocate_deallocate_roundtrip:
  assumes "lo_pkg_ok L"
    and "allocate_status L (init_optional nw) pod isRouter en er = Returns (Inr nw')"
    and "pod_name pod \<notin> PodName ` (set (nw_allocs nw) \<union> set (nw_routers nw) \<union> (\<Union>k. set (opt_get nw k)))"
  shows "nw_allocs (deallocate_status L nw' pod) = nw_allocs nw \<and>
    nw_routers (deallocate_status L nw' pod) = nw_routers nw \<and>
    (\<forall>k. opt_get (deallocate_status L nw' pod) k = opt_get nw k)"
proof -
  obtain m where m: "nw_optional (init_optional nw) = Some m" using init_optional_Some by blast
  then have old: "opt_get nw k = gm_get m k []" for k
    by (auto simp: opt_get_def init_optional_def split: option.splits if_splits)
  have away: "pod_name pod \<notin> PodName ` set (nw_allocs nw)" "pod_name pod \<notin> PodName ` set (nw_routers nw)"
      "pod_name pod \<notin> PodName ` set (gm_get m k [])" for k
    using assms(3) old by auto
  show ?thesis
  proof (rule allocate_status_result [OF assms(1) m assms(2)], goal_cases)
    case (1 a m')
    have "opt_get (deallocate_status L nw' pod) k = others (pod_name pod) (gm_get m' k [])" for k
      using 1(11) by (simp add: opt_get_def deallocate_status_simps [OF assms(1)] gm_get_map_snd)
    with 1 away show ?case
      by (simp add: old deallocate_status_simps [OF assms(1)] update_routers_eq [OF assms(1)] others_id)
  qed
qed

theorem allocate_deallocate_roundtrip_witness:
  "nw_allocs (deallocate_status lo_pkg_std demo_network1 (demo_pod ''p'')) = []"
  using allocate_deallocate_roundtrip [OF lo_pkg_std_ok demo_allocate]
  by (simp add: demo_network_def opt_get_def)

text \<open>A network that is being deleted admits nobody new. An allocation that succeeds on it was
  for a pod that already held an address, and that address is unchanged.\<close>

lemma deleting_network_admits_no_new_pod:
  assumes "lo_pkg_ok L" and "DeletionTimestamp (nw_meta nw) \<noteq> None"
    and "allocate_status L (init_optional nw) pod isRouter en er = Returns (Inr nw')"
  shows "map binding (nw_allocs nw') = map binding (nw_allocs nw) \<and>
    pod_name pod \<in> PodName ` set (nw_allocs nw)"
proof -
  obtain m where m: "nw_optional (init_optional nw) = Some m" using init_optional_Some by blast
  obtain a where e: "ensure_allocation L (init_optional nw) pod en =
      Returns (Inr (a, with_allocs (init_optional nw) (nw_allocs nw')))"
    using allocate_status_result [OF assms(1) m assms(3)] by metis
  from assms(1) show ?thesis
  proof (cases rule: ensure_allocation_cases [of L "init_optional nw" pod en])
    case (Found b i)
    then have "with_allocs (init_optional nw) (nw_allocs nw') =
        with_allocs (init_optional nw) ((nw_allocs nw)[i := b])" using e by simp
    then have new: "nw_allocs nw' = (nw_allocs nw)[i := b]"
      by (metis with_allocs_simps(1) OverlayNetworkStatus.select_convs(1) OverlayNetworkStatus.surjective OverlayNetworkStatus.update_convs(1))
    have "binding b = binding (nw_allocs nw ! i)" "PodName b = PodName (nw_allocs nw ! i)"
      using Found(3) by (simp_all add: binding_def)
    moreover have "pod_name pod \<in> PodName ` set (nw_allocs nw)"
      using Found(2,3,4) by (intro image_eqI [of _ _ "nw_allocs nw ! i"]) simp_all
    ultimately show ?thesis using Found(2) by (simp add: new map_list_update_same)
  qed (use e assms(2) in auto)
qed

text \<open>\<open>allocateIP\<close> neither panics nor hangs on a network as \<open>Reconcile\<close> passes it: the map of
  optional routers is never \<open>nil\<close> when it is written, and the address search ends.\<close>

lemma allocate_never_panics:
  assumes "lo_pkg_ok L"
  shows "\<exists>r. allocateIP L K (init_optional nw) pod isRouter en er w = Returns r"
proof -
  obtain m where m: "nw_optional (init_optional nw) = Some m" using init_optional_Some by blast
  obtain r where "allocate_status L (init_optional nw) pod isRouter en er = Returns r"
    using allocate_status_returns [OF assms m] by blast
  then show ?thesis by (cases r) (simp_all add: allocateIP_def)
qed

end
