(* ===== verification/PodReconcile.thy ===== *)
theory PodReconcile
  imports PodStatus
begin

text \<open>
  The pod reconciler as a whole: the requests it sends to the API server, in which order, and
  what its result means. Nothing is assumed of the API server: it may answer each call with
  any error and change its state between calls.
\<close>

section \<open>Sequences of writes\<close>

fun run_writes :: "'s kube \<Rightarrow> request list \<Rightarrow> 's world \<Rightarrow> api_error option list \<times> 's world" where
  "run_writes K [] w = ([], w)"
| "run_writes K (q # qs) w =
     (case write_api K q w of (e, w1) \<Rightarrow> case run_writes K qs w1 of (es, w2) \<Rightarrow> (e # es, w2))"

lemma requests_run_writes: "requests (snd (run_writes K qs w)) = requests w @ qs"
proof (induction qs arbitrary: w)
  case (Cons q qs)
  obtain e w1 where q: "write_api K q w = (e, w1)" by (cases "write_api K q w")
  then show ?case using Cons.IH [of w1] requests_write_api [OF q] by (cases "run_writes K qs w1") simp
qed simp

text \<open>An update counts as done if it succeeded or if the network is gone.\<close>

definition tolerated :: "api_error option \<Rightarrow> bool" where
  "tolerated e \<longleftrightarrow> e = None \<or> e = Some NotFound"

lemma push_status_eq:
  "push_status K nw w = (case write_api K (UpdateNetworkStatus nw) w of
     (e, w') \<Rightarrow> (if tolerated e then None else map_option StatusUpdateFailed e, w'))"
  by (auto simp: push_status_def tolerated_def IsNotFound_def split: prod.splits option.splits)

lemma push_status_result:
  "push_status K nw w = (e, w') \<Longrightarrow> requests w' = requests w @ [UpdateNetworkStatus nw]"
  by (auto simp: push_status_eq requests_write_api split: prod.splits)

lemma allocateIP_result:
  assumes "lo_pkg_ok L"
  obtains (Refused) e where "allocateIP L K (init_optional nw) pod isRouter en er w = Returns (Some e, w)"
      "allocate_status L (init_optional nw) pod isRouter en er = Returns (Inl e)"
  | (Sent) nw' e w' where "allocateIP L K (init_optional nw) pod isRouter en er w = Returns (e, w')"
      "allocate_status L (init_optional nw) pod isRouter en er = Returns (Inr nw')"
      "requests w' = requests w @ [UpdateNetworkStatus nw']"
proof -
  obtain m where m: "nw_optional (init_optional nw) = Some m" using init_optional_Some by blast
  obtain r where r: "allocate_status L (init_optional nw) pod isRouter en er = Returns r"
    using allocate_status_returns [OF assms m] by blast
  show thesis
  proof (cases r)
    case (Inl e)
    with r Refused show thesis by (simp add: allocateIP_def)
  next
    case (Inr nw')
    obtain e w' where p: "push_status K nw' w = (e, w')" by (cases "push_status K nw' w")
    with r Inr Sent [of e w' nw'] push_status_result [OF p] show thesis by (simp add: allocateIP_def)
  qed
qed

section \<open>The loop over the networks\<close>

definition steps_from :: "string \<Rightarrow> OverlayNetwork list \<Rightarrow> request list \<Rightarrow> bool" where
  "steps_from p items qs \<longleftrightarrow>
     (\<forall>q \<in> set qs. \<exists>nw \<in> set items. \<exists>nw'. q = UpdateNetworkStatus nw' \<and> status_step p nw nw')"

text \<open>
  The loop always returns. It sends only status updates, each one step away from a listed
  network; the map of wanted networks keeps its keys, and a network is marked as processed
  only if it was listed. Without errors, every wanted network of the list has been updated
  to a status that gives the pod its place.
\<close>

definition served :: "lo_pkg \<Rightarrow> Pod \<Rightarrow> (string, bool) go_map \<Rightarrow> string list \<Rightarrow> string list \<Rightarrow>
    OverlayNetwork \<Rightarrow> request list \<Rightarrow> bool" where
  "served L pod rn ens ers nw qs \<longleftrightarrow>
     (\<exists>nw'. allocate_status L (init_optional nw) pod (gm_has rn (nw_name nw))
         (names_for L (init_optional nw) ens) (names_for L (init_optional nw) ers) = Returns (Inr nw') \<and>
       UpdateNetworkStatus nw' \<in> set qs)"

lemma served_mono: "served L pod rn ens ers nw qs \<Longrightarrow> set qs \<subseteq> set qs' \<Longrightarrow> served L pod rn ens ers nw qs'"
  unfolding served_def by blast

lemma steps_from_Nil [simp]: "steps_from p items []"
  by (simp add: steps_from_def)

definition loop_post :: "lo_pkg \<Rightarrow> Pod \<Rightarrow> (string, bool) go_map \<Rightarrow> string list \<Rightarrow> string list \<Rightarrow>
    OverlayNetwork list \<Rightarrow> (string, bool) go_map \<Rightarrow> bool \<Rightarrow> 's world \<Rightarrow>
    (string, bool) go_map \<Rightarrow> bool \<Rightarrow> 's world \<Rightarrow> request list \<Rightarrow> bool" where
  "loop_post L pod rn ens ers items uniq h w uniq' h' w' qs \<longleftrightarrow>
    requests w' = requests w @ qs \<and> steps_from (pod_name pod) items qs \<and>
    (\<forall>k. gm_has uniq' k \<longleftrightarrow> gm_has uniq k) \<and> (gm_ok uniq \<longrightarrow> gm_ok uniq') \<and> (h \<longrightarrow> h') \<and>
    (\<forall>k. map_of uniq' k = Some True \<longrightarrow> map_of uniq k = Some True \<or> k \<in> nw_name ` set items) \<and>
    (\<not> h' \<longrightarrow> (\<forall>nw \<in> set items. gm_has uniq (nw_name nw) \<longrightarrow> served L pod rn ens ers nw qs))"

lemma loop_post_Nil: "loop_post L pod rn ens ers [] uniq h w uniq h w []"
  by (simp add: loop_post_def)

lemma loop_post_Cons:
  assumes "loop_post L pod rn ens ers [item] uniq h w u h1 w1 qs1"
    and "loop_post L pod rn ens ers items u h1 w1 uniq' h' w' qs2"
  shows "loop_post L pod rn ens ers (item # items) uniq h w uniq' h' w' (qs1 @ qs2)"
proof -
  have m: "served L pod rn ens ers nw (qs1 @ qs2)"
    if "served L pod rn ens ers nw qs1 \<or> served L pod rn ens ers nw qs2" for nw
    using that by (auto elim: served_mono)
  have "steps_from (pod_name pod) (item # items) (qs1 @ qs2)"
    using assms unfolding loop_post_def steps_from_def by fastforce
  moreover have "map_of uniq' k = Some True \<longrightarrow> map_of uniq k = Some True \<or> k \<in> nw_name ` set (item # items)" for k
    using assms unfolding loop_post_def by fastforce
  moreover have "served L pod rn ens ers nw (qs1 @ qs2)"
    if "\<not> h'" "nw \<in> set (item # items)" "gm_has uniq (nw_name nw)" for nw
    using assms that m [of nw] unfolding loop_post_def by (cases "nw = item") auto
  ultimately show ?thesis
    using assms unfolding loop_post_def by simp
qed

lemma loop_post_sent:
  assumes "status_step (pod_name pod) item nw'" and "requests w1 = requests w @ [UpdateNetworkStatus nw']"
    and "gm_has uniq (nw_name item) \<Longrightarrow> served L pod rn ens ers item [UpdateNetworkStatus nw']"
    and "u = uniq \<or> gm_has uniq (nw_name item) \<and> u = gm_put uniq (nw_name item) True" and "h \<longrightarrow> h1"
  shows "loop_post L pod rn ens ers [item] uniq h w u h1 w1 [UpdateNetworkStatus nw']"
  using assms by (auto simp: loop_post_def steps_from_def)

lemma process_networks_result:
  assumes lo: "lo_pkg_ok L"
  shows "\<exists>uniq' h' w' qs.
    process_networks L K pod rn ens ers items uniq h w = Returns (uniq', h', w') \<and>
    loop_post L pod rn ens ers items uniq h w uniq' h' w' qs"
proof (induction items arbitrary: uniq h w)
  case Nil
  show ?case using loop_post_Nil by fastforce
next
  case (Cons item items)
  let ?nw = "init_optional item"
  let ?run = "process_networks L K pod rn ens ers"
  have go: ?case if "?run (item # items) uniq h w = ?run items u h1 w1"
    "loop_post L pod rn ens ers [item] uniq h w u h1 w1 qs1" for u h1 w1 qs1
    using Cons.IH [of u h1 w1] loop_post_Cons [OF that(2)] that(1) by metis
  show ?case
  proof (cases "gm_has uniq (nw_name item)")
    case wanted: True
    show ?thesis
      using lo
    proof (cases rule: allocateIP_result [of L K item pod "gm_has rn (nw_name item)"
          "names_for L ?nw ens" "names_for L ?nw ers" w])
      case (Refused e)
      show ?thesis
        by (rule go [of uniq True w "[]"])
          (use wanted Refused in \<open>simp_all add: Let_def loop_post_def\<close>)
    next
      case (Sent nw' e w1)
      have step: "status_step (pod_name pod) item nw'"
        using lo Sent(2) by (rule status_step.allocate)
      show ?thesis
        by (rule go [of "if e = None then gm_put uniq (nw_name item) True else uniq" "h \<or> e \<noteq> None" w1,
              OF _ loop_post_sent [OF step Sent(3)]])
          (use wanted Sent(1,2) in \<open>auto simp: Let_def served_def\<close>)
    qed
  next
    case unwanted: False
    obtain e w1 where d: "deallocateIP L K ?nw pod w = (e, w1)" by (cases "deallocateIP L K ?nw pod w")
    have step: "status_step (pod_name pod) item (deallocate_status L ?nw pod)"
      using lo by (rule status_step.deallocate)
    show ?thesis
      by (rule go [of uniq "h \<or> e \<noteq> None" w1, OF _ loop_post_sent [OF step]])
        (use unwanted d in \<open>auto simp: Let_def deallocateIP_def dest: push_status_result\<close>)
  qed
qed

section \<open>The wanted networks\<close>

lemma annotation_list_eq:
  "lo_pkg_ok L \<Longrightarrow> annotation_list L pod key =
     filter (\<lambda>s. s \<noteq> '''') (strings_Split (gm_get (Annotations (pod_meta pod)) key '''') CHR '','')"
  by (simp add: annotation_list_def lo_slice_okD(1) [OF lo_pkg_okD(1)])

definition wanted_networks :: "Pod \<Rightarrow> string set" where
  "wanted_networks pod = {n. n \<noteq> '''' \<and>
     (\<exists>key \<in> {POD_NETWORK_MEMBER_ANNOTATION, POD_NETWORK_ROUTER_ANNOTATION}.
        n \<in> set (strings_Split (gm_get (Annotations (pod_meta pod)) key '''') CHR '',''))}"

definition wants_sidecar :: "Pod \<Rightarrow> bool" where
  "wants_sidecar pod \<longleftrightarrow> gm_get (Labels (pod_meta pod)) POD_OVERLAY_LABEL '''' = ''true''"

lemma wants_sidecar_iff:
  "\<not> wants_sidecar pod \<longleftrightarrow> \<not> gm_has (Labels (pod_meta pod)) POD_OVERLAY_LABEL
     \<or> gm_get (Labels (pod_meta pod)) POD_OVERLAY_LABEL '''' \<noteq> ''true''"
  by (auto simp: wants_sidecar_def gm_has_def gm_get_def split: option.splits)

text \<open>The two sets the code builds, as maps to \<open>false\<close>.\<close>

definition name_set :: "lo_pkg \<Rightarrow> string list \<Rightarrow> (string, bool) go_map" where
  "name_set L xs = lo_SliceToMap L (lo_Uniq (lo_str L) xs) (\<lambda>nw. (nw, False))"

lemma map_of_name_set:
  assumes "lo_pkg_ok L"
  shows "map_of (name_set L xs) k = (if k \<in> set xs then Some False else None)" "gm_ok (name_set L xs)"
proof -
  have "map_of (rev (map (\<lambda>nw. (nw, False)) ys)) k = (if k \<in> set ys then Some False else None)" for ys
    by (induction ys rule: rev_induct) auto
  then show "map_of (name_set L xs) k = (if k \<in> set xs then Some False else None)"
    by (simp add: name_set_def lo_pkg_okD(6) [OF assms] lo_slice_okD(5) [OF lo_pkg_okD(1) [OF assms]])
  show "gm_ok (name_set L xs)" by (simp add: name_set_def lo_pkg_okD(5) [OF assms])
qed

definition uniq_networks :: "lo_pkg \<Rightarrow> Pod \<Rightarrow> (string, bool) go_map" where
  "uniq_networks L pod = name_set L (lo_Uniq (lo_str L)
     (annotation_list L pod POD_NETWORK_MEMBER_ANNOTATION @ annotation_list L pod POD_NETWORK_ROUTER_ANNOTATION))"

lemma uniq_networks_get:
  assumes "lo_pkg_ok L"
  shows "map_of (uniq_networks L pod) k = (if k \<in> wanted_networks pod then Some False else None)"
    "gm_ok (uniq_networks L pod)"
  by (auto simp: uniq_networks_def map_of_name_set [OF assms] lo_slice_okD(5) [OF lo_pkg_okD(1) [OF assms]]
      annotation_list_eq [OF assms] wanted_networks_def)

section \<open>The shape of a reconciliation\<close>

text \<open>After the pod and the list of networks have been read, a reconciliation is the loop
  followed by the finish.\<close>

definition reconcile_listed ::
  "lo_pkg \<Rightarrow> finalizer_util \<Rightarrow> 's kube \<Rightarrow> Pod \<Rightarrow> OverlayNetwork list \<Rightarrow> 's world \<Rightarrow> (ctrl_result \<times> 's world) outcome" where
  "reconcile_listed L F K pod items w =
     (let deleted = (DeletionTimestamp (pod_meta pod) \<noteq> None) in
      bind_outcome
        (process_networks L K pod
           (if deleted then [] else name_set L (annotation_list L pod POD_NETWORK_ROUTER_ANNOTATION))
           (annotation_list L pod POD_NETWORK_EXTRA_ROUTE_ANNOTATION)
           (annotation_list L pod POD_NETWORK_EXTRA_ROUTER_ANNOTATION)
           items (if deleted then [] else uniq_networks L pod) False w)
        (\<lambda>(uniq, hasErrors, w). Returns (finish_reconcile L F K pod deleted uniq hasErrors w)))"

lemma reconcile_pod_eq:
  "reconcile_pod L F K ns name w =
     (case read_env (kGetPod K ns name) w of
       (Inl err, w1) \<Rightarrow> Returns (if IsNotFound err then finished else Failed err, w1)
     | (Inr pod, w1) \<Rightarrow>
         if \<not> wants_sidecar pod then Returns (finished, w1)
         else (case read_env (kListNetworks K (Namespace (pod_meta pod))) w1 of
             (Inl err, w2) \<Rightarrow> Returns (Failed err, w2)
           | (Inr items, w2) \<Rightarrow> reconcile_listed L F K pod items w2))"
  unfolding wants_sidecar_iff reconcile_pod_def reconcile_listed_def uniq_networks_def name_set_def Let_def
  by (auto split: prod.splits sum.splits)

lemma finish_reconcile_result:
  assumes "finalizer_util_ok F" and "finish_reconcile L F K pod del uniq h w = (r, w')"
  obtains (Kept) "requests w' = requests w" "r \<noteq> finished \<or> \<not> h \<and> (del \<longrightarrow> POD_FINALIZER \<notin> set (Finalizers (pod_meta pod)))"
  | (Removed) "del" "\<not> h" "POD_FINALIZER \<in> set (Finalizers (pod_meta pod))"
      "requests w' = requests w @ [UpdatePod (pod\<lparr>pod_meta := (pod_meta pod)\<lparr>
         Finalizers := filter (\<lambda>f. f \<noteq> POD_FINALIZER) (Finalizers (pod_meta pod))\<rparr>\<rparr>)]"
proof -
  have rem: "fu_Remove F fs f = (f \<in> set fs, filter (\<lambda>g. g \<noteq> f) fs)" for fs f
    using assms(1) by (simp add: finalizer_util_ok_def)
  show thesis
  proof (cases "del \<and> \<not> h \<and> POD_FINALIZER \<in> set (Finalizers (pod_meta pod))")
    case True
    obtain e w1 where wr: "write_api K (UpdatePod (pod\<lparr>pod_meta := (pod_meta pod)\<lparr>
         Finalizers := filter (\<lambda>f. f \<noteq> POD_FINALIZER) (Finalizers (pod_meta pod))\<rparr>\<rparr>)) w = (e, w1)"
      by fastforce
    then have "w' = w1" using assms(2) True
      by (auto simp: finish_reconcile_def rem Let_def split: option.splits)
    with True requests_write_api [OF wr] show thesis by (intro Removed) simp_all
  next
    case False
    with assms(2) have "requests w' = requests w \<and>
        (r \<noteq> finished \<or> \<not> h \<and> (del \<longrightarrow> POD_FINALIZER \<notin> set (Finalizers (pod_meta pod))))"
      by (auto simp: finish_reconcile_def rem Let_def split: if_splits)
    then show thesis by (intro Kept) simp_all
  qed
qed

lemma finish_reconcile_finished:
  assumes "lo_pkg_ok L" and "gm_ok uniq" and "finish_reconcile L F K pod del uniq h w = (finished, w')"
  shows "\<not> h \<and> (\<forall>k. gm_has uniq k \<longrightarrow> map_of uniq k = Some True)"
proof -
  have "lo_Contains (lo_bool L) (lo_MapToSlice L uniq (\<lambda>_ v. v)) False \<longleftrightarrow> (\<exists>k. map_of uniq k = Some False)"
    using assms(2) gm_ok_entry [OF assms(2)]
    by (force simp: lo_slice_okD(4) [OF lo_pkg_okD(3) [OF assms(1)]] lo_pkg_okD(7) [OF assms(1)] dest: map_of_SomeD)
  moreover have "\<not> h \<and> \<not> lo_Contains (lo_bool L) (lo_MapToSlice L uniq (\<lambda>_ v. v)) False"
    using assms(3) by (auto simp: finish_reconcile_def Let_def split: if_splits prod.splits)
  ultimately have "\<not> h" "\<nexists>k. map_of uniq k = Some False" by simp_all
  then show ?thesis by (metis (full_types) gm_has_def option.exhaust)
qed

lemma reconcile_listed_result:
  assumes lo: "lo_pkg_ok L" and fu: "finalizer_util_ok F"
  obtains uniq h w1 qs r w' where
    "reconcile_listed L F K pod items w = Returns (r, w')"
    "loop_post L pod
       (if DeletionTimestamp (pod_meta pod) \<noteq> None then [] else name_set L (annotation_list L pod POD_NETWORK_ROUTER_ANNOTATION))
       (annotation_list L pod POD_NETWORK_EXTRA_ROUTE_ANNOTATION)
       (annotation_list L pod POD_NETWORK_EXTRA_ROUTER_ANNOTATION) items
       (if DeletionTimestamp (pod_meta pod) \<noteq> None then [] else uniq_networks L pod) False w uniq h w1 qs"
    "finish_reconcile L F K pod (DeletionTimestamp (pod_meta pod) \<noteq> None) uniq h w1 = (r, w')"
    "\<exists>ps. requests w' = requests w @ qs @ ps \<and> (\<forall>q \<in> set ps. \<exists>p. q = UpdatePod p)"
proof -
  let ?del = "DeletionTimestamp (pod_meta pod) \<noteq> None"
  obtain uniq h w1 qs where run: "process_networks L K pod
       (if ?del then [] else name_set L (annotation_list L pod POD_NETWORK_ROUTER_ANNOTATION))
       (annotation_list L pod POD_NETWORK_EXTRA_ROUTE_ANNOTATION)
       (annotation_list L pod POD_NETWORK_EXTRA_ROUTER_ANNOTATION) items
       (if ?del then [] else uniq_networks L pod) False w = Returns (uniq, h, w1)"
    and post: "loop_post L pod
       (if ?del then [] else name_set L (annotation_list L pod POD_NETWORK_ROUTER_ANNOTATION))
       (annotation_list L pod POD_NETWORK_EXTRA_ROUTE_ANNOTATION)
       (annotation_list L pod POD_NETWORK_EXTRA_ROUTER_ANNOTATION) items
       (if ?del then [] else uniq_networks L pod) False w uniq h w1 qs"
    using process_networks_result [OF lo] by metis
  obtain r w' where fin: "finish_reconcile L F K pod ?del uniq h w1 = (r, w')"
    by (cases "finish_reconcile L F K pod ?del uniq h w1")
  have "\<exists>ps. requests w' = requests w1 @ ps \<and> (\<forall>q \<in> set ps. \<exists>p. q = UpdatePod p)"
    using fu fin by (rule finish_reconcile_result) auto
  with post have "\<exists>ps. requests w' = requests w @ qs @ ps \<and> (\<forall>q \<in> set ps. \<exists>p. q = UpdatePod p)"
    by (simp add: loop_post_def)
  with run fin post show thesis
    by (intro that [of r w' uniq h w1 qs]) (simp_all add: reconcile_listed_def Let_def)
qed

text \<open>For a deleted pod the loop is one release per listed network.\<close>

definition releases :: "lo_pkg \<Rightarrow> Pod \<Rightarrow> OverlayNetwork list \<Rightarrow> request list" where
  "releases L pod items = map (\<lambda>nw. UpdateNetworkStatus (deallocate_status L (init_optional nw) pod)) items"

lemma process_networks_deleted:
  "process_networks L K pod [] ens ers items [] h w =
     (case run_writes K (releases L pod items) w of
       (es, w') \<Rightarrow> Returns ([], h \<or> (\<exists>e \<in> set es. \<not> tolerated e), w'))"
proof (induction items arbitrary: h w)
  case (Cons item items)
  show ?case
    by (auto simp: Cons.IH releases_def deallocateIP_def push_status_eq gm_has_def Let_def tolerated_def
        split: prod.splits)
qed (simp add: releases_def)

section \<open>Sample data\<close>

definition demo_kube :: "Pod \<Rightarrow> OverlayNetwork list \<Rightarrow> unit kube" where
  "demo_kube pod items = \<lparr>kGetPod = (\<lambda>_ _ s. (Inr pod, s)),
     kGetNetwork = (\<lambda>_ _ s. (case items of [] \<Rightarrow> Inl NotFound | nw # _ \<Rightarrow> Inr nw, s)),
     kGetServiceAccount = (\<lambda>_ _ s. (Inl NotFound, s)), kGetSecret = (\<lambda>_ _ s. (Inl NotFound, s)),
     kGetRoleBinding = (\<lambda>_ _ s. (Inl NotFound, s)), kListNetworks = (\<lambda>_ s. (Inr items, s)),
     kWrite = (\<lambda>_ s. (None, s))\<rparr>"

definition demo_world :: "unit world" where
  "demo_world = \<lparr>env = (), requests = []\<rparr>"

definition demo_member :: Pod where
  "demo_member = (demo_pod ''p'')\<lparr>pod_meta := (demo_meta ''p'')\<lparr>
     Labels := [(POD_OVERLAY_LABEL, ''true'')], Finalizers := [POD_FINALIZER],
     Annotations := [(POD_NETWORK_ROUTER_ANNOTATION, ''net'')]\<rparr>\<rparr>"

definition demo_deleted :: Pod where
  "demo_deleted = demo_member\<lparr>pod_meta := (pod_meta demo_member)\<lparr>DeletionTimestamp := Some ''now''\<rparr>\<rparr>"

lemmas demo_cluster_defs = demo_kube_def demo_world_def demo_member_def demo_deleted_def
  POD_OVERLAY_LABEL_def POD_FINALIZER_def POD_NETWORK_ROUTER_ANNOTATION_def
  POD_NETWORK_MEMBER_ANNOTATION_def POD_NETWORK_EXTRA_ROUTE_ANNOTATION_def
  POD_NETWORK_EXTRA_ROUTER_ANNOTATION_def

lemma read_env_demo [simp]:
  "read_env (kGetPod (demo_kube pod items) ns n) demo_world = (Inr pod, demo_world)"
  "read_env (kListNetworks (demo_kube pod items) ns) demo_world = (Inr items, demo_world)"
  by (simp_all add: read_env_def demo_kube_def demo_world_def)

lemma demo_wants_sidecar [simp]: "wants_sidecar demo_member" "wants_sidecar demo_deleted"
  by (simp_all add: wants_sidecar_def demo_cluster_defs gm_get_def)

lemma demo_deleted_simps [simp]:
  "DeletionTimestamp (pod_meta demo_deleted) \<noteq> None" "DeletionTimestamp (pod_meta demo_member) = None"
  "Finalizers (pod_meta demo_deleted) = [POD_FINALIZER]"
  by (simp_all add: demo_cluster_defs demo_meta_def)

lemma demo_finished:
  "\<exists>w'. reconcile_pod lo_pkg_std finalizer_util_std (demo_kube demo_member [demo_network]) ''ns'' ''p'' demo_world
     = Returns (finished, w')"
  by (simp add: reconcile_pod_eq reconcile_listed_def)
    (simp add: uniq_networks_def name_set_def annotation_list_def names_for_def demo_cluster_defs allocate_eval gm_has_def
      allocateIP_def push_status_def write_api_def go_net_eval go_print_eval finish_reconcile_def)

section \<open>Properties\<close>

lemma reconcile_pod_cases:
  assumes "lo_pkg_ok L" and "finalizer_util_ok F"
  obtains (Quiet) r w' where "reconcile_pod L F K ns name w = Returns (r, w')" "requests w' = requests w"
  | (Listed) pod w1 items w2 where "read_env (kGetPod K ns name) w = (Inr pod, w1)" "wants_sidecar pod"
      "read_env (kListNetworks K (Namespace (pod_meta pod))) w1 = (Inr items, w2)"
      "reconcile_pod L F K ns name w = reconcile_listed L F K pod items w2" "requests w2 = requests w"
proof -
  obtain g w1 where g: "read_env (kGetPod K ns name) w = (g, w1)" by (cases "read_env (kGetPod K ns name) w")
  show thesis
  proof (cases g)
    case (Inl e)
    with g requests_read_env [OF g] show thesis
      by (intro Quiet [of "if IsNotFound e then finished else Failed e" w1]) (simp_all add: reconcile_pod_eq)
  next
    case (Inr pod)
    obtain l w2 where l: "read_env (kListNetworks K (Namespace (pod_meta pod))) w1 = (l, w2)"
      by (cases "read_env (kListNetworks K (Namespace (pod_meta pod))) w1")
    show thesis
    proof (cases "wants_sidecar pod")
      case False
      with g Inr requests_read_env [OF g] show thesis
        by (intro Quiet [of finished w1]) (simp_all add: reconcile_pod_eq)
    next
      case True
      with g Inr l requests_read_env [OF g] requests_read_env [OF l] show thesis
        by (cases l) (auto intro: Quiet Listed simp: reconcile_pod_eq)
    qed
  qed
qed

lemma read_env_InrD: "read_env f w = (r, w1) \<Longrightarrow> \<exists>s'. f (env w) = (r, s')"
  by (auto simp: read_env_def split: prod.splits)

text \<open>C5: reconciling a pod always ends, without a panic, with a result; if every network the API
  server lists is well formed, then every status the reconciler sends back is well formed
  again, and it sends nothing but network statuses and updates of the pod.\<close>

theorem reconcile_pod_sends_ok_status:
  assumes lo: "lo_pkg_ok L" and fu: "finalizer_util_ok F"
    and served: "\<And>ns s items s'. kListNetworks K ns s = (Inr items, s') \<Longrightarrow> \<forall>nw \<in> set items. status_ok nw"
  shows "\<exists>r w' qs. reconcile_pod L F K ns name w = Returns (r, w') \<and> requests w' = requests w @ qs \<and>
    (\<forall>q \<in> set qs. (\<exists>nw'. q = UpdateNetworkStatus nw' \<and> status_ok nw') \<or> (\<exists>p. q = UpdatePod p))"
  using lo fu
proof (cases rule: reconcile_pod_cases [of L F K ns name w])
  case (Quiet r w')
  then show ?thesis by fastforce
next
  case (Listed pod w1 items w2)
  from read_env_InrD [OF Listed(3)] served have items: "\<forall>nw \<in> set items. status_ok nw" by blast
  show ?thesis
  proof (rule reconcile_listed_result [OF lo fu, of K pod items w2], goal_cases)
    case (1 uniq h w3 qs r w')
    then obtain ps where ps: "requests w' = requests w @ qs @ ps" "\<forall>q \<in> set ps. \<exists>p. q = UpdatePod p"
      using Listed(5) by auto
    from 1(2) items have "\<forall>q \<in> set qs. \<exists>nw'. q = UpdateNetworkStatus nw' \<and> status_ok nw'"
      unfolding loop_post_def steps_from_def by (metis status_step_ok)
    with ps 1(1) Listed(4) show ?case by (intro exI [of _ r] exI [of _ w'] exI [of _ "qs @ ps"]) auto
  qed
qed

theorem reconcile_pod_sends_ok_status_witness:
  "\<exists>r w' qs. reconcile_pod lo_pkg_std finalizer_util_std (demo_kube demo_member [demo_network]) ''ns'' ''p''
      demo_world = Returns (r, w') \<and> requests w' = [] @ qs \<and>
    (\<forall>q \<in> set qs. (\<exists>nw'. q = UpdateNetworkStatus nw' \<and> status_ok nw') \<or> (\<exists>p. q = UpdatePod p))"
  using reconcile_pod_sends_ok_status [OF lo_pkg_std_ok finalizer_util_std_ok,
      of "demo_kube demo_member [demo_network]" "''ns''" "''p''" demo_world]
  by (simp add: demo_kube_def demo_status_ok demo_world_def)

definition drop_finalizer :: "Pod \<Rightarrow> Pod" where
  "drop_finalizer pod = pod\<lparr>pod_meta := (pod_meta pod)\<lparr>
     Finalizers := filter (\<lambda>f. f \<noteq> POD_FINALIZER) (Finalizers (pod_meta pod))\<rparr>\<rparr>"

text \<open>C6: a deleted pod keeps its finalizer until every address is given back. The reconciler
  first sends one release per listed network, in order; only if each of them succeeded (or its
  network was gone) does it send the pod without the finalizer, and nothing after that. If it
  reports that it is finished and the pod still had the finalizer, that update was sent.\<close>

theorem finalizer_removed_last:
  assumes "lo_pkg_ok L" and fu: "finalizer_util_ok F"
    and pod: "read_env (kGetPod K ns name) w = (Inr pod, w1)" "wants_sidecar pod"
      "DeletionTimestamp (pod_meta pod) \<noteq> None"
    and items: "read_env (kListNetworks K (Namespace (pod_meta pod))) w1 = (Inr items, w2)"
    and run: "reconcile_pod L F K ns name w = Returns (r, w')"
  shows "\<exists>qs. requests w' = requests w @ releases L pod items @ qs \<and>
    (qs = [] \<or> qs = [UpdatePod (drop_finalizer pod)] \<and>
       (\<forall>e \<in> set (fst (run_writes K (releases L pod items) w2)). tolerated e)) \<and>
    (r = finished \<and> POD_FINALIZER \<in> set (Finalizers (pod_meta pod)) \<longrightarrow> qs \<noteq> [])"
proof -
  obtain es w3 where es: "run_writes K (releases L pod items) w2 = (es, w3)"
    by (cases "run_writes K (releases L pod items) w2")
  have rq: "requests w3 = requests w @ releases L pod items"
    using requests_run_writes [of K "releases L pod items" w2] es requests_read_env [OF pod(1)]
      requests_read_env [OF items] by simp
  have fin: "finish_reconcile L F K pod True [] (\<exists>e \<in> set es. \<not> tolerated e) w3 = (r, w')"
    using run pod items by (simp add: reconcile_pod_eq reconcile_listed_def process_networks_deleted es)
  from fu fin show ?thesis
    by (cases rule: finish_reconcile_result) (auto simp: rq es drop_finalizer_def)
qed

theorem finalizer_removed_last_witness:
  "\<exists>r w' qs. reconcile_pod lo_pkg_std finalizer_util_std (demo_kube demo_deleted [demo_network1]) ''ns'' ''p''
       demo_world = Returns (r, w') \<and>
     requests w' = requests demo_world @ releases lo_pkg_std demo_deleted [demo_network1] @ qs"
proof -
  let ?K = "demo_kube demo_deleted [demo_network1]"
  obtain r w' where "reconcile_pod lo_pkg_std finalizer_util_std ?K ''ns'' ''p'' demo_world = Returns (r, w')"
    by (rule reconcile_pod_cases [OF lo_pkg_std_ok finalizer_util_std_ok, of ?K "''ns''" "''p''" demo_world])
      (use reconcile_listed_result [OF lo_pkg_std_ok finalizer_util_std_ok] in metis)+
  then show ?thesis
    using finalizer_removed_last [OF lo_pkg_std_ok finalizer_util_std_ok read_env_demo(1) demo_wants_sidecar(2)
        demo_deleted_simps(1) read_env_demo(2)] by blast
qed

text \<open>C15: \<open>finished\<close> means done. When the reconciler reports for a live pod with the overlay label that nothing is left to
  do, then every network the pod's annotations name was listed, and the reconciler sent for it
  a status in which the pod has an allocation and is a router exactly if it is annotated as one.\<close>

theorem finished_pod_is_served:
  assumes lo: "lo_pkg_ok L" and fu: "finalizer_util_ok F"
    and pod: "read_env (kGetPod K ns name) w = (Inr pod, w1)" "wants_sidecar pod"
      "DeletionTimestamp (pod_meta pod) = None"
    and items: "read_env (kListNetworks K (Namespace (pod_meta pod))) w1 = (Inr items, w2)"
    and run: "reconcile_pod L F K ns name w = Returns (finished, w')"
    and n: "n \<in> wanted_networks pod"
  shows "\<exists>nw \<in> set items. \<exists>nw' qs. nw_name nw = n \<and> nw_name nw' = n \<and> requests w' = requests w @ qs \<and>
    UpdateNetworkStatus nw' \<in> set qs \<and> pod_name pod \<in> PodName ` set (nw_allocs nw') \<and>
    (pod_name pod \<in> PodName ` set (nw_routers nw') \<longleftrightarrow> n \<in> set (annotation_list L pod POD_NETWORK_ROUTER_ANNOTATION))"
proof (rule reconcile_listed_result [OF lo fu, of K pod items w2], goal_cases)
  case (1 uniq h w3 qs r w4)
  let ?rs = "annotation_list L pod POD_NETWORK_ROUTER_ANNOTATION"
  have eq: "r = finished" "w4 = w'" using run pod items 1(1) by (simp_all add: reconcile_pod_eq)
  have u: "map_of (uniq_networks L pod) n = Some False" "gm_ok (uniq_networks L pod)"
    using n by (simp_all add: uniq_networks_get [OF lo])
  have post: "loop_post L pod (name_set L ?rs) (annotation_list L pod POD_NETWORK_EXTRA_ROUTE_ANNOTATION)
      (annotation_list L pod POD_NETWORK_EXTRA_ROUTER_ANNOTATION) items (uniq_networks L pod) False w2 uniq h w3 qs"
    using 1(2) pod(3) by simp
  have wanted: "gm_has (uniq_networks L pod) n" by (simp add: gm_has_def u(1))
  with post u(2) have "gm_ok uniq" "gm_has uniq n" by (simp_all add: loop_post_def)
  then have fin: "\<not> h" "map_of uniq n = Some True"
    using finish_reconcile_finished [OF lo _ 1(3) [unfolded eq]] by blast+
  then obtain nw where nw: "nw \<in> set items" "nw_name nw = n"
    using post u(1) unfolding loop_post_def by auto
  then obtain nw' where sent: "UpdateNetworkStatus nw' \<in> set qs"
    and ok: "allocate_status L (init_optional nw) pod (gm_has (name_set L ?rs) n)
        (names_for L (init_optional nw) (annotation_list L pod POD_NETWORK_EXTRA_ROUTE_ANNOTATION))
        (names_for L (init_optional nw) (annotation_list L pod POD_NETWORK_EXTRA_ROUTER_ANNOTATION)) = Returns (Inr nw')"
    using post fin(1) wanted unfolding loop_post_def served_def by fastforce
  have "gm_has (name_set L ?rs) n \<longleftrightarrow> n \<in> set ?rs" using map_of_name_set(1) [OF lo, of ?rs n] by (auto simp: gm_has_def split: if_splits)
  moreover have "nw_name nw' = n"
    using status_step_frame [OF status_step.allocate [OF lo ok]] nw(2) by simp
  moreover have "requests w2 = requests w"
    using requests_read_env [OF pod(1)] requests_read_env [OF items] by simp
  moreover have "pod_name pod \<in> PodName ` set (nw_allocs nw')"
      "pod_name pod \<in> PodName ` set (nw_routers nw') \<longleftrightarrow> gm_has (name_set L ?rs) n"
    using allocate_membership [OF lo ok] by (auto intro: rev_image_eqI)
  moreover obtain ps where "requests w' = requests w2 @ qs @ ps" using 1(4) eq(2) by blast
  ultimately show ?case
    using nw sent by (intro bexI [of _ nw] exI [of _ nw'] exI [of _ "qs @ ps"]) simp_all
qed

theorem finished_pod_is_served_witness:
  "\<exists>w' nw' qs. reconcile_pod lo_pkg_std finalizer_util_std (demo_kube demo_member [demo_network]) ''ns'' ''p'' demo_world
       = Returns (finished, w') \<and> requests w' = requests demo_world @ qs \<and> UpdateNetworkStatus nw' \<in> set qs \<and>
     ''p'' \<in> PodName ` set (nw_allocs nw')"
proof -
  obtain w' where run: "reconcile_pod lo_pkg_std finalizer_util_std (demo_kube demo_member [demo_network]) ''ns'' ''p''
      demo_world = Returns (finished, w')" using demo_finished by blast
  have n: "''net'' \<in> wanted_networks demo_member"
    by (simp add: wanted_networks_def demo_cluster_defs demo_defs gm_get_def)
  have "pod_name demo_member = ''p''" by (simp add: demo_member_def demo_meta_def)
  with finished_pod_is_served [OF lo_pkg_std_ok finalizer_util_std_ok read_env_demo(1) demo_wants_sidecar(1)
      demo_deleted_simps(2) read_env_demo(2) run n] run
  show ?thesis by auto
qed

text \<open>A pod without the label \<open>true\<close> is none of the controller's business: nothing is sent and
  nothing is retried.\<close>

lemma unlabelled_pod_untouched:
  assumes "read_env (kGetPod K ns name) w = (Inr pod, w1)"
    and "gm_get (Labels (pod_meta pod)) POD_OVERLAY_LABEL '''' \<noteq> ''true''"
  shows "\<exists>w'. reconcile_pod L F K ns name w = Returns (finished, w') \<and> requests w' = requests w"
  using assms requests_read_env [OF assms(1)] by (simp add: reconcile_pod_eq wants_sidecar_def)

end
