(* ===== verification/OverlayNetworkController.thy ===== *)
theory OverlayNetworkController
  imports External
begin

text \<open>
  The reconciler of the networks (\<open>controllers/overlaynetwork_controller.go\<close>): it puts a
  finalizer on every live network and takes it off a deleted one once its status holds no
  allocations, so that a network outlives its members.
\<close>

section \<open>The reconciler\<close>

definition with_finalizers :: "OverlayNetwork \<Rightarrow> string list \<Rightarrow> OverlayNetwork" where
  "with_finalizers nw fs = nw\<lparr>nw_meta := (nw_meta nw)\<lparr>Finalizers := fs\<rparr>\<rparr>"

definition handleDeletion ::
  "finalizer_util \<Rightarrow> 's kube \<Rightarrow> OverlayNetwork \<Rightarrow> 's world \<Rightarrow> ctrl_result \<times> 's world" where
  "handleDeletion F K nw w =
     (if \<not> fu_Contains F (Finalizers (nw_meta nw)) OVERLAY_NETWORK_FINALIZER then (finished, w)
      else if length (Allocations (nw_Status nw)) = 0 then
        (case fu_Remove F (Finalizers (nw_meta nw)) OVERLAY_NETWORK_FINALIZER of
           (True, fs) \<Rightarrow>
             (case write_api K (UpdateNetwork (with_finalizers nw fs)) w of
                (None, w) \<Rightarrow> (finished, w)
              | (Some err, w) \<Rightarrow> (if IsNotFound err then finished else Failed err, w))
         | (False, _) \<Rightarrow> (finished, w))
      else (finished, w))"

definition reconcile_network ::
  "finalizer_util \<Rightarrow> 's kube \<Rightarrow> string \<Rightarrow> string \<Rightarrow> 's world \<Rightarrow> ctrl_result \<times> 's world" where
  "reconcile_network F K ns name w =
     (case read_env (kGetNetwork K ns name) w of
       (Inl err, w) \<Rightarrow> (if IsNotFound err then finished else Failed err, w)
     | (Inr nw, w) \<Rightarrow>
         if DeletionTimestamp (nw_meta nw) \<noteq> None then handleDeletion F K nw w
         else (case fu_Add F (Finalizers (nw_meta nw)) OVERLAY_NETWORK_FINALIZER of
             (True, fs) \<Rightarrow>
               (case write_api K (UpdateNetwork (with_finalizers nw fs)) w of
                  (None, w) \<Rightarrow> (finished, w)
                | (Some err, w) \<Rightarrow> (if \<not> IsNotFound err then Failed err else finished, w))
           | (False, _) \<Rightarrow> (finished, w)))"

section \<open>The update it decides on\<close>

text \<open>The reconciler as a function of the network: the object to store, if any.\<close>

definition network_update :: "OverlayNetwork \<Rightarrow> OverlayNetwork option" where
  "network_update nw =
     (let fs = Finalizers (nw_meta nw); present = OVERLAY_NETWORK_FINALIZER \<in> set fs
      in if DeletionTimestamp (nw_meta nw) = None
         then (if present then None else Some (with_finalizers nw (fs @ [OVERLAY_NETWORK_FINALIZER])))
         else if present \<and> Allocations (nw_Status nw) = []
         then Some (with_finalizers nw (filter (\<lambda>f. f \<noteq> OVERLAY_NETWORK_FINALIZER) fs))
         else None)"

lemma with_finalizers_simps [simp]:
  "nw_Status (with_finalizers nw fs) = nw_Status nw" "nw_Spec (with_finalizers nw fs) = nw_Spec nw"
  "nw_meta (with_finalizers nw fs) = (nw_meta nw)\<lparr>Finalizers := fs\<rparr>"
  by (simp_all add: with_finalizers_def)

lemma network_update_idem: "network_update nw = Some nw' \<Longrightarrow> network_update nw' = None"
  by (auto simp: network_update_def Let_def split: if_splits)

lemma network_update_frame:
  "network_update nw = Some nw' \<Longrightarrow> nw_Status nw' = nw_Status nw \<and> nw_Spec nw' = nw_Spec nw \<and>
     (DeletionTimestamp (nw_meta nw') = DeletionTimestamp (nw_meta nw))"
  by (auto simp: network_update_def Let_def split: if_splits)

definition answer :: "api_error option \<Rightarrow> ctrl_result" where
  "answer e = (case e of None \<Rightarrow> finished | Some err \<Rightarrow> if IsNotFound err then finished else Failed err)"

lemma reconcile_network_eq:
  assumes "finalizer_util_ok F"
  shows "reconcile_network F K ns name w =
     (case read_env (kGetNetwork K ns name) w of
       (Inl err, w) \<Rightarrow> (answer (Some err), w)
     | (Inr nw, w) \<Rightarrow>
         (case network_update nw of None \<Rightarrow> (finished, w)
          | Some nw' \<Rightarrow> (case write_api K (UpdateNetwork nw') w of (e, w) \<Rightarrow> (answer e, w))))"
proof -
  have F: "fu_Contains F fs f \<longleftrightarrow> f \<in> set fs"
    "fu_Add F fs f = (if f \<in> set fs then (False, fs) else (True, fs @ [f]))"
    "fu_Remove F fs f = (f \<in> set fs, filter (\<lambda>g. g \<noteq> f) fs)" for fs f
    using assms by (simp_all add: finalizer_util_ok_def)
  show ?thesis
    by (auto simp: reconcile_network_def handleDeletion_def network_update_def answer_def F Let_def
        split: prod.splits sum.splits option.splits)
qed

section \<open>What it sends\<close>

text \<open>An API server that stores one network and does what it is asked.\<close>

definition one_network :: "OverlayNetwork kube" where
  "one_network = \<lparr>kGetPod = (\<lambda>_ _ s. (Inl NotFound, s)), kGetNetwork = (\<lambda>_ _ s. (Inr s, s)),
     kGetServiceAccount = (\<lambda>_ _ s. (Inl NotFound, s)), kGetSecret = (\<lambda>_ _ s. (Inl NotFound, s)),
     kGetRoleBinding = (\<lambda>_ _ s. (Inl NotFound, s)), kListNetworks = (\<lambda>_ s. (Inr [s], s)),
     kWrite = (\<lambda>q s. (None, case q of UpdateNetwork nw \<Rightarrow> nw | _ \<Rightarrow> s))\<rparr>"

text \<open>The updates that the reconciler, run as it is, sends when it is served the network \<open>nw\<close>.\<close>

definition operator_sends :: "finalizer_util \<Rightarrow> OverlayNetwork \<Rightarrow> OverlayNetwork \<Rightarrow> bool" where
  "operator_sends F nw nw' \<longleftrightarrow> UpdateNetwork nw' \<in>
     set (requests (snd (reconcile_network F one_network (Namespace (nw_meta nw)) (Name (nw_meta nw)) \<lparr>env = nw, requests = []\<rparr>)))"

lemma operator_sends_iff:
  assumes "finalizer_util_ok F"
  shows "operator_sends F nw nw' \<longleftrightarrow> network_update nw = Some nw'"
  by (auto simp: operator_sends_def reconcile_network_eq [OF assms] read_env_def write_api_def one_network_def split: option.splits)

section \<open>Properties\<close>

definition demo_overlay :: "string option \<Rightarrow> string list \<Rightarrow> OverlayNetwork" where
  "demo_overlay deleted fs = \<lparr>nw_meta = \<lparr>Name = ''net'', Namespace = ''ns'', ResourceVersion = ''1'',
       DeletionTimestamp = deleted, Finalizers = fs, Labels = [], Annotations = []\<rparr>,
     nw_Spec = \<lparr>AllocatableCIDR = ''10.0.0.0/24'', Port = 5555, RoutableCIDRs = [], OptionalRoutes = [],
       ServiceNames = []\<rparr>,
     nw_Status = \<lparr>Allocations = [], Routers = [], OptionalRouters = None\<rparr>\<rparr>"

text \<open>C20: a network is protected while it has members. One reconciliation of a network sends nothing if the
  network is live and has the finalizer of the operator, or is deleted and lacks it or has allocations left.
  Otherwise it sends one update of the network in which nothing but the list of finalizers differs: on
  a live network the finalizer of the operator is appended; on a deleted one without allocations it is
  taken out and all others stay, in order. An API error other than not found is passed on, so
  that it is retried.\<close>

theorem network_finalizer_guard:
  assumes fu: "finalizer_util_ok F"
    and got: "read_env (kGetNetwork K ns name) w = (Inr nw, w1)"
    and run: "reconcile_network F K ns name w = (r, w')"
  shows "if (if DeletionTimestamp (nw_meta nw) = None then OVERLAY_NETWORK_FINALIZER \<in> set (Finalizers (nw_meta nw))
        else OVERLAY_NETWORK_FINALIZER \<notin> set (Finalizers (nw_meta nw)) \<or> Allocations (nw_Status nw) \<noteq> [])
    then requests w' = requests w \<and> r = finished
    else \<exists>nw' e w2. requests w' = requests w @ [UpdateNetwork nw'] \<and>
       nw' = nw\<lparr>nw_meta := (nw_meta nw)\<lparr>Finalizers :=
         (if DeletionTimestamp (nw_meta nw) = None then Finalizers (nw_meta nw) @ [OVERLAY_NETWORK_FINALIZER]
          else filter (\<lambda>f. f \<noteq> OVERLAY_NETWORK_FINALIZER) (Finalizers (nw_meta nw)))\<rparr>\<rparr> \<and>
       write_api K (UpdateNetwork nw') w1 = (e, w2) \<and>
       r = (case e of None \<Rightarrow> finished | Some err \<Rightarrow> if err = NotFound then finished else Failed err)"
    (is "if ?quiet then _ else \<exists>nw' e w2. _ \<and> nw' = ?nw \<and> _ \<and> _")
proof (cases ?quiet)
  case True
  then have "network_update nw = None" by (auto simp: network_update_def Let_def split: if_splits)
  with got run requests_read_env [OF got] True show ?thesis by (simp add: reconcile_network_eq [OF fu])
next
  case False
  then have up: "network_update nw = Some ?nw" by (auto simp: network_update_def with_finalizers_def Let_def split: if_splits)
  obtain e w2 where wr: "write_api K (UpdateNetwork ?nw) w1 = (e, w2)" by fastforce
  have "r = answer e" "w' = w2" using run got up wr by (simp_all add: reconcile_network_eq [OF fu])
  moreover have "requests w2 = requests w @ [UpdateNetwork ?nw]"
    using requests_write_api [OF wr] requests_read_env [OF got] by simp
  ultimately show ?thesis
    using wr unfolding if_not_P [OF False] by (intro exI [of _ ?nw] exI [of _ e] exI [of _ w2]) (auto simp: answer_def IsNotFound_def split: option.splits)
qed

theorem network_finalizer_guard_witness:
  "\<exists>r w'. reconcile_network finalizer_util_std one_network ''ns'' ''net''
       \<lparr>env = demo_overlay (Some ''now'') [''keep'', OVERLAY_NETWORK_FINALIZER], requests = []\<rparr> = (r, w') \<and>
     requests w' = [UpdateNetwork (demo_overlay (Some ''now'') [''keep''])]"
proof -
  let ?nw = "demo_overlay (Some ''now'') [''keep'', OVERLAY_NETWORK_FINALIZER]"
  let ?w = "\<lparr>env = ?nw, requests = []\<rparr>"
  have got: "read_env (kGetNetwork one_network ''ns'' ''net'') ?w = (Inr ?nw, ?w)"
    by (simp add: read_env_def one_network_def)
  obtain r w' where run: "reconcile_network finalizer_util_std one_network ''ns'' ''net'' ?w = (r, w')" by fastforce
  from network_finalizer_guard [OF finalizer_util_std_ok got run] run show ?thesis
    by (simp add: demo_overlay_def OVERLAY_NETWORK_FINALIZER_def)
qed

text \<open>One reconciliation is enough. If the API server stores the update the reconciler sends and
  serves it back, the next reconciliation of the network has nothing to send.\<close>

lemma network_reconcile_converges:
  assumes fu: "finalizer_util_ok F"
    and got: "read_env (kGetNetwork K ns name) w = (Inr nw, w1)"
    and run: "reconcile_network F K ns name w = (r, w')"
    and stored: "\<And>nw'. requests w' = requests w @ [UpdateNetwork nw'] \<Longrightarrow>
      fst (kGetNetwork K ns name (env w')) = Inr nw'"
    and kept: "requests w' = requests w \<Longrightarrow> fst (kGetNetwork K ns name (env w')) = Inr nw"
    and again: "reconcile_network F K ns name w' = (r2, w2)"
  shows "r2 = finished \<and> requests w2 = requests w'"
proof -
  obtain g w3 where g: "read_env (kGetNetwork K ns name) w' = (g, w3)" by (cases "read_env (kGetNetwork K ns name) w'")
  then have fst: "fst (kGetNetwork K ns name (env w')) = g" by (auto simp: read_env_def split: prod.splits)
  have "\<exists>nw2. g = Inr nw2 \<and> network_update nw2 = None"
  proof (cases "network_update nw")
    case None
    then have "requests w' = requests w"
      using run got requests_read_env [OF got] by (simp add: reconcile_network_eq [OF fu])
    with kept fst None show ?thesis by auto
  next
    case (Some nw')
    obtain e w2 where wr: "write_api K (UpdateNetwork nw') w1 = (e, w2)" by (cases "write_api K (UpdateNetwork nw') w1")
    with run got Some requests_write_api [OF wr] requests_read_env [OF got]
    have "requests w' = requests w @ [UpdateNetwork nw']" by (simp add: reconcile_network_eq [OF fu])
    with stored fst network_update_idem [OF Some] show ?thesis by auto
  qed
  with again g requests_read_env [OF g] show ?thesis by (auto simp: reconcile_network_eq [OF fu])
qed

end
