(* ===== verification/Admission.thy ===== *)
theory Admission
  imports External
begin

text \<open>
  What the two admission webhooks share: requests, responses, and the decoder of
  controller-runtime, which is a parameter. \<open>'raw\<close> is the type of raw JSON objects. An error
  of Go's type \<open>error\<close> is its text. The locale at the end is the contract of a validating
  webhook: what it accepts on creation is good, and updates keep it so.
\<close>

datatype operation = Create | Update | Delete | Connect

record 'raw admission_request =
  req_Operation :: operation
  req_Namespace :: string
  req_Object :: 'raw
  req_OldObject :: 'raw

record ('raw, 'obj) decoder =
  Decode :: "'raw admission_request \<Rightarrow> string + 'obj"
  DecodeRaw :: "'raw \<Rightarrow> string + 'obj"

datatype 'raw response =
    Allowed string
  | Denied string
  | Errored int string
  | PatchResponseFromRaw 'raw 'raw

definition StatusBadRequest :: int where "StatusBadRequest = 400"
definition StatusPreconditionFailed :: int where "StatusPreconditionFailed = 412"
definition StatusInternalServerError :: int where "StatusInternalServerError = 500"

locale admission_policy =
  fixes accepts_new :: "'o \<Rightarrow> bool"
    and accepts_update :: "'o \<Rightarrow> 'o \<Rightarrow> bool"
    and good :: "'o \<Rightarrow> bool"
    and frozen :: "'o \<Rightarrow> 'f"
  assumes new_good: "accepts_new x \<Longrightarrow> good x"
    and update_good: "accepts_update x y \<Longrightarrow> good x \<Longrightarrow> good y"
    and update_frozen: "accepts_update x y \<Longrightarrow> frozen y = frozen x"
begin

lemma history_good: "accepts_new x \<Longrightarrow> accepts_update\<^sup>*\<^sup>* x y \<Longrightarrow> good y"
  by (rotate_tac 1, induction rule: rtranclp_induct) (auto intro: new_good update_good)

lemma history_frozen: "accepts_update\<^sup>*\<^sup>* x y \<Longrightarrow> frozen y = frozen x"
  by (induction rule: rtranclp_induct) (auto dest: update_frozen)

end

end
