(* ===== verification/OverlayNetworkValidator.thy ===== *)
theory OverlayNetworkValidator
  imports GoNet Admission
begin

text \<open>
  The validating webhook of the networks (\<open>webhooks/validating.go\<close>): port and CIDRs must be
  valid when a network is created, port and allocatable CIDR never change afterwards.
\<close>

section \<open>The webhook\<close>

definition quoted_cidr_error :: "string \<Rightarrow> string \<Rightarrow> string" where
  "quoted_cidr_error field v = field @ v @ '' is invalid, must be in CIDR notation''"

text \<open>The two blocks on the operation; each denies the request early or goes on.\<close>

definition check_create :: "OverlayNetworkSpec \<Rightarrow> 'raw response option" where
  "check_create spec =
     (if Port spec \<le> 0 \<or> 65535 < Port spec then Some (Denied ''.spec.port must be between 1 and 65535'')
      else if ParseCIDR (AllocatableCIDR spec) = None
      then Some (Denied (quoted_cidr_error ''.spec.allocatableCIDR '' (AllocatableCIDR spec)))
      else None)"

definition check_update ::
  "('raw, OverlayNetwork) decoder \<Rightarrow> 'raw admission_request \<Rightarrow> OverlayNetworkSpec \<Rightarrow> 'raw response option" where
  "check_update D req spec =
     (case DecodeRaw D (req_OldObject req) of
       Inl err \<Rightarrow> Some (Errored StatusBadRequest err)
     | Inr nwOld \<Rightarrow>
         if Port (nw_Spec nwOld) \<noteq> Port spec then Some (Denied ''.spec.port is immutable'')
         else if AllocatableCIDR (nw_Spec nwOld) \<noteq> AllocatableCIDR spec
         then Some (Denied ''.spec.allocatableCIDR is immutable'')
         else None)"

definition check_routable :: "string lo_slice \<Rightarrow> OverlayNetworkSpec \<Rightarrow> 'raw response" where
  "check_routable L spec =
     (case lo_FindIndexOf L (RoutableCIDRs spec) (\<lambda>s. ParseCIDR s = None) of
       Some (invalid, invalidIndex) \<Rightarrow>
         Denied (quoted_cidr_error (''.spec.routableCIDRs['' @ itoa invalidIndex @ '']: '') invalid)
     | None \<Rightarrow> Allowed ''ok'')"

definition validator_Handle ::
  "string lo_slice \<Rightarrow> ('raw, OverlayNetwork) decoder \<Rightarrow> 'raw admission_request \<Rightarrow> 'raw response" where
  "validator_Handle L D req =
     (case Decode D req of
       Inl err \<Rightarrow> Errored StatusBadRequest err
     | Inr nw \<Rightarrow>
         (case (if req_Operation req = Create then check_create (nw_Spec nw) else None) of
           Some denied \<Rightarrow> denied
         | None \<Rightarrow>
             (case (if req_Operation req = Update then check_update D req (nw_Spec nw) else None) of
               Some denied \<Rightarrow> denied
             | None \<Rightarrow> check_routable L (nw_Spec nw))))"

section \<open>What it accepts\<close>

definition accepted :: "'raw response \<Rightarrow> bool" where
  "accepted r \<longleftrightarrow> (case r of Allowed _ \<Rightarrow> True | PatchResponseFromRaw _ _ \<Rightarrow> True | _ \<Rightarrow> False)"

definition routable_ok :: "OverlayNetworkSpec \<Rightarrow> bool" where
  "routable_ok spec \<longleftrightarrow> (\<forall>s \<in> set (RoutableCIDRs spec). ParseCIDR s \<noteq> None)"

definition valid_spec :: "OverlayNetworkSpec \<Rightarrow> bool" where
  "valid_spec spec \<longleftrightarrow> 0 < Port spec \<and> Port spec \<le> 65535 \<and> ParseCIDR (AllocatableCIDR spec) \<noteq> None \<and> routable_ok spec"

definition fixed_part :: "OverlayNetworkSpec \<Rightarrow> int \<times> string" where
  "fixed_part spec = (Port spec, AllocatableCIDR spec)"

lemma check_routable_accepted: "lo_slice_ok L \<Longrightarrow> accepted (check_routable L spec) \<longleftrightarrow> routable_ok spec"
  using lo_slice_okD(7) [of L "RoutableCIDRs spec" "\<lambda>s. ParseCIDR s = None"]
  by (auto simp: check_routable_def routable_ok_def accepted_def split: option.splits)

lemma check_create_accepted:
  "(case check_create spec of Some r \<Rightarrow> accepted r | None \<Rightarrow> b) \<longleftrightarrow>
     0 < Port spec \<and> Port spec \<le> 65535 \<and> ParseCIDR (AllocatableCIDR spec) \<noteq> None \<and> b"
  by (auto simp: check_create_def accepted_def)

lemma check_update_accepted:
  "(case check_update D req spec of Some r \<Rightarrow> accepted r | None \<Rightarrow> b) \<longleftrightarrow>
     (\<exists>nwOld. DecodeRaw D (req_OldObject req) = Inr nwOld \<and> fixed_part (nw_Spec nwOld) = fixed_part spec) \<and> b"
  by (auto simp: check_update_def accepted_def fixed_part_def split: sum.splits)

lemma validator_accepted_iff:
  fixes D :: "('raw, OverlayNetwork) decoder"
  assumes "lo_slice_ok L"
  shows "accepted (validator_Handle L D req) \<longleftrightarrow>
    (\<exists>nw. Decode D req = Inr nw \<and> routable_ok (nw_Spec nw) \<and>
      (req_Operation req = Create \<longrightarrow> valid_spec (nw_Spec nw)) \<and>
      (req_Operation req = Update \<longrightarrow>
         (\<exists>nwOld. DecodeRaw D (req_OldObject req) = Inr nwOld \<and> fixed_part (nw_Spec nwOld) = fixed_part (nw_Spec nw))))"
proof (cases "Decode D req")
  case (Inl e)
  then show ?thesis by (simp add: validator_Handle_def accepted_def)
next
  case (Inr nw)
  show ?thesis
  proof (cases "req_Operation req")
    case Create
    with Inr check_create_accepted [where ?'a = 'raw, of "routable_ok (nw_Spec nw)" "nw_Spec nw"] show ?thesis
      by (auto simp: validator_Handle_def check_routable_accepted [OF assms] valid_spec_def split: option.splits)
  next
    case Update
    with Inr check_update_accepted [of "routable_ok (nw_Spec nw)" D req "nw_Spec nw"] show ?thesis
      by (auto simp: validator_Handle_def check_routable_accepted [OF assms] split: option.splits)
  qed (use Inr in \<open>simp_all add: validator_Handle_def check_routable_accepted [OF assms]\<close>)
qed

section \<open>Histories of a stored network\<close>

text \<open>A creation and an update as the API server submits them, for a decoder that reads an object
  back as it was stored (\<open>enc\<close> is the encoding).\<close>

definition decodes :: "('raw, 'obj) decoder \<Rightarrow> ('obj \<Rightarrow> 'raw) \<Rightarrow> bool" where
  "decodes D enc \<longleftrightarrow> (\<forall>obj. DecodeRaw D (enc obj) = Inr obj) \<and> (\<forall>req. Decode D req = DecodeRaw D (req_Object req))"

definition create_request :: "(OverlayNetwork \<Rightarrow> 'raw) \<Rightarrow> string \<Rightarrow> OverlayNetwork \<Rightarrow> 'raw admission_request" where
  "create_request enc ns nw =
     \<lparr>req_Operation = Create, req_Namespace = ns, req_Object = enc nw, req_OldObject = enc nw\<rparr>"

definition update_request ::
  "(OverlayNetwork \<Rightarrow> 'raw) \<Rightarrow> string \<Rightarrow> OverlayNetwork \<Rightarrow> OverlayNetwork \<Rightarrow> 'raw admission_request" where
  "update_request enc ns old nw =
     \<lparr>req_Operation = Update, req_Namespace = ns, req_Object = enc nw, req_OldObject = enc old\<rparr>"

definition admits_new ::
  "string lo_slice \<Rightarrow> ('raw, OverlayNetwork) decoder \<Rightarrow> (OverlayNetwork \<Rightarrow> 'raw) \<Rightarrow> OverlayNetwork \<Rightarrow> bool" where
  "admits_new L D enc nw \<longleftrightarrow> lo_slice_ok L \<and> decodes D enc \<and>
     (\<exists>ns. accepted (validator_Handle L D (create_request enc ns nw)))"

definition admits_update ::
  "string lo_slice \<Rightarrow> ('raw, OverlayNetwork) decoder \<Rightarrow> (OverlayNetwork \<Rightarrow> 'raw) \<Rightarrow> OverlayNetwork \<Rightarrow> OverlayNetwork \<Rightarrow> bool" where
  "admits_update L D enc old nw \<longleftrightarrow> lo_slice_ok L \<and> decodes D enc \<and>
     (\<exists>ns. accepted (validator_Handle L D (update_request enc ns old nw)))"

lemma admits_new_iff:
  "admits_new L D enc nw \<longleftrightarrow> lo_slice_ok L \<and> decodes D enc \<and> valid_spec (nw_Spec nw)"
  by (auto simp: admits_new_def validator_accepted_iff decodes_def create_request_def valid_spec_def)

lemma admits_update_iff:
  "admits_update L D enc old nw \<longleftrightarrow> lo_slice_ok L \<and> decodes D enc \<and> routable_ok (nw_Spec nw) \<and>
     fixed_part (nw_Spec nw) = fixed_part (nw_Spec old)"
  by (auto simp: admits_update_def validator_accepted_iff decodes_def update_request_def)

interpretation network_policy:
  admission_policy "admits_new L D enc" "admits_update L D enc" "\<lambda>nw. valid_spec (nw_Spec nw)" "\<lambda>nw. fixed_part (nw_Spec nw)"
  for L D enc
  by unfold_locales (auto simp: admits_new_iff admits_update_iff valid_spec_def fixed_part_def)

section \<open>Properties\<close>

definition demo_decoder :: "(OverlayNetwork, OverlayNetwork) decoder" where
  "demo_decoder = \<lparr>Decode = (\<lambda>req. Inr (req_Object req)), DecodeRaw = Inr\<rparr>"

definition demo_spec :: "string list \<Rightarrow> OverlayNetworkSpec" where
  "demo_spec rs = \<lparr>AllocatableCIDR = ''10.0.0.0/24'', Port = 5555, RoutableCIDRs = rs, OptionalRoutes = [],
     ServiceNames = []\<rparr>"

definition demo_nw :: "string list \<Rightarrow> OverlayNetwork" where
  "demo_nw rs = \<lparr>nw_meta = \<lparr>Name = ''net'', Namespace = ''ns'', ResourceVersion = ''1'',
       DeletionTimestamp = None, Finalizers = [], Labels = [], Annotations = []\<rparr>,
     nw_Spec = demo_spec rs, nw_Status = \<lparr>Allocations = [], Routers = [], OptionalRouters = None\<rparr>\<rparr>"

lemma demo_decodes [simp]: "decodes demo_decoder id"
  by (simp add: decodes_def demo_decoder_def)

lemma demo_cidr [simp]: "ParseCIDR ''10.0.0.0/24'' \<noteq> None"
  by (simp add: go_net_eval)

lemma demo_spec_valid [simp]: "valid_spec (nw_Spec (demo_nw [])) " "valid_spec (nw_Spec (demo_nw [''10.0.0.0/24'']))"
  using demo_cidr by (simp_all add: valid_spec_def demo_nw_def demo_spec_def routable_ok_def)

text \<open>C19: what the validator accepts. A request is accepted if and only if its object decodes, all routable
  CIDRs parse, and: a creation has a port from 1 to 65535 and an allocatable CIDR that parses; an
  update has an old object that decodes and has the same port and the same allocatable CIDR. A request that does not decode
  is never accepted, and nothing else is looked at: not the CIDRs of \<open>optionalRoutes\<close>, in
  particular.\<close>

theorem validator_decision:
  assumes "lo_slice_ok L"
  shows "accepted (validator_Handle L D req) \<longleftrightarrow> (\<exists>nw. Decode D req = Inr nw \<and>
    (\<forall>s \<in> set (RoutableCIDRs (nw_Spec nw)). ParseCIDR s \<noteq> None) \<and>
    (req_Operation req = Create \<longrightarrow>
       1 \<le> Port (nw_Spec nw) \<and> Port (nw_Spec nw) \<le> 65535 \<and> ParseCIDR (AllocatableCIDR (nw_Spec nw)) \<noteq> None) \<and>
    (req_Operation req = Update \<longrightarrow> (\<exists>old. DecodeRaw D (req_OldObject req) = Inr old \<and>
       Port (nw_Spec old) = Port (nw_Spec nw) \<and> AllocatableCIDR (nw_Spec old) = AllocatableCIDR (nw_Spec nw))))"
  by (auto simp: validator_accepted_iff [OF assms] valid_spec_def routable_ok_def fixed_part_def)

text \<open>A network without routable CIDRs may be created, one with port 0 may not.\<close>

theorem validator_decision_witness:
  "accepted (validator_Handle lo_std demo_decoder (create_request id ''ns'' (demo_nw []))) \<and>
   \<not> accepted (validator_Handle lo_std demo_decoder (create_request id ''ns''
       ((demo_nw [])\<lparr>nw_Spec := (demo_spec [])\<lparr>Port := 0\<rparr>\<rparr>)))"
  by (simp add: validator_decision [OF lo_std_ok] demo_decoder_def create_request_def demo_nw_def demo_spec_def)
    (simp add: go_net_eval)

text \<open>A stored network stays valid. Whatever updates are accepted after an accepted creation, the
  port is a valid UDP port, the allocatable CIDR and the routable CIDRs parse, and port and
  allocatable CIDR are those of the creation.\<close>

lemma stored_network_stays_valid:
  assumes "admits_new L D enc nw" and "(admits_update L D enc)\<^sup>*\<^sup>* nw nw'"
  shows "1 \<le> Port (nw_Spec nw') \<and> Port (nw_Spec nw') \<le> 65535 \<and> ParseCIDR (AllocatableCIDR (nw_Spec nw')) \<noteq> None \<and>
    (\<forall>s \<in> set (RoutableCIDRs (nw_Spec nw')). ParseCIDR s \<noteq> None) \<and>
    Port (nw_Spec nw') = Port (nw_Spec nw) \<and> AllocatableCIDR (nw_Spec nw') = AllocatableCIDR (nw_Spec nw)"
  using network_policy.history_good [OF assms] network_policy.history_frozen [OF assms(2)]
  by (auto simp: valid_spec_def routable_ok_def fixed_part_def)

text \<open>The message names the first offender. If an update that keeps port and allocatable CIDR is
  denied, the message gives the index and the text of the first routable CIDR that does not parse.\<close>

lemma denial_names_first_invalid_route:
  fixes D :: "('raw, OverlayNetwork) decoder"
  assumes lo: "lo_slice_ok L" and d: "decodes D enc"
    and same: "fixed_part (nw_Spec nw) = fixed_part (nw_Spec old)"
    and run: "validator_Handle L D (update_request enc ns old nw) = Denied m"
  shows "\<exists>i < length (RoutableCIDRs (nw_Spec nw)).
    ParseCIDR (RoutableCIDRs (nw_Spec nw) ! i) = None \<and>
    (\<forall>j < i. ParseCIDR (RoutableCIDRs (nw_Spec nw) ! j) \<noteq> None) \<and>
    m = ''.spec.routableCIDRs['' @ itoa i @ '']: '' @ RoutableCIDRs (nw_Spec nw) ! i @
        '' is invalid, must be in CIDR notation''"
proof -
  have "check_routable L (nw_Spec nw) = (Denied m :: 'raw response)"
    using d run same
    by (auto simp: validator_Handle_def decodes_def update_request_def check_update_def fixed_part_def split: if_splits)
  then obtain s i where f: "lo_FindIndexOf L (RoutableCIDRs (nw_Spec nw)) (\<lambda>s. ParseCIDR s = None) = Some (s, i)"
    and m: "m = quoted_cidr_error (''.spec.routableCIDRs['' @ itoa i @ '']: '') s"
    by (auto simp: check_routable_def split: option.splits)
  from lo_FindIndexOf_SomeD [OF lo f] m show ?thesis
    by (intro exI [of _ i]) (auto simp: quoted_cidr_error_def)
qed

end
