(* ===== verification/Cluster.thy ===== *)
theory Cluster
  imports PodReconcile OverlayNetworkController OverlayNetworkValidator
begin

text \<open>
  The controllers and the webhook on one network of a cluster. Every writer works on a version of the
  network that it read at some earlier time, so several pod reconcilers, the network reconciler and
  users act at once. The API server is a parameter: it decides on every write and makes the next
  version. \<open>api_server_ok\<close> states what Kubernetes documents of it: a write with an outdated
  resource version is refused, a status update changes only the status and any other update
  everything but the status, every accepted write gets a new resource version, and a deleted object
  disappears when its last finalizer is removed.
\<close>

section \<open>Addresses of the pool\<close>

definition in_pool :: "OverlayNetworkSpec \<Rightarrow> string \<Rightarrow> bool" where
  "in_pool spec s \<longleftrightarrow> (\<exists>ip0 net ip. ParseCIDR (AllocatableCIDR spec) = Some (ip0, net) \<and> Contains net ip \<and> s = IP_String ip)"

lemma FirstFreeHost_in_net:
  assumes "ParseCIDR cidr = Some (ip0, net)" and "FirstFreeHost cidr A req = Some (Inr s)"
    and "req = [] \<or> Contains net req"
  shows "\<exists>ip. Contains net ip \<and> s = IP_String ip"
proof (cases "req = []")
  case True
  with assms(1,2) have "free_host_loop net A (inc ip0) = Some (Inr s)" by (simp add: FirstFreeHost_def)
  moreover have "length (inc ip0) = 16" using ParseCIDR_length [OF assms(1)] by simp
  ultimately show ?thesis using free_host_loop_Inr by metis
next
  case False
  with assms show ?thesis by (auto simp: FirstFreeHost_def split: if_splits)
qed

lemma new_allocation_in_pool:
  assumes "new_allocation L nw pod en = Returns (Inr a)"
  shows "in_pool (nw_Spec nw) (IP a)"
proof -
  from assms obtain ip0 net where c: "ParseCIDR (AllocatableCIDR (nw_Spec nw)) = Some (ip0, net)"
    and req: "requested_ip L nw pod = [] \<or> Contains net (requested_ip L nw pod)"
    by (auto simp: new_allocation_def Let_def split: if_splits option.splits)
  obtain r where r: "FirstFreeHost (AllocatableCIDR (nw_Spec nw)) (allocation_map (nw_allocs nw)) (requested_ip L nw pod) = Some r"
    using FirstFreeHost_total by blast
  from assms c req r obtain s where "r = Inr s" "IP a = s"
    by (auto simp: new_allocation_def Let_def split: if_splits sum.splits)
  with FirstFreeHost_in_net [OF c _ req] r show ?thesis using c by (auto simp: in_pool_def)
qed

definition pool_ok :: "OverlayNetwork \<Rightarrow> bool" where
  "pool_ok nw \<longleftrightarrow> (\<forall>a \<in> set (nw_allocs nw). in_pool (nw_Spec nw) (IP a))"

lemma ensure_allocation_pool:
  assumes "lo_pkg_ok L" and "ensure_allocation L nw pod en = Returns (Inr (a, with_allocs nw as))" and "pool_ok nw"
  shows "\<forall>b \<in> set as. in_pool (nw_Spec nw) (IP b)"
proof -
  have inj: "as = bs" if "with_allocs nw as = with_allocs nw bs" for bs
    using arg_cong [OF that, of nw_allocs] by simp
  from assms(1) show ?thesis
  proof (cases rule: ensure_allocation_cases [of L nw pod en])
    case (Found b i)
    then have "as = (nw_allocs nw)[i := b]" using assms(2) inj by simp
    moreover have "IP b = IP (nw_allocs nw ! i)" using Found(3) by simp
    ultimately show ?thesis using assms(3) Found(2) by (auto simp: pool_ok_def dest!: set_update_subset_insert [THEN subsetD])
  next
    case (Fresh b)
    then have "as = nw_allocs nw @ [b]" using assms(2) inj by simp
    moreover have "new_allocation L nw pod en = Returns (Inr b)"
    proof -
      have none: "lo_FindIndexOf (lo_alloc L) (nw_allocs nw) (\<lambda>item. pod_name pod = PodName item) = None"
        using lo_slice_okD(7) [OF lo_pkg_okD(2) [OF assms(1)]] Fresh(6) by auto
      show ?thesis
      proof (cases rule: new_allocation_cases [of L nw pod en])
        case (Granted s)
        with none Fresh(1) show ?thesis by (simp add: ensure_allocation_def)
      qed (use none Fresh(1) in \<open>simp add: ensure_allocation_def\<close>)
    qed
    ultimately show ?thesis using assms(3) new_allocation_in_pool by (auto simp: pool_ok_def)
  qed (use assms(2) in simp)
qed

lemma status_step_pool:
  assumes "status_step p nw nw'" and "pool_ok nw"
  shows "pool_ok nw'"
  using assms
proof (induction rule: status_step.induct)
  case (allocate L nw pod isRouter en er nw')
  obtain m where m: "nw_optional (init_optional nw) = Some m" using init_optional_Some by blast
  from allocate_status_result [OF allocate(1) m allocate(2)] obtain a where
    "ensure_allocation L (init_optional nw) pod en = Returns (Inr (a, with_allocs (init_optional nw) (nw_allocs nw')))"
    and spec: "nw_Spec nw' = nw_Spec (init_optional nw)" by metis
  moreover have "pool_ok (init_optional nw)" using allocate(3) by (simp add: pool_ok_def)
  ultimately have "\<forall>b \<in> set (nw_allocs nw'). in_pool (nw_Spec (init_optional nw)) (IP b)"
    using ensure_allocation_pool [OF allocate(1)] by blast
  then show ?case by (simp add: pool_ok_def spec)
next
  case (deallocate L nw pod)
  then show ?case by (auto simp: pool_ok_def deallocate_status_simps)
qed

section \<open>The API server\<close>

abbreviation rv :: "OverlayNetwork \<Rightarrow> string" where
  "rv nw \<equiv> ResourceVersion (nw_meta nw)"

text \<open>Each call gets the versions stored so far, the oldest first. \<open>Inr\<close> is the new version; for the
  calls that may remove the object, \<open>None\<close> says that it is gone.\<close>

record api_server =
  srv_status :: "OverlayNetwork \<Rightarrow> OverlayNetwork list \<Rightarrow> api_error + OverlayNetwork"
  srv_update :: "OverlayNetwork \<Rightarrow> OverlayNetwork list \<Rightarrow> api_error + OverlayNetwork option"
  srv_delete :: "OverlayNetwork list \<Rightarrow> api_error + OverlayNetwork option"

definition api_server_ok :: "api_server \<Rightarrow> bool" where
  "api_server_ok S \<longleftrightarrow>
     (\<forall>nw vs v. srv_status S nw vs = Inr v \<longrightarrow> vs \<noteq> [] \<and> rv nw = rv (last vs) \<and> rv v \<notin> rv ` set vs \<and>
        nw_Status v = nw_Status nw \<and> nw_Spec v = nw_Spec (last vs) \<and>
        (\<exists>r. nw_meta v = (nw_meta (last vs))\<lparr>ResourceVersion := r\<rparr>)) \<and>
     (\<forall>nw vs v. srv_update S nw vs = Inr (Some v) \<longrightarrow> vs \<noteq> [] \<and> rv nw = rv (last vs) \<and> rv v \<notin> rv ` set vs \<and>
        nw_Status v = nw_Status (last vs) \<and> nw_Spec v = nw_Spec nw \<and> Finalizers (nw_meta v) = Finalizers (nw_meta nw) \<and>
        DeletionTimestamp (nw_meta v) = DeletionTimestamp (nw_meta (last vs))) \<and>
     (\<forall>nw vs. srv_update S nw vs = Inr None \<longrightarrow> vs \<noteq> [] \<and> rv nw = rv (last vs) \<and>
        DeletionTimestamp (nw_meta (last vs)) \<noteq> None \<and> Finalizers (nw_meta nw) = []) \<and>
     (\<forall>vs v. srv_delete S vs = Inr (Some v) \<longrightarrow> vs \<noteq> [] \<and> rv v \<notin> rv ` set vs \<and>
        nw_Status v = nw_Status (last vs) \<and> nw_Spec v = nw_Spec (last vs) \<and> DeletionTimestamp (nw_meta v) \<noteq> None \<and>
        Finalizers (nw_meta v) = Finalizers (nw_meta (last vs))) \<and>
     (\<forall>vs. srv_delete S vs = Inr None \<longrightarrow> vs \<noteq> [] \<and> Finalizers (nw_meta (last vs)) = [])"

lemma srv_statusD:
  assumes "api_server_ok S" and "srv_status S nw vs = Inr v"
  shows "vs \<noteq> []" "rv nw = rv (last vs)" "rv v \<notin> rv ` set vs" "nw_Status v = nw_Status nw" "nw_Spec v = nw_Spec (last vs)"
    "DeletionTimestamp (nw_meta v) = DeletionTimestamp (nw_meta (last vs))" "Finalizers (nw_meta v) = Finalizers (nw_meta (last vs))"
proof -
  have h: "vs \<noteq> [] \<and> rv nw = rv (last vs) \<and> rv v \<notin> rv ` set vs \<and> nw_Status v = nw_Status nw \<and> nw_Spec v = nw_Spec (last vs) \<and>
      (\<exists>r. nw_meta v = (nw_meta (last vs))\<lparr>ResourceVersion := r\<rparr>)"
    using assms unfolding api_server_ok_def by blast
  then show "vs \<noteq> []" "rv nw = rv (last vs)" "rv v \<notin> rv ` set vs" "nw_Status v = nw_Status nw" "nw_Spec v = nw_Spec (last vs)"
    "DeletionTimestamp (nw_meta v) = DeletionTimestamp (nw_meta (last vs))" "Finalizers (nw_meta v) = Finalizers (nw_meta (last vs))"
    by auto
qed

lemma srv_updateD:
  assumes "api_server_ok S" and "srv_update S nw vs = Inr (Some v)"
  shows "vs \<noteq> []" "rv nw = rv (last vs)" "rv v \<notin> rv ` set vs" "nw_Status v = nw_Status (last vs)" "nw_Spec v = nw_Spec nw"
    "DeletionTimestamp (nw_meta v) = DeletionTimestamp (nw_meta (last vs))"
  using assms unfolding api_server_ok_def by blast+

lemma srv_goneD:
  assumes "api_server_ok S" and "srv_update S nw vs = Inr None"
  shows "rv nw = rv (last vs)" "DeletionTimestamp (nw_meta (last vs)) \<noteq> None" "Finalizers (nw_meta nw) = []"
  using assms unfolding api_server_ok_def by blast+

lemma srv_deleteD:
  assumes "api_server_ok S" and "srv_delete S vs = Inr (Some v)"
  shows "rv v \<notin> rv ` set vs" "nw_Status v = nw_Status (last vs)" "nw_Spec v = nw_Spec (last vs)"
    "DeletionTimestamp (nw_meta v) \<noteq> None"
  using assms unfolding api_server_ok_def by blast+

lemma srv_delete_goneD: "api_server_ok S \<Longrightarrow> srv_delete S vs = Inr None \<Longrightarrow> Finalizers (nw_meta (last vs)) = []"
  unfolding api_server_ok_def by blast

text \<open>A server that takes every write it may take.\<close>

definition stamp :: "OverlayNetwork list \<Rightarrow> OverlayNetwork \<Rightarrow> OverlayNetwork" where
  "stamp vs nw = nw\<lparr>nw_meta := (nw_meta nw)\<lparr>ResourceVersion := concat (map rv vs) @ ''x''\<rparr>\<rparr>"

definition api_server_std :: api_server where
  "api_server_std = \<lparr>
     srv_status = (\<lambda>nw vs. if vs \<noteq> [] \<and> rv nw = rv (last vs)
       then Inr (stamp vs ((last vs)\<lparr>nw_Status := nw_Status nw\<rparr>)) else Inl Conflict),
     srv_update = (\<lambda>nw vs. if vs \<noteq> [] \<and> rv nw = rv (last vs)
       then (if DeletionTimestamp (nw_meta (last vs)) \<noteq> None \<and> Finalizers (nw_meta nw) = [] then Inr None
             else Inr (Some (stamp vs (nw\<lparr>nw_Status := nw_Status (last vs), nw_meta := (nw_meta nw)\<lparr>
               DeletionTimestamp := DeletionTimestamp (nw_meta (last vs))\<rparr>\<rparr>)))) else Inl Conflict),
     srv_delete = (\<lambda>vs. if vs = [] then Inl NotFound
       else if Finalizers (nw_meta (last vs)) = [] then Inr None
       else Inr (Some (stamp vs ((last vs)\<lparr>nw_meta := (nw_meta (last vs))\<lparr>DeletionTimestamp := Some ''now''\<rparr>\<rparr>))))\<rparr>"

lemma length_concat_ge: "x \<in> set xs \<Longrightarrow> length x \<le> length (concat xs)"
  by (induction xs) auto

lemma stamp_fresh [simp]: "concat (map rv vs) @ ''x'' \<notin> rv ` set vs"
proof
  assume "concat (map rv vs) @ ''x'' \<in> rv ` set vs"
  then have "length (concat (map rv vs) @ ''x'') \<le> length (concat (map rv vs))" by (intro length_concat_ge) simp
  then show False by simp
qed

lemma stamp_simps [simp]:
  "nw_Status (stamp vs nw) = nw_Status nw" "nw_Spec (stamp vs nw) = nw_Spec nw"
  "nw_meta (stamp vs nw) = (nw_meta nw)\<lparr>ResourceVersion := concat (map rv vs) @ ''x''\<rparr>"
  by (simp_all add: stamp_def)

lemma api_server_std_ok [simp]: "api_server_ok api_server_std"
  unfolding api_server_ok_def
proof (intro conjI allI impI)
  fix nw v :: OverlayNetwork and vs
  assume "srv_status api_server_std nw vs = Inr v"
  then have "vs \<noteq> []" "rv nw = rv (last vs)" "v = stamp vs ((last vs)\<lparr>nw_Status := nw_Status nw\<rparr>)"
    by (simp_all add: api_server_std_def split: if_splits)
  then show "vs \<noteq> []" "rv nw = rv (last vs)" "rv v \<notin> rv ` set vs" "nw_Status v = nw_Status nw" "nw_Spec v = nw_Spec (last vs)"
    "\<exists>r. nw_meta v = (nw_meta (last vs))\<lparr>ResourceVersion := r\<rparr>" by auto
next
  fix nw v :: OverlayNetwork and vs
  assume "srv_update api_server_std nw vs = Inr (Some v)"
  then have "vs \<noteq> []" "rv nw = rv (last vs)" "v = stamp vs (nw\<lparr>nw_Status := nw_Status (last vs), nw_meta := (nw_meta nw)\<lparr>
      DeletionTimestamp := DeletionTimestamp (nw_meta (last vs))\<rparr>\<rparr>)"
    by (simp_all add: api_server_std_def split: if_splits)
  then show "vs \<noteq> []" "rv nw = rv (last vs)" "rv v \<notin> rv ` set vs" "nw_Status v = nw_Status (last vs)" "nw_Spec v = nw_Spec nw"
    "Finalizers (nw_meta v) = Finalizers (nw_meta nw)" "DeletionTimestamp (nw_meta v) = DeletionTimestamp (nw_meta (last vs))"
    by simp_all
next
  fix nw :: OverlayNetwork and vs
  assume "srv_update api_server_std nw vs = Inr None"
  then show "vs \<noteq> []" "rv nw = rv (last vs)" "DeletionTimestamp (nw_meta (last vs)) \<noteq> None" "Finalizers (nw_meta nw) = []"
    by (simp_all add: api_server_std_def split: if_splits)
next
  fix v :: OverlayNetwork and vs
  assume "srv_delete api_server_std vs = Inr (Some v)"
  then have "vs \<noteq> []" "v = stamp vs ((last vs)\<lparr>nw_meta := (nw_meta (last vs))\<lparr>DeletionTimestamp := Some ''now''\<rparr>\<rparr>)"
    by (simp_all add: api_server_std_def split: if_splits)
  then show "vs \<noteq> []" "rv v \<notin> rv ` set vs" "nw_Status v = nw_Status (last vs)" "nw_Spec v = nw_Spec (last vs)"
    "DeletionTimestamp (nw_meta v) \<noteq> None" "Finalizers (nw_meta v) = Finalizers (nw_meta (last vs))" by simp_all
next
  fix vs
  assume "srv_delete api_server_std vs = Inr None"
  then show "vs \<noteq> []" "Finalizers (nw_meta (last vs)) = []" by (simp_all add: api_server_std_def split: if_splits)
qed

section \<open>Histories of a network\<close>

text \<open>
  The versions of one network and whether it is gone. The operator writes what its reconcilers
  send after reading any of the versions stored so far: the pod reconciler what \<open>allocate_status\<close> and
  \<open>deallocate_status\<close> make of it, the network reconciler what \<open>reconcile_network\<close> is seen to send
  (\<open>operator_sends\<close>). Users change the specification as the webhook admits, may delete the network and,
  this is an assumption on them, do not take off the operator's finalizer themselves.
\<close>

inductive history ::
  "api_server \<Rightarrow> string lo_slice \<Rightarrow> ('raw, OverlayNetwork) decoder \<Rightarrow> (OverlayNetwork \<Rightarrow> 'raw) \<Rightarrow>
   OverlayNetwork list \<Rightarrow> bool \<Rightarrow> bool" for S L D enc where
  created: "admits_new L D enc nw \<Longrightarrow> nw_allocs nw = [] \<Longrightarrow> nw_routers nw = [] \<Longrightarrow> nw_optional nw = None \<Longrightarrow>
    history S L D enc [nw] False"
| pod: "history S L D enc vs False \<Longrightarrow> nw \<in> set vs \<Longrightarrow> status_step p nw nw' \<Longrightarrow>
    srv_status S nw' vs = Inr v \<Longrightarrow> history S L D enc (vs @ [v]) False"
| operator: "history S L D enc vs False \<Longrightarrow> nw \<in> set vs \<Longrightarrow> finalizer_util_ok F \<Longrightarrow> operator_sends F nw nw' \<Longrightarrow>
    srv_update S nw' vs = Inr (Some v) \<Longrightarrow> history S L D enc (vs @ [v]) False"
| operator_removes: "history S L D enc vs False \<Longrightarrow> nw \<in> set vs \<Longrightarrow> finalizer_util_ok F \<Longrightarrow> operator_sends F nw nw' \<Longrightarrow>
    srv_update S nw' vs = Inr None \<Longrightarrow> history S L D enc vs True"
| user: "history S L D enc vs False \<Longrightarrow> admits_update L D enc (last vs) nw \<Longrightarrow>
    OVERLAY_NETWORK_FINALIZER \<in> set (Finalizers (nw_meta (last vs))) \<longrightarrow> OVERLAY_NETWORK_FINALIZER \<in> set (Finalizers (nw_meta nw)) \<Longrightarrow>
    srv_update S nw vs = Inr (Some v) \<Longrightarrow> history S L D enc (vs @ [v]) False"
| user_removes: "history S L D enc vs False \<Longrightarrow>
    OVERLAY_NETWORK_FINALIZER \<in> set (Finalizers (nw_meta (last vs))) \<longrightarrow> OVERLAY_NETWORK_FINALIZER \<in> set (Finalizers (nw_meta nw)) \<Longrightarrow>
    srv_update S nw vs = Inr None \<Longrightarrow> history S L D enc vs True"
| user_deletes: "history S L D enc vs False \<Longrightarrow> srv_delete S vs = Inr (Some v) \<Longrightarrow> history S L D enc (vs @ [v]) False"
| deleted_at_once: "history S L D enc vs False \<Longrightarrow> srv_delete S vs = Inr None \<Longrightarrow> history S L D enc vs True"

text \<open>The rules \<open>pod\<close> and \<open>operator\<close> cover the code: what the reconcilers send after reading stored
  versions of the network, and the server accepts, extends the history.\<close>

lemma history_reconcile_pod:
  assumes "history S L D enc vs False" and lo: "lo_pkg_ok L'" and fu: "finalizer_util_ok F"
    and reads: "\<And>ns s items s' nw. kListNetworks K ns s = (Inr items, s') \<Longrightarrow> nw \<in> set items \<Longrightarrow>
      nw_name nw = nw_name nw' \<Longrightarrow> nw \<in> set vs"
    and run: "reconcile_pod L' F K ns name w = Returns (r, w')" "requests w' = requests w @ qs"
      "UpdateNetworkStatus nw' \<in> set qs"
    and stored: "srv_status S nw' vs = Inr v"
  shows "history S L D enc (vs @ [v]) False"
  using lo fu
proof (cases rule: reconcile_pod_cases [of L' F K ns name w])
  case (Quiet r' w'')
  with run show ?thesis by simp
next
  case (Listed pod w1 items w2)
  show ?thesis
  proof (rule reconcile_listed_result [OF lo fu, of K pod items w2], goal_cases)
    case (1 uniq h w3 qs' r' w'')
    obtain ps where "requests w'' = requests w @ qs' @ ps" "\<forall>q \<in> set ps. \<exists>p. q = UpdatePod p" using 1 Listed(5) by auto
    moreover have "w'' = w'" using 1(1) run(1) Listed(4) by simp
    ultimately have "UpdateNetworkStatus nw' \<in> set qs'" using run(2,3) by auto
    with 1(2) obtain nw where nw: "nw \<in> set items" "status_step (pod_name pod) nw nw'"
      unfolding loop_post_def steps_from_def by blast
    have "nw_name nw = nw_name nw'" using status_step_frame [OF nw(2)] by simp
    with nw(1) reads read_env_InrD [OF Listed(3)] have "nw \<in> set vs" by blast
    with assms(1) show ?case using nw(2) stored by (rule history.pod)
  qed
qed

lemma history_reconcile_network:
  assumes "history S L D enc vs False" and fu: "finalizer_util_ok F"
    and reads: "\<And>s nw s'. kGetNetwork K ns name s = (Inr nw, s') \<Longrightarrow> nw \<in> set vs"
    and run: "reconcile_network F K ns name w = (r, w')" "requests w' = requests w @ [UpdateNetwork nw']"
    and stored: "srv_update S nw' vs = Inr o'"
  shows "case o' of Some v \<Rightarrow> history S L D enc (vs @ [v]) False | None \<Rightarrow> history S L D enc vs True"
proof -
  obtain g w1 where g: "read_env (kGetNetwork K ns name) w = (g, w1)" by fastforce
  have "\<exists>nw. g = Inr nw \<and> network_update nw = Some nw'"
    using run g requests_read_env [OF g] unfolding reconcile_network_eq [OF fu]
    by (auto split: sum.splits option.splits prod.splits dest: requests_write_api)
  then obtain nw where nw: "g = Inr nw" "network_update nw = Some nw'" by blast
  have "nw \<in> set vs" using reads read_env_InrD [OF g [unfolded nw(1)]] by blast
  with assms(1) nw(2) stored show ?thesis
    by (cases o') (auto simp: operator_sends_iff [OF fu] intro: history.operator [OF _ _ fu] history.operator_removes [OF _ _ fu])
qed

lemma history_nonempty: "history S L D enc vs g \<Longrightarrow> vs \<noteq> []"
  by (induction rule: history.induct) simp_all

lemma history_versions:
  assumes "api_server_ok S" and "history S L D enc vs g"
  shows "distinct (map rv vs)"
  using assms(2)
  by (induction rule: history.induct)
    (simp_all add: srv_statusD(3) [OF assms(1)] srv_updateD(3) [OF assms(1)] srv_deleteD(1) [OF assms(1)])

text \<open>A write that the server accepts is based on the current version.\<close>

lemma current_version:
  assumes "distinct (map rv vs)" and "nw \<in> set vs" and "rv nw = rv (last vs)"
  shows "nw = last vs"
proof -
  have "last vs \<in> set vs" using assms(2) by (cases vs) simp_all
  with assms show ?thesis by (simp add: distinct_map inj_on_def)
qed

text \<open>What two successive versions have in common: one pod was given or lost its place, or the status
  stayed and the specification changed within what the webhook admits.\<close>

definition succeeds :: "OverlayNetwork \<Rightarrow> OverlayNetwork \<Rightarrow> bool" where
  "succeeds u v \<longleftrightarrow>
     (\<exists>p u'. status_step p u u' \<and> nw_Status v = nw_Status u' \<and> nw_Spec v = nw_Spec u \<and>
        DeletionTimestamp (nw_meta v) = DeletionTimestamp (nw_meta u)) \<or>
     nw_Status v = nw_Status u \<and> fixed_part (nw_Spec v) = fixed_part (nw_Spec u) \<and>
     (nw_Spec v = nw_Spec u \<or> routable_ok (nw_Spec v)) \<and>
     (DeletionTimestamp (nw_meta u) \<noteq> None \<longrightarrow> DeletionTimestamp (nw_meta v) \<noteq> None)"

lemma history_succeeds:
  assumes S: "api_server_ok S" and "history S L D enc vs g"
  shows "admits_new L D enc (hd vs) \<and> nw_allocs (hd vs) = [] \<and> nw_routers (hd vs) = [] \<and> nw_optional (hd vs) = None \<and>
    successively succeeds vs"
  using assms(2)
proof (induction rule: history.induct)
  case (pod vs nw p nw' v)
  note w = srv_statusD [OF S pod(4)]
  have "nw_meta nw' = nw_meta nw" using status_step_frame [OF pod(3)] by simp
  then have "nw = last vs" using w(2) by (intro current_version [OF history_versions [OF S pod(1)] pod(2)]) simp
  then have "succeeds (last vs) v" using w pod(3) unfolding succeeds_def by blast
  with pod w(1) show ?case by (simp add: successively_append_iff)
next
  case (operator vs nw F nw' v)
  have up: "network_update nw = Some nw'" using operator(3,4) by (simp add: operator_sends_iff)
  note w = srv_updateD [OF S operator(5)] and f = network_update_frame [OF up]
  have "rv nw' = rv nw" using up by (auto simp: network_update_def Let_def split: if_splits)
  then have "nw = last vs" using w(2) by (intro current_version [OF history_versions [OF S operator(1)] operator(2)]) simp
  then have "succeeds (last vs) v" using w f by (simp add: succeeds_def)
  with operator w(1) show ?case by (simp add: successively_append_iff)
next
  case (user vs nw v)
  note w = srv_updateD [OF S user(4)]
  have "succeeds (last vs) v" using user(2) w by (simp add: succeeds_def admits_update_iff)
  with user w(1) show ?case by (simp add: successively_append_iff)
next
  case (user_deletes vs v)
  note w = srv_deleteD [OF S user_deletes(2)]
  have "succeeds (last vs) v" using w by (simp add: succeeds_def)
  with user_deletes history_nonempty [OF user_deletes(1)] show ?case by (simp add: successively_append_iff)
qed simp_all

lemma successively_keeps:
  assumes "successively R (x # xs)" and "P x" and "\<And>x y. R x y \<Longrightarrow> P x \<Longrightarrow> P y"
  shows "\<forall>y \<in> set (x # xs). P y"
  using assms(1,2)
proof (induction xs arbitrary: x)
  case (Cons y ys)
  have "P y" by (rule assms(3) [of x]) (use Cons.prems in simp_all)
  with Cons.IH [of y] Cons.prems show ?case by simp
qed simp

definition version_ok :: "int \<times> string \<Rightarrow> OverlayNetwork \<Rightarrow> bool" where
  "version_ok fixed nw \<longleftrightarrow> status_ok nw \<and> pool_ok nw \<and> valid_spec (nw_Spec nw) \<and> fixed_part (nw_Spec nw) = fixed"

lemma status_ok_cong: "nw_Status v = nw_Status u \<Longrightarrow> status_ok v = status_ok u"
  by (simp add: status_ok_def split: option.splits)

lemma pool_ok_cong:
  "nw_Status v = nw_Status u \<Longrightarrow> fixed_part (nw_Spec v) = fixed_part (nw_Spec u) \<Longrightarrow> pool_ok v = pool_ok u"
  by (simp add: pool_ok_def in_pool_def fixed_part_def)

lemma succeeds_keeps:
  assumes "succeeds u v" and "version_ok fixed u"
  shows "version_ok fixed v"
proof -
  from assms(1) consider p u' where "status_step p u u'" "nw_Status v = nw_Status u'" "nw_Spec v = nw_Spec u"
    | "nw_Status v = nw_Status u" "fixed_part (nw_Spec v) = fixed_part (nw_Spec u)" "nw_Spec v = nw_Spec u \<or> routable_ok (nw_Spec v)"
    unfolding succeeds_def by blast
  then show ?thesis
  proof cases
    case 1
    then have spec: "nw_Spec v = nw_Spec u'" using status_step_frame by metis
    have "status_ok u'" "pool_ok u'" using 1 assms(2) status_step_ok status_step_pool by (auto simp: version_ok_def)
    then have "status_ok v" "pool_ok v" using status_ok_cong [OF 1(2)] pool_ok_cong [OF 1(2)] spec by simp_all
    with 1(3) assms(2) show ?thesis by (simp add: version_ok_def)
  next
    case 2
    have same: "Port (nw_Spec v) = Port (nw_Spec u)" "AllocatableCIDR (nw_Spec v) = AllocatableCIDR (nw_Spec u)"
      using 2(2) by (simp_all add: fixed_part_def)
    have "routable_ok (nw_Spec v)" using 2(3) assms(2) by (auto simp: version_ok_def valid_spec_def)
    with same have "valid_spec (nw_Spec v)" using assms(2) by (simp add: version_ok_def valid_spec_def)
    with assms(2) 2(2) status_ok_cong [OF 2(1)] pool_ok_cong [OF 2(1,2)] show ?thesis by (simp add: version_ok_def)
  qed
qed

lemma history_version_ok:
  assumes "api_server_ok S" and "history S L D enc vs g"
  shows "\<forall>v \<in> set vs. version_ok (fixed_part (nw_Spec (hd vs))) v"
proof -
  note h = history_succeeds [OF assms]
  obtain u us where vs: "vs = u # us" using history_nonempty [OF assms(2)] by (cases vs) auto
  have "version_ok (fixed_part (nw_Spec u)) u"
    using h by (simp add: vs version_ok_def status_ok_def pool_ok_def admits_new_iff)
  with h show ?thesis
    unfolding vs using successively_keeps [of succeeds u us "version_ok (fixed_part (nw_Spec u))"] succeeds_keeps by simp
qed

inductive_cases history_goneE: "history S L D enc vs True"

section \<open>Removal\<close>

lemma history_removed:
  assumes S: "api_server_ok S" and "history S L D enc vs True"
    and "OVERLAY_NETWORK_FINALIZER \<in> set (Finalizers (nw_meta (last vs)))"
  shows "nw_allocs (last vs) = [] \<and> DeletionTimestamp (nw_meta (last vs)) \<noteq> None"
  using assms(2)
proof (cases rule: history_goneE [consumes 1, case_names operator_removes user_removes deleted_at_once])
  case (operator_removes nw F nw')
  have up: "network_update nw = Some nw'" using operator_removes(3,4) by (simp add: operator_sends_iff)
  note w = srv_goneD [OF S operator_removes(5)]
  have "rv nw' = rv nw" using up by (auto simp: network_update_def Let_def split: if_splits)
  then have "nw = last vs"
    using w(1) by (intro current_version [OF history_versions [OF S operator_removes(1)] operator_removes(2)]) simp
  with w up show ?thesis by (auto simp: network_update_def Let_def split: if_splits)
next
  case (user_removes nw)
  with srv_goneD [OF S user_removes(3)] assms(3) show ?thesis by simp
next
  case deleted_at_once
  with srv_delete_goneD [OF S] assms(3) show ?thesis by simp
qed

section \<open>Successive versions\<close>

lemma status_step_deleting:
  assumes "status_step p u u'" and "DeletionTimestamp (nw_meta u) \<noteq> None"
  shows "binding ` set (nw_allocs u') \<subseteq> binding ` set (nw_allocs u)"
  using assms
proof (induction rule: status_step.induct)
  case (allocate L nw pod isRouter en er nw')
  obtain m where m: "nw_optional (init_optional nw) = Some m" using init_optional_Some by blast
  obtain a where e: "ensure_allocation L (init_optional nw) pod en =
      Returns (Inr (a, with_allocs (init_optional nw) (nw_allocs nw')))"
    using allocate_status_result [OF allocate(1) m allocate(2)] by metis
  have inj: "nw_allocs nw' = bs" if "with_allocs (init_optional nw) (nw_allocs nw') = with_allocs (init_optional nw) bs" for bs
    using arg_cong [OF that, of nw_allocs] by simp
  from allocate(1) show ?case
  proof (cases rule: ensure_allocation_cases [of L "init_optional nw" pod en])
    case (Found b i)
    then have new: "nw_allocs nw' = (nw_allocs nw)[i := b]" using e inj by simp
    have b: "binding b = binding (nw_allocs nw ! i)" using Found(3) by (simp add: binding_def)
    show ?thesis using Found(2) b by (auto simp: new dest!: set_update_subset_insert [THEN subsetD])
  qed (use e allocate(3) in auto)
next
  case (deallocate L nw pod)
  then show ?case by (auto simp: deallocate_status_simps)
qed

lemma succeeds_members:
  assumes "succeeds u v"
  shows "(\<exists>p. others p (nw_allocs v) = others p (nw_allocs u)) \<and>
    (DeletionTimestamp (nw_meta u) \<noteq> None \<longrightarrow>
       DeletionTimestamp (nw_meta v) \<noteq> None \<and> binding ` set (nw_allocs v) \<subseteq> binding ` set (nw_allocs u))"
  using assms status_step_frame status_step_deleting unfolding succeeds_def by fastforce

lemma successively_nth: "successively R xs \<Longrightarrow> Suc i < length xs \<Longrightarrow> R (xs ! i) (xs ! Suc i)"
proof (induction xs arbitrary: i rule: induct_list012)
  case (3 x y zs)
  then show ?case by (cases i) simp_all
qed simp_all

section \<open>Errors of an allocation\<close>

lemma free_host_loop_error: "length ip = 16 \<Longrightarrow> free_host_loop n A ip = Some (Inl e) \<Longrightarrow> e = ErrAddressPoolExhausted"
  by (auto simp: free_host_loop_iff split: if_splits)

lemma FirstFreeHost_error:
  assumes "ParseCIDR cidr \<noteq> None" and "FirstFreeHost cidr A req = Some (Inl e)"
  shows "e = ErrAddressPoolExhausted \<or> e = ErrDuplicateIPRequest"
proof -
  obtain ip0 net where c: "ParseCIDR cidr = Some (ip0, net)" using assms(1) by auto
  have "length (inc ip0) = 16" using ParseCIDR_length [OF c] by simp
  note loop = free_host_loop_error [OF this, of net A e]
  from assms(2) c loop show ?thesis by (auto simp: FirstFreeHost_def split: if_splits)
qed

definition expected_errors :: "pod_error set" where
  "expected_errors = {NoPrimaryIP, NetworkDeleting, RequestOutsideCIDR, PickFailed ErrAddressPoolExhausted,
     PickFailed ErrDuplicateIPRequest}"

lemma new_allocation_error:
  assumes "ParseCIDR (AllocatableCIDR (nw_Spec nw)) \<noteq> None" and "new_allocation L nw pod en = Returns (Inl e)"
  shows "e \<in> expected_errors"
proof -
  obtain r where r: "FirstFreeHost (AllocatableCIDR (nw_Spec nw)) (allocation_map (nw_allocs nw)) (requested_ip L nw pod) = Some r"
    using FirstFreeHost_total by blast
  have "PickFailed e' \<in> expected_errors" if "r = Inl e'" for e'
    using FirstFreeHost_error [OF assms(1)] r that by (auto simp: expected_errors_def)
  with assms r show ?thesis
    by (auto simp: new_allocation_def Let_def expected_errors_def split: if_splits option.splits sum.splits)
qed

lemma allocate_status_error:
  assumes "lo_pkg_ok L" and "ParseCIDR (AllocatableCIDR (nw_Spec nw)) \<noteq> None"
    and "allocate_status L (init_optional nw) pod isRouter en er = Returns (Inl e)"
  shows "e \<in> expected_errors"
proof (cases "status_PodIP pod = ''''")
  case True
  with assms(3) show ?thesis by (simp add: allocate_status_def expected_errors_def)
next
  case False
  obtain m where m: "nw_optional (init_optional nw) = Some m" using init_optional_Some by blast
  obtain r where r: "ensure_allocation L (init_optional nw) pod en = Returns r"
    using ensure_allocation_returns [OF assms(1)] by blast
  show ?thesis
  proof (cases r)
    case (Inl e')
    with False assms(3) r have e: "e = e'" by (simp add: allocate_status_def)
    from assms(1) show ?thesis
    proof (cases rule: ensure_allocation_cases [of L "init_optional nw" pod en])
      case (Refused e'')
      with r Inl e new_allocation_error [of "init_optional nw"] assms(2) show ?thesis by simp
    qed (use r Inl in simp_all)
  next
    case (Inr anw)
    obtain a nw1 where anw: "anw = (a, nw1)" by fastforce
    obtain as where "nw1 = with_allocs (init_optional nw) as"
      using ensure_allocation_result [OF assms(1)] r Inr anw by metis
    then have "nw_optional nw1 = Some m" using m by simp
    moreover obtain m' where "add_optional L a er (Some m) = Returns (Some m')"
      using add_optional_result [OF assms(1)] by metis
    ultimately show ?thesis using False assms(3) r Inr anw by (simp add: allocate_status_def)
  qed
qed

section \<open>Properties\<close>

definition demo_created :: OverlayNetwork where
  "demo_created = PodStatus.demo_network\<lparr>nw_meta := (nw_meta PodStatus.demo_network)\<lparr>Finalizers := [OVERLAY_NETWORK_FINALIZER]\<rparr>\<rparr>"

definition demo_joined :: OverlayNetwork where
  "demo_joined = stamp [demo_created] (demo_created\<lparr>nw_Status := nw_Status demo_network1\<rparr>)"

definition demo_left :: OverlayNetwork where
  "demo_left = stamp [demo_created] (demo_created\<lparr>nw_meta := (nw_meta demo_created)\<lparr>DeletionTimestamp := Some ''now''\<rparr>\<rparr>)"

lemma demo_history_created:
  "history api_server_std lo_std OverlayNetworkValidator.demo_decoder id [demo_created] False"
  by (rule history.created)
    (simp_all add: admits_new_iff demo_created_def PodStatus.demo_network_def valid_spec_def routable_ok_def)

lemma demo_history_joined:
  "history api_server_std lo_std OverlayNetworkValidator.demo_decoder id [demo_created, demo_joined] False"
proof -
  let ?nw = "demo_created\<lparr>nw_Status := nw_Status demo_network1\<rparr>"
  have "allocate_status lo_pkg_std (init_optional demo_created) (demo_pod ''p'') True [] [''vpn''] = Returns (Inr ?nw)"
    by (simp add: demo_created_def allocate_eval go_net_eval go_print_eval)
  from status_step.allocate [OF lo_pkg_std_ok this] have "status_step ''p'' demo_created ?nw"
    by (simp add: demo_pod_def demo_meta_def)
  moreover have "srv_status api_server_std ?nw [demo_created] = Inr demo_joined"
    by (simp add: api_server_std_def demo_joined_def)
  ultimately show ?thesis using history.pod [OF demo_history_created, of demo_created "''p''" ?nw demo_joined] by simp
qed

definition demo_both :: OverlayNetwork where
  "demo_both = stamp [demo_created, demo_joined] (demo_joined\<lparr>nw_Status := (nw_Status demo_network1)\<lparr>
     Allocations := [demo_entry, demo_entry\<lparr>PodName := ''q'', IP := ''10.0.0.2''\<rparr>]\<rparr>\<rparr>)"

lemma demo_history_both:
  "history api_server_std lo_std OverlayNetworkValidator.demo_decoder id [demo_created, demo_joined, demo_both] False"
proof -
  let ?nw = "demo_joined\<lparr>nw_Status := (nw_Status demo_network1)\<lparr>
     Allocations := [demo_entry, demo_entry\<lparr>PodName := ''q'', IP := ''10.0.0.2''\<rparr>]\<rparr>\<rparr>"
  have "allocate_status lo_pkg_std (init_optional demo_joined) (demo_pod ''q'') False [] [] = Returns (Inr ?nw)"
    by (simp add: demo_joined_def demo_created_def stamp_def allocate_eval go_net_eval go_print_eval)
  from status_step.allocate [OF lo_pkg_std_ok this] have "status_step ''q'' demo_joined ?nw"
    by (simp add: demo_pod_def demo_meta_def)
  moreover have "srv_status api_server_std ?nw [demo_created, demo_joined] = Inr demo_both"
    by (simp add: api_server_std_def demo_both_def)
  ultimately show ?thesis using history.pod [OF demo_history_joined, of demo_joined "''q''" ?nw demo_both] by simp
qed

lemma demo_history_left:
  "history api_server_std lo_std OverlayNetworkValidator.demo_decoder id [demo_created, demo_left] True"
proof -
  have "srv_delete api_server_std [demo_created] = Inr (Some demo_left)"
    by (simp add: api_server_std_def demo_left_def demo_created_def)
  from history.user_deletes [OF demo_history_created this]
  have h: "history api_server_std lo_std OverlayNetworkValidator.demo_decoder id [demo_created, demo_left] False" by simp
  let ?nw = "with_finalizers demo_left []"
  have "operator_sends finalizer_util_std demo_left ?nw"
    by (simp add: operator_sends_iff network_update_def demo_left_def demo_created_def PodStatus.demo_network_def Let_def)
  moreover have "srv_update api_server_std ?nw [demo_created, demo_left] = Inr None"
    by (simp add: api_server_std_def demo_left_def demo_created_def)
  ultimately show ?thesis using history.operator_removes [OF h, of demo_left finalizer_util_std ?nw] by simp
qed

text \<open>C1: a network stays consistent under concurrent writers. In every version that is ever stored,
  whatever the reconcilers of any number of pods, the network reconciler and users write on the
  ground of versions they read earlier: no address and no pod occurs twice, routers are members with
  the same addresses, the specification is valid and keeps the port and pool it was created with,
  and every address handed out lies in that pool.\<close>

theorem network_history_ok:
  assumes "api_server_ok S" and "history S L D enc vs g" and "v \<in> set vs"
  shows "status_ok v \<and> valid_spec (nw_Spec v) \<and> fixed_part (nw_Spec v) = fixed_part (nw_Spec (hd vs)) \<and>
    (\<forall>a \<in> set (nw_allocs v). in_pool (nw_Spec v) (IP a))"
  using history_version_ok [OF assms(1,2)] assms(3) by (simp add: version_ok_def pool_ok_def)

theorem network_history_ok_witness: "in_pool (nw_Spec demo_joined) ''10.0.0.1''"
  using network_history_ok [OF api_server_std_ok demo_history_joined, of demo_joined]
  by (simp add: demo_joined_def demo_network1_def demo_entry_def)

text \<open>C12: a network outlives its members. As long as nobody but the network reconciler takes it off, a
  network that carries the operator's finalizer is removed only when it has been deleted and no pod
  holds an address in it any more: the reconciler sends no update without the finalizer before.\<close>

theorem network_outlives_members:
  assumes "api_server_ok S" and "history S L D enc vs True"
    and "OVERLAY_NETWORK_FINALIZER \<in> set (Finalizers (nw_meta (last vs)))"
  shows "nw_allocs (last vs) = [] \<and> DeletionTimestamp (nw_meta (last vs)) \<noteq> None"
  using assms by (rule history_removed)

theorem network_outlives_members_witness: "nw_allocs demo_left = [] \<and> DeletionTimestamp (nw_meta demo_left) \<noteq> None"
  using network_outlives_members [OF api_server_std_ok demo_history_left] by (simp add: demo_left_def demo_created_def)

text \<open>No update is lost, and a deleted network only shrinks. From one version to the next the
  allocations of at most one pod change, even if the writer had read an outdated version; once the
  network is deleted it stays so and no pod gets a new place or another address in it.\<close>

lemma no_lost_allocations:
  assumes "api_server_ok S" and "history S L D enc vs g" and "Suc i < length vs"
  shows "(\<exists>p. others p (nw_allocs (vs ! Suc i)) = others p (nw_allocs (vs ! i))) \<and>
    (DeletionTimestamp (nw_meta (vs ! i)) \<noteq> None \<longrightarrow> DeletionTimestamp (nw_meta (vs ! Suc i)) \<noteq> None \<and>
       binding ` set (nw_allocs (vs ! Suc i)) \<subseteq> binding ` set (nw_allocs (vs ! i)))"
  using history_succeeds [OF assms(1,2)] successively_nth [OF _ assms(3)] succeeds_members by blast

text \<open>C35: an allocation in an admitted network fails only for the expected reasons. On any stored
  version, the errors are: the pod has no address yet, the network is being deleted, the requested
  address lies outside the pool or is taken, or the pool is exhausted. The pool always parses.\<close>

theorem allocation_errors_expected:
  assumes "api_server_ok S" and "history S L' D enc vs g" and "v \<in> set vs" and "lo_pkg_ok L"
    and "allocate_status L (init_optional v) pod isRouter en er = Returns (Inl e)"
  shows "e \<in> expected_errors"
proof (rule allocate_status_error [OF assms(4) _ assms(5)])
  show "ParseCIDR (AllocatableCIDR (nw_Spec v)) \<noteq> None"
    using history_version_ok [OF assms(1,2)] assms(3) by (auto simp: version_ok_def valid_spec_def)
qed

theorem allocation_errors_expected_witness:
  "\<exists>pod. allocate_status lo_pkg_std (init_optional demo_created) pod False [] [] = Returns (Inl RequestOutsideCIDR) \<and>
     RequestOutsideCIDR \<in> expected_errors"
proof -
  let ?pod = "(demo_pod ''q'')\<lparr>pod_meta := (pod_meta (demo_pod ''q''))\<lparr>Annotations := [(POD_IP_ANNOTATION, ''net/192.168.0.7'')]\<rparr>\<rparr>"
  have refused: "allocate_status lo_pkg_std (init_optional demo_created) ?pod False [] [] = Returns (Inl RequestOutsideCIDR)"
    by (simp add: demo_created_def allocate_eval go_net_eval strings_HasPrefix_def strings_TrimPrefix_def)
  from allocation_errors_expected [OF api_server_std_ok demo_history_created _ lo_pkg_std_ok this] refused show ?thesis by auto
qed

end
