(* ===== verification/Ipam.thy ===== *)
theory Ipam
  imports Cluster
begin

text \<open>
  The address manager as its users see it: a partial map from pods to addresses, a pool, and whether
  the network is closed. \<open>ipam_step\<close> is the contract of the manager; the versions of a network that
  the API server stores implement it.
\<close>

section \<open>The abstract address manager\<close>

record ipam =
  leases :: "string \<Rightarrow> string option"
  pool :: "string set"
  closed :: bool

inductive ipam_step :: "ipam \<Rightarrow> ipam \<Rightarrow> bool" where
  grant: "\<not> closed s \<Longrightarrow> leases s p = None \<Longrightarrow> x \<in> pool s \<Longrightarrow> x \<notin> ran (leases s) \<Longrightarrow>
    ipam_step s (s\<lparr>leases := (leases s)(p \<mapsto> x)\<rparr>)"
| release: "ipam_step s (s\<lparr>leases := (leases s)(p := None)\<rparr>)"
| close: "ipam_step s (s\<lparr>closed := True\<rparr>)"
| stutter: "ipam_step s s"

definition ipam_ok :: "ipam \<Rightarrow> bool" where
  "ipam_ok s \<longleftrightarrow> inj_on (leases s) (dom (leases s)) \<and> ran (leases s) \<subseteq> pool s"

lemma ipam_step_ok: "ipam_step s t \<Longrightarrow> ipam_ok s \<Longrightarrow> ipam_ok t"
proof (induction rule: ipam_step.induct)
  case (grant s p x)
  then show ?case by (auto simp: ipam_ok_def inj_on_def ran_def split: if_splits)
next
  case (release s p)
  then show ?case by (auto simp: ipam_ok_def inj_on_def ran_def split: if_splits)
qed (simp_all add: ipam_ok_def)

text \<open>A pod keeps the address it has as long as it has one, and a closed manager stays closed.\<close>

lemma ipam_step_stable: "ipam_step s t \<Longrightarrow> leases s p = Some x \<Longrightarrow> leases t p = None \<or> leases t p = Some x"
  by (induction rule: ipam_step.induct) auto

lemma ipam_step_closed: "ipam_step s t \<Longrightarrow> closed s \<Longrightarrow> closed t \<and> leases t \<subseteq>\<^sub>m leases s"
  by (induction rule: ipam_step.induct) (auto simp: map_le_def)

lemma ipam_run_stable:
  assumes "successively ipam_step ss" and "i \<le> j" and "j < length ss"
    and "\<And>k. i \<le> k \<Longrightarrow> k \<le> j \<Longrightarrow> leases (ss ! k) p \<noteq> None"
  shows "leases (ss ! j) p = leases (ss ! i) p"
  using assms(2-)
proof (induction j rule: dec_induct)
  case (step n)
  have "leases (ss ! n) p = leases (ss ! i) p" by (rule step.IH) (use step.prems in simp_all)
  moreover have "ipam_step (ss ! n) (ss ! Suc n)" using successively_nth [OF assms(1)] step.prems by simp
  ultimately show ?case using ipam_step_stable step.prems(2) [of n] step.prems(2) [of "Suc n"] step.hyps by fastforce
qed simp

section \<open>The address manager a network implements\<close>

definition lease_map :: "OverlayNetworkIPAllocation list \<Rightarrow> string \<Rightarrow> string option" where
  "lease_map as = map_of (map (\<lambda>a. (PodName a, IP a)) as)"

definition ipam_of :: "OverlayNetwork \<Rightarrow> ipam" where
  "ipam_of nw = \<lparr>leases = lease_map (nw_allocs nw), pool = {x. in_pool (nw_Spec nw) x},
     closed = (DeletionTimestamp (nw_meta nw) \<noteq> None)\<rparr>"

lemma lease_map_simps [simp]:
  "lease_map [] = Map.empty"
  "lease_map (a # as) = (lease_map as)(PodName a \<mapsto> IP a)"
  by (simp_all add: lease_map_def)

lemma lease_map_None: "lease_map as p = None \<longleftrightarrow> p \<notin> PodName ` set as"
  by (induction as) auto

lemma lease_map_append: "lease_map (as @ bs) = lease_map bs ++ lease_map as"
  by (simp add: lease_map_def)

lemma lease_map_ran: "ran (lease_map as) \<subseteq> IP ` set as"
  by (auto simp: lease_map_def ran_def dest!: map_of_SomeD)

lemma lease_map_snoc: "PodName a \<notin> PodName ` set as \<Longrightarrow> lease_map (as @ [a]) = (lease_map as)(PodName a \<mapsto> IP a)"
  by (induction as) (auto simp: fun_upd_twist)

lemma lease_map_others: "lease_map (others p as) = (lease_map as)(p := None)"
  by (rule ext, induction as) auto

lemma lease_map_same:
  assumes "map (\<lambda>a. (PodName a, IP a)) as = map (\<lambda>a. (PodName a, IP a)) bs"
  shows "lease_map as = lease_map bs"
  using assms by (simp add: lease_map_def)

lemma lease_map_inj:
  "distinct (map IP as) \<Longrightarrow> lease_map as p = Some x \<Longrightarrow> lease_map as q = Some x \<Longrightarrow> p = q"
  by (induction as) (auto split: if_splits dest: ranI [THEN subsetD [OF lease_map_ran]])

lemma ensure_allocation_ipam:
  assumes lo: "lo_pkg_ok L" and e: "ensure_allocation L nw pod en = Returns (Inr (a, with_allocs nw as))"
    and "pool_ok nw"
  shows "lease_map as = lease_map (nw_allocs nw) \<or>
    DeletionTimestamp (nw_meta nw) = None \<and> pod_name pod \<notin> PodName ` set (nw_allocs nw) \<and>
    (\<exists>x. in_pool (nw_Spec nw) x \<and> x \<notin> IP ` set (nw_allocs nw) \<and> lease_map as = (lease_map (nw_allocs nw))(pod_name pod \<mapsto> x))"
proof -
  have inj: "as = bs" if "with_allocs nw as = with_allocs nw bs" for bs
    using arg_cong [OF that, of nw_allocs] by simp
  from lo show ?thesis
  proof (cases rule: ensure_allocation_cases [of L nw pod en])
    case (Found b i)
    then have "as = (nw_allocs nw)[i := b]" using e inj by simp
    with Found(2,3) have "lease_map as = lease_map (nw_allocs nw)"
      by (intro lease_map_same) (simp add: map_list_update_same)
    then show ?thesis ..
  next
    case (Fresh b)
    then have as: "as = nw_allocs nw @ [b]" using e inj by simp
    with ensure_allocation_pool [OF lo e assms(3)] have "in_pool (nw_Spec nw) (IP b)" by simp
    with Fresh show ?thesis by (simp add: as lease_map_snoc) blast
  qed (use e in simp)
qed

lemma status_step_ipam:
  assumes "status_step p u u'" and "pool_ok u"
  shows "ipam_step (ipam_of u) (ipam_of u\<lparr>leases := lease_map (nw_allocs u')\<rparr>)"
  using assms
proof (induction rule: status_step.induct)
  case (allocate L nw pod isRouter en er nw')
  obtain m where m: "nw_optional (init_optional nw) = Some m" using init_optional_Some by blast
  obtain a where e: "ensure_allocation L (init_optional nw) pod en =
      Returns (Inr (a, with_allocs (init_optional nw) (nw_allocs nw')))"
    using allocate_status_result [OF allocate(1) m allocate(2)] by metis
  have "pool_ok (init_optional nw)" using allocate(3) by (simp add: pool_ok_def)
  note c = ensure_allocation_ipam [OF allocate(1) e this, simplified]
  from c show ?case
  proof (elim disjE conjE exE)
    assume "lease_map (nw_allocs nw') = lease_map (nw_allocs nw)"
    then have "ipam_of nw\<lparr>leases := lease_map (nw_allocs nw')\<rparr> = ipam_of nw" by (simp add: ipam_of_def)
    then show ?thesis using ipam_step.stutter by simp
  next
    fix x
    assume x: "DeletionTimestamp (nw_meta nw) = None" "pod_name pod \<notin> PodName ` set (nw_allocs nw)"
      "in_pool (nw_Spec nw) x" "x \<notin> IP ` set (nw_allocs nw)"
      "lease_map (nw_allocs nw') = (lease_map (nw_allocs nw))(pod_name pod \<mapsto> x)"
    then have "x \<notin> ran (lease_map (nw_allocs nw))" using lease_map_ran by blast
    with x have "ipam_step (ipam_of nw) (ipam_of nw\<lparr>leases := (leases (ipam_of nw))(pod_name pod \<mapsto> x)\<rparr>)"
      by (intro ipam_step.grant) (simp_all add: ipam_of_def lease_map_None)
    moreover have "leases (ipam_of nw) = lease_map (nw_allocs nw)" by (simp add: ipam_of_def)
    ultimately show ?thesis by (simp only: x(5))
  qed
next
  case (deallocate L pod nw)
  have "lease_map (nw_allocs (deallocate_status L (init_optional nw) pod)) = (leases (ipam_of nw))(pod_name pod := None)"
    by (simp add: deallocate_status_simps [OF deallocate(1)] lease_map_others ipam_of_def)
  then show ?case using ipam_step.release [of "ipam_of nw"] by (simp only:)
qed

lemma in_pool_cong: "fixed_part s = fixed_part t \<Longrightarrow> in_pool s = in_pool t"
  by (rule ext) (simp add: in_pool_def fixed_part_def)

lemma succeeds_ipam:
  assumes "succeeds u v" and "pool_ok u"
  shows "ipam_step (ipam_of u) (ipam_of v)"
proof -
  from assms(1) consider (pod) p u' where "status_step p u u'" "nw_Status v = nw_Status u'" "nw_Spec v = nw_Spec u"
      "DeletionTimestamp (nw_meta v) = DeletionTimestamp (nw_meta u)"
    | (spec) "nw_Status v = nw_Status u" "fixed_part (nw_Spec v) = fixed_part (nw_Spec u)"
      "DeletionTimestamp (nw_meta u) \<noteq> None \<longrightarrow> DeletionTimestamp (nw_meta v) \<noteq> None"
    unfolding succeeds_def by blast
  then show ?thesis
  proof cases
  case s: (pod p u')
  then have "ipam_of v = ipam_of u\<lparr>leases := lease_map (nw_allocs u')\<rparr>" by (simp add: ipam_of_def)
  with status_step_ipam [OF s(1) assms(2)] show ?thesis by simp
next
  case s: spec
  show ?thesis
  proof (cases "closed (ipam_of v) = closed (ipam_of u)")
    case True
    with s have "ipam_of v = ipam_of u" by (simp add: ipam_of_def in_pool_cong [OF s(2)])
    then show ?thesis using ipam_step.stutter by simp
  next
    case False
    with s have "ipam_of v = ipam_of u\<lparr>closed := True\<rparr>" by (auto simp: ipam_of_def in_pool_cong [OF s(2)])
    then show ?thesis using ipam_step.close by simp
  qed
  qed
qed

lemma history_ipam:
  assumes "api_server_ok S" and "history S L D enc vs g"
  shows "leases (ipam_of (hd vs)) = Map.empty \<and> successively ipam_step (map ipam_of vs)"
proof -
  note h = history_succeeds [OF assms] and ok = history_version_ok [OF assms]
  have "successively (\<lambda>u v. ipam_step (ipam_of u) (ipam_of v)) vs"
    using conjunct2 [OF conjunct2 [OF conjunct2 [OF conjunct2 [OF h]]]]
    by (rule successively_mono) (use ok in \<open>auto simp: version_ok_def intro: succeeds_ipam\<close>)
  with h show ?thesis by (simp add: successively_map ipam_of_def)
qed

section \<open>A deleted network can always be removed\<close>

text \<open>What liveness needs of the API server: it takes the writes that are based on the current version,
  and removes a deleted object whose last finalizer such a write takes away.\<close>

definition accepts_current :: "api_server \<Rightarrow> bool" where
  "accepts_current S \<longleftrightarrow> (\<forall>nw vs. vs \<noteq> [] \<longrightarrow> rv nw = rv (last vs) \<longrightarrow>
     (\<exists>v. srv_status S nw vs = Inr v) \<and>
     (DeletionTimestamp (nw_meta (last vs)) \<noteq> None \<and> Finalizers (nw_meta nw) = [] \<longrightarrow> srv_update S nw vs = Inr None))"

lemma accepts_current_std [simp]: "accepts_current api_server_std"
  by (simp add: accepts_current_def api_server_std_def)

lemma history_release_one:
  assumes S: "api_server_ok S" "accepts_current S" and h: "history S L D enc vs False"
  shows "\<exists>v. history S L D enc (vs @ [v]) False \<and> nw_meta v \<in> range (\<lambda>r. (nw_meta (last vs))\<lparr>ResourceVersion := r\<rparr>) \<and>
    nw_allocs v = others p (nw_allocs (last vs))"
proof -
  let ?pod = "demo_pod p"
  have name: "pod_name ?pod = p" by (simp add: demo_pod_def demo_meta_def)
  define u where "u = deallocate_status lo_pkg_std (init_optional (last vs)) ?pod"
  have step: "status_step p (last vs) u"
    using status_step.deallocate [OF lo_pkg_std_ok, of ?pod "last vs"] by (simp only: name u_def)
  have u: "nw_meta u = nw_meta (last vs)" "nw_allocs u = others p (nw_allocs (last vs))"
    by (simp_all add: u_def deallocate_status_simps [OF lo_pkg_std_ok] name)
  have ne: "vs \<noteq> []" using h by (rule history_nonempty)
  then obtain v where v: "srv_status S u vs = Inr v" using S(2) u(1) unfolding accepts_current_def by metis
  have "history S L D enc (vs @ [v]) False"
    using h last_in_set [OF ne] step v by (rule history.pod)
  moreover have "\<exists>r. nw_meta v = (nw_meta (last vs))\<lparr>ResourceVersion := r\<rparr>"
    using S(1) v unfolding api_server_ok_def by blast
  moreover have "nw_allocs v = others p (nw_allocs (last vs))"
    using srv_statusD(4) [OF S(1) v] u(2) by simp
  ultimately show ?thesis by blast
qed

lemma others_shorter: "distinct (map PodName (a # as)) \<Longrightarrow> others (PodName a) (a # as) = as"
  using others_id [of "PodName a" as] by simp

lemma history_drains:
  assumes S: "api_server_ok S" "accepts_current S" and "history S L D enc vs False"
    and "DeletionTimestamp (nw_meta (last vs)) \<noteq> None"
    and "Finalizers (nw_meta (last vs)) = [OVERLAY_NETWORK_FINALIZER]"
  shows "\<exists>ws. history S L D enc (vs @ ws) True \<and> length ws = length (nw_allocs (last vs))"
  using assms(3-)
proof (induction "nw_allocs (last vs)" arbitrary: vs)
  case Nil
  have up: "operator_sends finalizer_util_std (last vs) (with_finalizers (last vs) [])"
    using Nil by (auto simp: operator_sends_iff network_update_def Let_def)
  have ne: "vs \<noteq> []" using Nil(2) by (rule history_nonempty)
  have "srv_update S (with_finalizers (last vs) []) vs = Inr None"
    using S(2) ne Nil(3) unfolding accepts_current_def by simp
  from history.operator_removes [OF Nil(2) last_in_set [OF ne] finalizer_util_std_ok up this]
  show ?case using Nil(1) by (intro exI [of _ "[]"]) simp
next
  case (Cons a as)
  obtain v where v: "history S L D enc (vs @ [v]) False" "nw_allocs v = others (PodName a) (nw_allocs (last vs))"
    "nw_meta v \<in> range (\<lambda>r. (nw_meta (last vs))\<lparr>ResourceVersion := r\<rparr>)"
    using history_release_one [OF S Cons.prems(1)] by blast
  have "status_ok (last vs)"
    using history_version_ok [OF S(1) Cons.prems(1)] last_in_set [OF history_nonempty [OF Cons.prems(1)]]
    by (simp add: version_ok_def)
  then have "distinct (map PodName (a # as))" by (simp only: status_ok_def Cons(2))
  then have as: "nw_allocs v = as" using v(2) others_shorter by (simp only: Cons(2) [symmetric])
  from v(3) Cons.prems(2,3) have "DeletionTimestamp (nw_meta v) \<noteq> None" "Finalizers (nw_meta v) = [OVERLAY_NETWORK_FINALIZER]"
    by auto
  with Cons.hyps(1) [of "vs @ [v]"] v(1) as obtain ws where
    "history S L D enc ((vs @ [v]) @ ws) True" "length ws = length as" by auto
  then show ?case using Cons(2) by (intro exI [of _ "v # ws"]) (simp add: Cons(2) [symmetric])
qed

section \<open>Properties\<close>

text \<open>C2: the stored versions of a network implement an address manager. The first version has no
  leases; from each version to the next the manager grants a pod without an address a free address
  of the pool, takes the address of a pod back, is closed, or nothing changes for it. It grants
  nothing once it is closed.\<close>

theorem versions_implement_ipam:
  assumes "api_server_ok S" and "history S L D enc vs g"
  shows "leases (ipam_of (hd vs)) = Map.empty \<and>
    (\<forall>i. Suc i < length vs \<longrightarrow> ipam_step (ipam_of (vs ! i)) (ipam_of (vs ! Suc i)))"
proof -
  note h = history_ipam [OF assms]
  have "ipam_step (ipam_of (vs ! i)) (ipam_of (vs ! Suc i))" if "Suc i < length vs" for i
    using successively_nth [OF conjunct2 [OF h], of i] that by simp
  with h show ?thesis by blast
qed

theorem versions_implement_ipam_witness: "ipam_step (ipam_of demo_created) (ipam_of demo_joined)"
  using versions_implement_ipam [OF api_server_std_ok demo_history_joined] by (auto dest: spec [of _ 0])

text \<open>C14: addresses are stable. A pod that has an address in every version from one to a later one
  has the same address throughout, whatever other pods, users and the network reconciler do in
  between, and no other pod has that address in any of these versions.\<close>

theorem lease_stable:
  assumes "api_server_ok S" and "history S L D enc vs g" and "i \<le> j" and "j < length vs"
    and "\<forall>k. i \<le> k \<and> k \<le> j \<longrightarrow> p \<in> PodName ` set (nw_allocs (vs ! k))"
  shows "\<exists>x. \<forall>k. i \<le> k \<and> k \<le> j \<longrightarrow> leases (ipam_of (vs ! k)) p = Some x \<and>
    (\<forall>q. leases (ipam_of (vs ! k)) q = Some x \<longrightarrow> q = p)"
proof -
  note run = conjunct2 [OF history_ipam [OF assms(1,2)]]
  have has: "leases (ipam_of (vs ! k)) p \<noteq> None" if "i \<le> k" "k \<le> j" for k
    using assms(5) that by (simp add: ipam_of_def lease_map_None)
  have same: "leases (ipam_of (vs ! k)) p = leases (ipam_of (vs ! i)) p" if "i \<le> k" "k \<le> j" for k
    using ipam_run_stable [OF run that(1), of p] has that assms(4) by simp
  have inj: "q = p" if "k < length vs" "leases (ipam_of (vs ! k)) q = Some x" "leases (ipam_of (vs ! k)) p = Some x" for k q x
  proof -
    have "status_ok (vs ! k)" using history_version_ok [OF assms(1,2)] that(1) by (auto simp: version_ok_def)
    then show ?thesis using that(2,3) lease_map_inj by (auto simp: ipam_of_def status_ok_def)
  qed
  obtain x where "leases (ipam_of (vs ! i)) p = Some x" using has [of i] assms(3) by auto
  with same have x: "leases (ipam_of (vs ! k)) p = Some x" if "i \<le> k" "k \<le> j" for k using that by simp
  then have "q = p" if "i \<le> k" "k \<le> j" "leases (ipam_of (vs ! k)) q = Some x" for k q
    using inj [of k q x] that assms(4) by simp
  with x show ?thesis by blast
qed

theorem lease_stable_witness: "\<exists>x. leases (ipam_of demo_joined) ''p'' = Some x \<and> leases (ipam_of demo_both) ''p'' = Some x"
proof -
  let ?vs = "[demo_created, demo_joined, demo_both]"
  have p: "''p'' \<in> PodName ` set (nw_allocs demo_joined)" "''p'' \<in> PodName ` set (nw_allocs demo_both)"
    by (simp_all add: demo_joined_def demo_both_def demo_network1_def demo_entry_def)
  have "\<forall>k. 1 \<le> k \<and> k \<le> 2 \<longrightarrow> ''p'' \<in> PodName ` set (nw_allocs (?vs ! k))"
  proof (intro allI impI)
    fix k :: nat
    assume "1 \<le> k \<and> k \<le> 2"
    then have "k = 1 \<or> k = 2" by auto
    with p show "''p'' \<in> PodName ` set (nw_allocs (?vs ! k))" by auto
  qed
  from lease_stable [OF api_server_std_ok demo_history_both _ _ this] obtain x where
    x: "\<And>k. 1 \<le> k \<and> k \<le> 2 \<Longrightarrow> leases (ipam_of (?vs ! k)) ''p'' = Some x" by auto
  from x [of 1] x [of 2] show ?thesis by (auto simp: numeral_2_eq_2)
qed

text \<open>C13: a deleted network can always be removed. If the API server takes writes that are based on the
  current version, then, whatever happened before, if the network has been deleted and carries only the
  operator's finalizer, the members can be released one by one, and after the last of them the
  update that the network reconciler sends removes the network. The pod reconciler never gets stuck
  on a status it has written, and the guard of the network reconciler never blocks the removal for
  good.\<close>

theorem deleted_network_can_be_removed:
  assumes "api_server_ok S" and "accepts_current S" and "history S L D enc vs False"
    and "DeletionTimestamp (nw_meta (last vs)) \<noteq> None"
    and "Finalizers (nw_meta (last vs)) = [OVERLAY_NETWORK_FINALIZER]"
  shows "\<exists>ws. history S L D enc (vs @ ws) True \<and> length ws = length (nw_allocs (last vs))"
  using assms by (rule history_drains)

definition demo_closing :: OverlayNetwork where
  "demo_closing = stamp [demo_created, demo_joined] (demo_joined\<lparr>nw_meta := (nw_meta demo_joined)\<lparr>DeletionTimestamp := Some ''now''\<rparr>\<rparr>)"

lemma demo_history_closing:
  "history api_server_std lo_std OverlayNetworkValidator.demo_decoder id [demo_created, demo_joined, demo_closing] False"
proof -
  have "srv_delete api_server_std [demo_created, demo_joined] = Inr (Some demo_closing)"
    by (simp add: api_server_std_def demo_closing_def demo_joined_def demo_created_def)
  from history.user_deletes [OF demo_history_joined this] show ?thesis by simp
qed

theorem deleted_network_can_be_removed_witness:
  "\<exists>ws. history api_server_std lo_std OverlayNetworkValidator.demo_decoder id ([demo_created, demo_joined, demo_closing] @ ws) True \<and> length ws = 1"
  using deleted_network_can_be_removed [OF api_server_std_ok accepts_current_std demo_history_closing]
  by (simp add: demo_closing_def demo_joined_def demo_created_def demo_network1_def)

end
