(* ===== verification/Capacity.thy ===== *)
theory Capacity
  imports Ipam
begin

text \<open>
  How many pods an IPv4 network can hold, and when the pod reconciler finds an address: the
  stored versions of a network never hold more allocations than the pool has addresses, and a pod
  without special wishes gets an address as long as fewer pods are members than there are addresses
  above the one written in the CIDR.
\<close>

section \<open>Addresses as numbers\<close>

lemma v4_addr_ip_val: "length q = 4 \<Longrightarrow> v4InV6Prefix @ q = v4_addr (ip_val q)"
  using ip_val_less [of q] at_v4_mapped [of q "ip_val q"] at_v4_addr [of "ip_val q"] by simp

lemma IP_String_v4_inj:
  assumes "x < 2 ^ 32" and "y < 2 ^ 32" and "IP_String (v4_addr x) = IP_String (v4_addr y)"
  shows "x = y"
proof -
  have "ParseIP (IP_String (v4_addr z)) = v4_addr z" for z
    by (simp add: v4_addr_def IP_String_mapped ParseIP_dotted)
  then have "v4_addr x = v4_addr y" using assms(3) by metis
  with ip_val_v4_addr [OF assms(1)] ip_val_v4_addr [OF assms(2)] show ?thesis by (simp add: at_v4_def)
qed

lemma Contains_v4E:
  assumes p: "length p = 4" and "Contains (v4_net p n) ip"
  obtains q where "length q = 4" "Contains (v4_net p n) (v4InV6Prefix @ q)" "IP_String ip = dotted q"
proof (cases "To4 ip = []")
  case True
  with assms have "length ip = 4"
    by (auto simp: Contains_def networkNumberAndMask_v4 simp del: mask_bytes_numeral)
  with True show thesis by (simp add: To4_def)
next
  case False
  then show thesis
  proof (cases rule: To4_cases)
    case four
    then have "ip \<noteq> []" by auto
    with four assms(2) that [of ip] show thesis by (simp add: Contains_def IP_String_def)
  next
    case (mapped q)
    with assms(2) that [of q] show thesis by (simp add: IP_String_mapped)
  qed
qed

definition pool_size :: "nat \<Rightarrow> nat" where
  "pool_size n = 2 ^ (32 - n)"

text \<open>The texts of the addresses of an IPv4 network are those of a block of numbers.\<close>

lemma in_pool_v4:
  assumes p: "length p = 4" "n \<le> 32" and c: "AllocatableCIDR spec = v4_cidr p n" and "in_pool spec s"
  shows "s \<in> (\<lambda>a. IP_String (v4_addr a)) ` {ip_val p div pool_size n * pool_size n ..< (ip_val p div pool_size n + 1) * pool_size n}"
proof -
  obtain ip where ip: "Contains (v4_net p n) ip" "s = IP_String ip"
    using assms(4) by (auto simp: in_pool_def c ParseCIDR_dotted [OF p])
  obtain q where q: "length q = 4" "Contains (v4_net p n) (v4InV6Prefix @ q)" "s = dotted q"
    using Contains_v4E [OF p(1) ip(1)] ip(2) by metis
  have b: "ip_val q div pool_size n = ip_val p div pool_size n"
    using q(2) by (simp add: Contains_v4_net [OF p(1) q(1) p(2)] pool_size_def)
  have pos: "0 < pool_size n" by (simp add: pool_size_def)
  have "ip_val p div pool_size n * pool_size n \<le> ip_val q" unfolding b [symmetric] by simp
  moreover have "ip_val q < (ip_val p div pool_size n + 1) * pool_size n"
    unfolding b [symmetric] using dividend_less_div_times [OF pos, of "ip_val q"] by (simp add: algebra_simps)
  moreover have "s = IP_String (v4_addr (ip_val q))"
    using q by (simp add: IP_String_mapped flip: v4_addr_ip_val)
  ultimately show ?thesis by auto
qed

lemma pool_capacity:
  assumes p: "length p = 4" "n \<le> 32" and c: "AllocatableCIDR (nw_Spec nw) = v4_cidr p n"
    and ok: "status_ok nw" "pool_ok nw"
  shows "length (nw_allocs nw) \<le> pool_size n"
proof -
  let ?B = "{ip_val p div pool_size n * pool_size n ..< (ip_val p div pool_size n + 1) * pool_size n}"
  have "IP ` set (nw_allocs nw) \<subseteq> (\<lambda>a. IP_String (v4_addr a)) ` ?B"
    using in_pool_v4 [OF p c] ok(2) by (auto simp: pool_ok_def)
  then have "card (IP ` set (nw_allocs nw)) \<le> card ((\<lambda>a. IP_String (v4_addr a)) ` ?B)" by (intro card_mono) auto
  also have "\<dots> \<le> card ?B" by (intro card_image_le) simp
  also have "\<dots> = pool_size n" by (simp add: algebra_simps)
  also have "card (IP ` set (nw_allocs nw)) = length (nw_allocs nw)"
    using ok(1) distinct_card [of "map IP (nw_allocs nw)"] by (simp add: status_ok_def)
  finally show ?thesis .
qed

section \<open>A free address is found\<close>

lemma find_free:
  assumes p: "length p = 4" "n \<le> 32" and few: "length as < v4_pool_end p n - Suc (ip_val p)"
  shows "find (\<lambda>x. \<not> taken (allocation_map as) (v4_addr x)) [Suc (ip_val p) ..< v4_pool_end p n] \<noteq> None"
proof
  let ?R = "{Suc (ip_val p) ..< v4_pool_end p n}"
  assume "find (\<lambda>x. \<not> taken (allocation_map as) (v4_addr x)) [Suc (ip_val p) ..< v4_pool_end p n] = None"
  then have "(\<lambda>x. IP_String (v4_addr x)) ` ?R \<subseteq> IP ` set as"
    by (auto simp: find_None_iff allocation_map_get)
  then have "card ((\<lambda>x. IP_String (v4_addr x)) ` ?R) \<le> card (IP ` set as)" by (intro card_mono) auto
  also have "\<dots> \<le> card (set as)" by (intro card_image_le) simp
  also have "\<dots> \<le> length as" by (rule card_length)
  also have "card ((\<lambda>x. IP_String (v4_addr x)) ` ?R) = card ?R"
    using v4_pool_end_le [OF p] by (intro card_image inj_onI) (auto intro!: IP_String_v4_inj)
  finally show False using few by simp
qed

lemma new_allocation_available:
  assumes p: "length p = 4" "n \<le> 32" and c: "AllocatableCIDR (nw_Spec nw) = v4_cidr p n"
    and "DeletionTimestamp (nw_meta nw) = None" and "requested_ip L nw pod = []"
    and "length (nw_allocs nw) < v4_pool_end p n - Suc (ip_val p)"
  shows "\<exists>a. new_allocation L nw pod en = Returns (Inr a)"
proof -
  obtain x where "find (\<lambda>x. \<not> taken (allocation_map (nw_allocs nw)) (v4_addr x)) [Suc (ip_val p) ..< v4_pool_end p n] = Some x"
    using find_free [OF p assms(6)] by blast
  then show ?thesis
    using assms by (simp add: new_allocation_def ParseCIDR_dotted FirstFreeHost_find pool_result_def)
qed

lemma allocate_status_succeeds:
  assumes lo: "lo_pkg_ok L" and "status_PodIP pod \<noteq> ''''"
    and e: "ensure_allocation L (init_optional nw) pod en = Returns (Inr anw)"
  shows "\<exists>nw'. allocate_status L (init_optional nw) pod isRouter en er = Returns (Inr nw')"
proof -
  obtain m where m: "nw_optional (init_optional nw) = Some m" using init_optional_Some by blast
  obtain a nw1 where anw: "anw = (a, nw1)" by fastforce
  obtain as where "nw1 = with_allocs (init_optional nw) as"
    using ensure_allocation_result [OF lo e [unfolded anw]] by metis
  then have "nw_optional nw1 = Some m" using m by simp
  moreover obtain m' where "add_optional L a er (Some m) = Returns (Some m')"
    using add_optional_result [OF lo] by metis
  ultimately show ?thesis using assms(2) e anw by (simp add: allocate_status_def)
qed

lemma allocate_available:
  assumes lo: "lo_pkg_ok L" and p: "length p = 4" "n \<le> 32" and c: "AllocatableCIDR (nw_Spec nw) = v4_cidr p n"
    and "status_PodIP pod \<noteq> ''''" and "requested_ip L (init_optional nw) pod = []"
    and free: "pod_name pod \<in> PodName ` set (nw_allocs nw) \<or> DeletionTimestamp (nw_meta nw) = None \<and>
      length (nw_allocs nw) < v4_pool_end p n - Suc (ip_val p)"
  shows "\<exists>nw'. allocate_status L (init_optional nw) pod isRouter en er = Returns (Inr nw')"
proof -
  have "\<exists>anw. ensure_allocation L (init_optional nw) pod en = Returns (Inr anw)"
    using lo
  proof (cases rule: ensure_allocation_cases [of L "init_optional nw" pod en])
    case (Refused e)
    with free have "\<exists>a. new_allocation L (init_optional nw) pod en = Returns (Inr a)"
      by (intro new_allocation_available [OF p _ _ assms(6)]) (simp_all add: c)
    with Refused(2) show ?thesis by simp
  qed auto
  with allocate_status_succeeds [OF lo assms(5)] show ?thesis by blast
qed

section \<open>Properties\<close>

text \<open>A stored network never holds more allocations than its pool has addresses.\<close>

lemma stored_network_within_capacity:
  assumes "api_server_ok S" and "history S L D enc vs g" and "v \<in> set vs"
    and "AllocatableCIDR (nw_Spec v) = v4_cidr p n" and "length p = 4" and "n \<le> 32"
  shows "length (nw_allocs v) \<le> 2 ^ (32 - n)"
  using pool_capacity [OF assms(5,6,4)] history_version_ok [OF assms(1,2)] assms(3)
  by (simp add: version_ok_def pool_size_def)

lemma demo_pool_cidr: "''10.0.0.0/24'' = v4_cidr [10, 0, 0, 0] 24"
  by (simp add: v4_cidr_def go_print_eval)

text \<open>C7: there is an address for everybody while the pool lasts. On every stored version of an IPv4
  network that is not deleted, the allocation for a pod that has its own address and requests no
  particular one succeeds if the network holds fewer allocations than there are addresses above
  the one in the CIDR; for a pod that is a member already it succeeds on a deleted or full network
  too.\<close>

theorem allocation_available:
  assumes "api_server_ok S" and "history S L' D enc vs g" and "v \<in> set vs" and "lo_pkg_ok L"
    and "AllocatableCIDR (nw_Spec v) = v4_cidr p n" and "length p = 4" and "n \<le> 32"
    and "status_PodIP pod \<noteq> ''''" and "requested_ip L (init_optional v) pod = []"
    and "pod_name pod \<in> PodName ` set (nw_allocs v) \<or> DeletionTimestamp (nw_meta v) = None \<and>
      length (nw_allocs v) < v4_pool_end p n - Suc (ip_val p)"
  shows "\<exists>nw'. allocate_status L (init_optional v) pod isRouter en er = Returns (Inr nw') \<and> status_ok nw' \<and>
    (\<exists>a \<in> set (nw_allocs nw'). PodName a = pod_name pod)"
proof -
  obtain nw' where run: "allocate_status L (init_optional v) pod isRouter en er = Returns (Inr nw')"
    using allocate_available [OF assms(4,6,7,5,8,9,10)] by blast
  have "status_ok v" using history_version_ok [OF assms(1,2)] assms(3) by (auto simp: version_ok_def)
  with run allocate_membership [OF assms(4) run] status_step_ok [OF status_step.allocate [OF assms(4) run]]
  show ?thesis by auto
qed

theorem allocation_available_witness:
  "\<exists>nw'. allocate_status lo_pkg_std (init_optional demo_joined) (demo_pod ''q'') False [] [] = Returns (Inr nw') \<and>
     status_ok nw' \<and> (\<exists>a \<in> set (nw_allocs nw'). PodName a = pod_name (demo_pod ''q''))"
proof (rule allocation_available [OF api_server_std_ok demo_history_joined _ lo_pkg_std_ok, where p = "[10, 0, 0, 0]" and n = 24])
  show "requested_ip lo_pkg_std (init_optional demo_joined) (demo_pod ''q'') = []"
    by (simp add: requested_ip_def demo_pod_def demo_meta_def)
  show "pod_name (demo_pod ''q'') \<in> PodName ` set (nw_allocs demo_joined) \<or>
    DeletionTimestamp (nw_meta demo_joined) = None \<and>
    length (nw_allocs demo_joined) < v4_pool_end [10, 0, 0, 0] 24 - Suc (ip_val [10, 0, 0, 0])"
    by (rule disjI2) (simp add: demo_joined_def demo_created_def demo_network1_def PodStatus.demo_network_def demo_meta_def v4_pool_end_def)
qed (simp_all add: demo_joined_def demo_created_def PodStatus.demo_network_def demo_pod_def demo_pool_cidr)

end
