(* ===== verification/Convergence.thy ===== *)
theory Convergence
  imports PodReconcile
begin

text \<open>
  What the pod reconciler achieves when it is left alone: once it has reported success for each of a set of pods, in
  any order, every network contains of these pods exactly those that ask for it. The API server is a parameter;
  \<open>pod_store_ok\<close> states that it stores what it accepts and lists what it stores.
\<close>

section \<open>A server that stores networks\<close>

text \<open>
  Objects are stored by namespace and name: \<open>nets\<close> are the stored networks and \<open>pods\<close> the stored pods. Every call may
  fail, but a call that reports \<open>NotFound\<close> says that the object is missing, and one that succeeds has read or
  written it. A list call for a namespace returns the networks of this namespace only; the law leaves
  open what the empty namespace stands for (in Kubernetes, all of them).
\<close>

type_synonym key = "string \<times> string"

abbreviation nw_key :: "OverlayNetwork \<Rightarrow> key" where
  "nw_key nw \<equiv> (Namespace (nw_meta nw), nw_name nw)"

abbreviation pod_key :: "Pod \<Rightarrow> key" where
  "pod_key pod \<equiv> (Namespace (pod_meta pod), pod_name pod)"

definition pod_store_ok :: "'s kube \<Rightarrow> ('s \<Rightarrow> key \<Rightarrow> OverlayNetwork option) \<Rightarrow> ('s \<Rightarrow> key \<Rightarrow> Pod option) \<Rightarrow> bool" where
  "pod_store_ok K nets pods \<longleftrightarrow>
     (\<forall>ns p s r s'. kGetPod K ns p s = (r, s') \<longrightarrow> nets s' = nets s \<and> pods s' = pods s \<and>
        (r = Inl NotFound \<longrightarrow> pods s (ns, p) = None) \<and> (\<forall>pod. r = Inr pod \<longrightarrow> pods s (ns, p) = Some pod)) \<and>
     (\<forall>ns s r s'. ns \<noteq> '''' \<longrightarrow> kListNetworks K ns s = (r, s') \<longrightarrow> nets s' = nets s \<and> pods s' = pods s \<and>
        (\<forall>items. r = Inr items \<longrightarrow> distinct (map nw_name items) \<and> (\<forall>nw \<in> set items. Namespace (nw_meta nw) = ns) \<and>
           (\<forall>n nw. nets s (ns, n) = Some nw \<longleftrightarrow> nw \<in> set items \<and> nw_name nw = n))) \<and>
     (\<forall>nw s e s'. kWrite K (UpdateNetworkStatus nw) s = (e, s') \<longrightarrow> pods s' = pods s \<and>
        (if e = None then \<exists>v. nets s' = (nets s)(nw_key nw \<mapsto> v) \<and> nw_Status v = nw_Status nw \<and> nw_key v = nw_key nw
         else nets s' = nets s \<and> (e = Some NotFound \<longrightarrow> nets s (nw_key nw) = None))) \<and>
     (\<forall>pod s e s'. kWrite K (UpdatePod pod) s = (e, s') \<longrightarrow> nets s' = nets s \<and> (\<forall>q. q \<noteq> pod_key pod \<longrightarrow> pods s' q = pods s q))"

lemma store_get:
  assumes "pod_store_ok K nets pods" and "read_env (kGetPod K ns p) w = (r, w')"
  shows "nets (env w') = nets (env w)" "pods (env w') = pods (env w)"
    "r = Inl NotFound \<Longrightarrow> pods (env w) (ns, p) = None" "r = Inr pod \<Longrightarrow> pods (env w) (ns, p) = Some pod"
  using assms unfolding pod_store_ok_def read_env_def by (auto split: prod.splits)

lemma store_list:
  assumes "pod_store_ok K nets pods" and "read_env (kListNetworks K ns) w = (Inr items, w')" and "ns \<noteq> ''''"
  shows "nets (env w') = nets (env w)" "pods (env w') = pods (env w)" "distinct (map nw_name items)"
    "nets (env w) (ns, n) = Some nw \<longleftrightarrow> nw \<in> set items \<and> nw_name nw = n" "\<forall>nw \<in> set items. Namespace (nw_meta nw) = ns"
proof -
  obtain s' where "kListNetworks K ns (env w) = (Inr items, s')" "w' = w\<lparr>env := s'\<rparr>"
    using assms(2) by (auto simp: read_env_def split: prod.splits)
  then show "nets (env w') = nets (env w)" "pods (env w') = pods (env w)" "distinct (map nw_name items)"
    "nets (env w) (ns, n) = Some nw \<longleftrightarrow> nw \<in> set items \<and> nw_name nw = n" "\<forall>nw \<in> set items. Namespace (nw_meta nw) = ns"
    using assms(1,3) unfolding pod_store_ok_def by auto
qed

lemma env_write: "write_api K q w = (e, w') \<Longrightarrow> kWrite K q (env w) = (e, env w')"
  by (auto simp: write_api_def split: prod.splits)

lemma store_push:
  assumes "pod_store_ok K nets pods" and "push_status K nw w = (None, w')" and "nets (env w) (nw_key nw) \<noteq> None"
  shows "pods (env w') = pods (env w)"
    "\<exists>v. nets (env w') = (nets (env w))(nw_key nw \<mapsto> v) \<and> nw_Status v = nw_Status nw \<and> nw_key v = nw_key nw"
proof -
  obtain e w1 where wr: "write_api K (UpdateNetworkStatus nw) w = (e, w1)" by fastforce
  then have w1: "w1 = w'" "tolerated e" using assms(2) by (auto simp: push_status_eq tolerated_def split: if_splits)
  note law = assms(1) [unfolded pod_store_ok_def, THEN conjunct2, THEN conjunct2, THEN conjunct1, rule_format,
      OF env_write [OF wr]]
  have "e = None" using law w1(2) assms(3) by (auto simp: tolerated_def)
  with law w1(1) show "pods (env w') = pods (env w)"
    "\<exists>v. nets (env w') = (nets (env w))(nw_key nw \<mapsto> v) \<and> nw_Status v = nw_Status nw \<and> nw_key v = nw_key nw"
    by simp_all
qed

lemma store_update_pod:
  assumes "pod_store_ok K nets pods" and "write_api K (UpdatePod pod) w = (e, w')"
  shows "nets (env w') = nets (env w)" "q \<noteq> pod_key pod \<Longrightarrow> pods (env w') q = pods (env w) q"
  using assms(1) env_write [OF assms(2)] unfolding pod_store_ok_def by blast+

section \<open>One run of the reconciler\<close>

text \<open>A network after the turn of pod \<open>p\<close>, which is to be a member or not.\<close>

definition after_turn :: "string \<Rightarrow> bool \<Rightarrow> OverlayNetwork \<Rightarrow> OverlayNetwork \<Rightarrow> bool" where
  "after_turn p member nw v \<longleftrightarrow> nw_key v = nw_key nw \<and> others p (nw_allocs v) = others p (nw_allocs nw) \<and>
     (p \<in> PodName ` set (nw_allocs v) \<longleftrightarrow> member)"

lemma process_networks_errors:
  assumes "lo_pkg_ok L" and "process_networks L K pod rn ens ers items uniq True w = Returns (uniq', h', w')"
  shows h'
  using process_networks_result [OF assms(1), of K pod rn ens ers items uniq True w] assms(2)
  by (auto simp: loop_post_def)

lemma process_networks_store:
  assumes S: "pod_store_ok K nets pods" and lo: "lo_pkg_ok L"
  shows "process_networks L K pod rn ens ers items uniq h w = Returns (uniq', False, w') \<Longrightarrow>
    distinct (map nw_name items) \<Longrightarrow> \<forall>nw \<in> set items. nets (env w) (nw_key nw) = Some nw \<Longrightarrow>
    pods (env w') = pods (env w) \<and> (\<forall>k. k \<notin> nw_key ` set items \<longrightarrow> nets (env w') k = nets (env w) k) \<and>
    (\<forall>nw \<in> set items. \<exists>v. nets (env w') (nw_key nw) = Some v \<and> after_turn (pod_name pod) (gm_has uniq (nw_name nw)) nw v)"
proof (induction items arbitrary: uniq h w)
  case (Cons item items)
  let ?nw = "init_optional item" and ?p = "pod_name pod"
  have here: "nets (env w) (nw_key item) = Some item" using Cons.prems(3) by simp
  text \<open>The rest of the loop after the turn of the pod on \<open>item\<close>.\<close>
  have rest: ?case if push: "push_status K nw1 w = (None, w1)"
      and run: "process_networks L K pod rn ens ers items u h1 w1 = Returns (uniq', False, w')"
      and u: "\<And>n. n \<noteq> nw_name item \<Longrightarrow> gm_has u n = gm_has uniq n"
      and turn: "nw_meta nw1 = nw_meta item" "others ?p (nw_allocs nw1) = others ?p (nw_allocs item)"
        "?p \<in> PodName ` set (nw_allocs nw1) \<longleftrightarrow> gm_has uniq (nw_name item)"
    for nw1 w1 u h1
  proof -
    have nm: "nw_key nw1 = nw_key item" using turn(1) by simp
    have "nets (env w) (nw_key nw1) \<noteq> None" using here by (simp add: nm)
    then obtain v where v: "nets (env w1) = (nets (env w))(nw_key item \<mapsto> v)" "nw_Status v = nw_Status nw1" "nw_key v = nw_key item"
      using store_push(2) [OF S push] nm by metis
    have same_pods: "pods (env w1) = pods (env w)" using \<open>nets (env w) (nw_key nw1) \<noteq> None\<close> by (rule store_push(1) [OF S push])
    have fresh: "nw_name item \<notin> nw_name ` set items" "nw_key item \<notin> nw_key ` set items" using Cons.prems(2) by auto
    have cur: "\<forall>nw \<in> set items. nets (env w1) (nw_key nw) = Some nw"
      using Cons.prems(3) v(1) fresh(2) by (metis (no_types, lifting) fun_upd_other image_eqI list.set_intros(2))
    have d: "distinct (map nw_name items)" using Cons.prems(2) by simp
    note ih = Cons.IH [OF run d cur]
    have "nets (env w') (nw_key item) = Some v" using ih fresh(2) v(1) by simp
    moreover have "after_turn ?p (gm_has uniq (nw_name item)) item v" using v(2,3) turn by (simp add: after_turn_def)
    moreover have "gm_has u (nw_name nw) = gm_has uniq (nw_name nw)" if "nw \<in> set items" for nw
      using that fresh(1) u by (metis image_eqI)
    ultimately show ?thesis using ih v(1) same_pods by auto
  qed
  show ?case
  proof (cases "gm_has uniq (nw_name item)")
    case wanted: True
    show ?thesis
      using lo
    proof (cases rule: allocateIP_result [of L K item pod "gm_has rn (nw_name item)"
          "names_for L ?nw ens" "names_for L ?nw ers" w])
      case (Refused e)
      with Cons.prems(1) wanted have "process_networks L K pod rn ens ers items uniq True w = Returns (uniq', False, w')"
        by (simp add: Let_def)
      with process_networks_errors [OF lo] show ?thesis by blast
    next
      case (Sent nw1 e w1)
      have push: "push_status K nw1 w = (e, w1)" using Sent(1,2) by (simp add: allocateIP_def)
      show ?thesis
      proof (cases e)
        case (Some err)
        with Cons.prems(1) wanted Sent(1) have "process_networks L K pod rn ens ers items uniq True w1 = Returns (uniq', False, w')"
          by (simp add: Let_def)
        with process_networks_errors [OF lo] show ?thesis by blast
      next
        case None
        with Cons.prems(1) wanted Sent(1) have run: "process_networks L K pod rn ens ers items (gm_put uniq (nw_name item) True) h w1
            = Returns (uniq', False, w')" by (simp add: Let_def)
        have frame: "nw_meta nw1 = nw_meta item" "others ?p (nw_allocs nw1) = others ?p (nw_allocs item)"
          using status_step_frame [OF status_step.allocate [OF lo Sent(2)]] by simp_all
        obtain a where "a \<in> set (nw_allocs nw1)" "PodName a = ?p" using allocate_membership [OF lo Sent(2)] by blast
        then have mem: "?p \<in> PodName ` set (nw_allocs nw1)" by (metis image_eqI)
        show ?thesis
          by (rule rest [OF push [unfolded None] run]) (use frame mem wanted in simp_all)
      qed
    qed
  next
    case unwanted: False
    let ?nw1 = "deallocate_status L ?nw pod"
    obtain e w1 where push: "push_status K ?nw1 w = (e, w1)" by fastforce
    then have d: "deallocateIP L K ?nw pod w = (e, w1)" by (simp add: deallocateIP_def)
    show ?thesis
    proof (cases e)
      case (Some err)
      with Cons.prems(1) unwanted d have "process_networks L K pod rn ens ers items uniq True w1 = Returns (uniq', False, w')"
        by (simp add: Let_def)
      with process_networks_errors [OF lo] show ?thesis by blast
    next
      case None
      with Cons.prems(1) unwanted d have run: "process_networks L K pod rn ens ers items uniq h w1 = Returns (uniq', False, w')"
        by (simp add: Let_def)
      show ?thesis
        by (rule rest [OF push [unfolded None] run]) (use unwanted in \<open>auto simp: deallocate_status_simps [OF lo]\<close>)
    qed
  qed
qed simp

lemma finish_reconcile_world:
  assumes "finalizer_util_ok F" and "finish_reconcile L F K pod del uniq h w = (r, w')"
  obtains (Same) "w' = w"
  | (Updated) pod' e where "write_api K (UpdatePod pod') w = (e, w')" "pod_key pod' = pod_key pod"
proof -
  have rem: "fu_Remove F fs f = (f \<in> set fs, filter (\<lambda>g. g \<noteq> f) fs)" for fs f
    using assms(1) by (simp add: finalizer_util_ok_def)
  show thesis
    using assms(2) Same Updated
    by (cases "POD_FINALIZER \<in> set (Finalizers (pod_meta pod))")
      (auto simp: finish_reconcile_def rem Let_def split: if_splits prod.splits option.splits)
qed

text \<open>A pod asks for a network if it is not deleted and names it in one of its annotations.\<close>

definition asks_for :: "Pod \<Rightarrow> string \<Rightarrow> bool" where
  "asks_for pod n \<longleftrightarrow> DeletionTimestamp (pod_meta pod) = None \<and> n \<in> wanted_networks pod"

lemma reconcile_pod_store:
  assumes S: "pod_store_ok K nets pods" and lo: "lo_pkg_ok L" and fu: "finalizer_util_ok F"
    and pod: "pods (env w) (ns, p) = Some pod" "wants_sidecar pod" "pod_key pod = (ns, p)" "ns \<noteq> ''''"
    and run: "reconcile_pod L F K ns p w = Returns (finished, w')"
  shows "q \<noteq> p \<Longrightarrow> pods (env w') (ns, q) = pods (env w) (ns, q)"
    "nets (env w) (ns, n) = Some nw \<Longrightarrow> \<exists>v. nets (env w') (ns, n) = Some v \<and> after_turn p (asks_for pod n) nw v"
    "m \<noteq> ns \<Longrightarrow> nets (env w') (m, n) = nets (env w) (m, n)"
proof -
  obtain g w1 where g: "read_env (kGetPod K ns p) w = (g, w1)" by fastforce
  note get = store_get [OF S g]
  have "g = Inr pod"
    using run g get(3,4) pod(1) by (cases g) (auto simp: reconcile_pod_eq IsNotFound_def split: if_splits)
  note g = g [unfolded this]
  obtain l w2 where l: "read_env (kListNetworks K (Namespace (pod_meta pod))) w1 = (l, w2)" by fastforce
  then obtain items where items: "l = Inr items" using run g pod(2) by (cases l) (auto simp: reconcile_pod_eq)
  have own: "Namespace (pod_meta pod) = ns" using pod(3) by simp
  note lst = store_list [OF S l [unfolded items own] pod(4)]
  have run': "reconcile_listed L F K pod items w2 = Returns (finished, w')"
    using run g l items pod(2) by (simp add: reconcile_pod_eq)
  let ?del = "DeletionTimestamp (pod_meta pod) \<noteq> None"
  let ?uniq = "if ?del then [] else uniq_networks L pod"
  obtain uniq' h w3 where loop: "process_networks L K pod
       (if ?del then [] else name_set L (annotation_list L pod POD_NETWORK_ROUTER_ANNOTATION))
       (annotation_list L pod POD_NETWORK_EXTRA_ROUTE_ANNOTATION)
       (annotation_list L pod POD_NETWORK_EXTRA_ROUTER_ANNOTATION) items ?uniq False w2 = Returns (uniq', h, w3)"
    and post: "gm_ok ?uniq \<longrightarrow> gm_ok uniq'"
    using process_networks_result [OF lo] unfolding loop_post_def by metis
  have fin: "finish_reconcile L F K pod ?del uniq' h w3 = (finished, w')"
    using run' loop by (simp add: reconcile_listed_def Let_def)
  have "gm_ok ?uniq" using uniq_networks_get(2) [OF lo] by (simp add: gm_ok_def)
  then have "\<not> h" using finish_reconcile_finished [OF lo _ fin] post by blast
  then have h: "h = False" by simp
  have same: "nets (env w') = nets (env w3)" and frame: "q \<noteq> (ns, p) \<Longrightarrow> pods (env w') q = pods (env w3) q" for q
    using fu fin pod(3) by (cases rule: finish_reconcile_world; auto dest: store_update_pod [OF S])+
  have w2: "nets (env w2) = nets (env w)" "pods (env w2) = pods (env w)" using lst(1,2) get(1,2) by simp_all
  have uniq: "gm_has ?uniq n \<longleftrightarrow> asks_for pod n" for n
    using uniq_networks_get(1) [OF lo, of pod n] by (auto simp: asks_for_def gm_has_def split: if_splits)
  have cur: "\<forall>nw \<in> set items. nets (env w2) (nw_key nw) = Some nw" using lst(1,4,5) by auto
  note st = process_networks_store [OF S lo loop [unfolded h] lst(3) cur, unfolded uniq]
  show "q \<noteq> p \<Longrightarrow> pods (env w') (ns, q) = pods (env w) (ns, q)" using frame st w2(2) by simp
  show "m \<noteq> ns \<Longrightarrow> nets (env w') (m, n) = nets (env w) (m, n)" using st same lst(5) w2(1) by auto
  assume "nets (env w) (ns, n) = Some nw"
  then have "nw \<in> set items" "nw_key nw = (ns, n)" using lst(4) [of n nw] lst(5) get(1) by simp_all
  with st same pod(3) show "\<exists>v. nets (env w') (ns, n) = Some v \<and> after_turn p (asks_for pod n) nw v" by fastforce
qed

section \<open>A run for each of several pods\<close>

fun reconcile_all ::
  "lo_pkg \<Rightarrow> finalizer_util \<Rightarrow> 's kube \<Rightarrow> string \<Rightarrow> string list \<Rightarrow> 's world \<Rightarrow> (ctrl_result list \<times> 's world) outcome" where
  "reconcile_all L F K ns [] w = Returns ([], w)"
| "reconcile_all L F K ns (p # ps) w =
     bind_outcome (reconcile_pod L F K ns p w) (\<lambda>(r, w).
       bind_outcome (reconcile_all L F K ns ps w) (\<lambda>(rs, w). Returns (r # rs, w)))"

lemma reconcile_pod_returns:
  assumes "lo_pkg_ok L" and "finalizer_util_ok F"
  shows "\<exists>r w'. reconcile_pod L F K ns p w = Returns (r, w')"
  using assms by (cases rule: reconcile_pod_cases [of L F K ns p w])
    (metis reconcile_listed_result [OF assms])+

lemma reconcile_all_returns:
  assumes "lo_pkg_ok L" and "finalizer_util_ok F"
  shows "\<exists>rs w'. reconcile_all L F K ns ps w = Returns (rs, w') \<and> length rs = length ps"
proof (induction ps arbitrary: w)
  case (Cons p ps)
  obtain r w1 where "reconcile_pod L F K ns p w = Returns (r, w1)"
    using reconcile_pod_returns [OF assms] by blast
  with Cons.IH [of w1] show ?case by auto
qed simp

lemma reconcile_all_store:
  assumes S: "pod_store_ok K nets pods" and lo: "lo_pkg_ok L" and fu: "finalizer_util_ok F" and ns: "ns \<noteq> ''''"
  shows "reconcile_all L F K ns ps w = Returns (rs, w') \<Longrightarrow> set rs \<subseteq> {finished} \<Longrightarrow> distinct ps \<Longrightarrow>
    \<forall>p \<in> set ps. pods (env w) (ns, p) = Some (want p) \<and> wants_sidecar (want p) \<and> pod_key (want p) = (ns, p) \<Longrightarrow>
    nets (env w) (ns, n) = Some nw \<Longrightarrow>
    \<exists>v. nets (env w') (ns, n) = Some v \<and> (\<forall>p \<in> set ps. p \<in> PodName ` set (nw_allocs v) \<longleftrightarrow> asks_for (want p) n) \<and>
      filter (\<lambda>a. PodName a \<notin> set ps) (nw_allocs v) = filter (\<lambda>a. PodName a \<notin> set ps) (nw_allocs nw)"
proof (induction ps arbitrary: w rs nw)
  case (Cons p ps)
  obtain r w1 where one: "reconcile_pod L F K ns p w = Returns (r, w1)"
    using reconcile_pod_returns [OF lo fu] by blast
  with Cons.prems(1) obtain rs' where rest: "reconcile_all L F K ns ps w1 = Returns (rs', w')" "rs = r # rs'"
    by (auto simp: bind_outcome_eq_Returns)
  have "r = finished" using rest(2) Cons.prems(2) by simp
  note turn = reconcile_pod_store [OF S lo fu _ _ _ _ one [unfolded this], of "want p"]
  have p: "pods (env w) (ns, p) = Some (want p)" "wants_sidecar (want p)" "pod_key (want p) = (ns, p)" "ns \<noteq> ''''"
    using Cons.prems(4) ns by simp_all
  obtain u where u: "nets (env w1) (ns, n) = Some u" "after_turn p (asks_for (want p) n) nw u"
    using turn(2) [OF p Cons.prems(5)] by blast
  have "\<forall>q \<in> set ps. pods (env w1) (ns, q) = Some (want q) \<and> wants_sidecar (want q) \<and> pod_key (want q) = (ns, q)"
    using Cons.prems(3,4) turn(1) [OF p] by (metis distinct.simps(2) list.set_intros(2))
  then obtain v where v: "nets (env w') (ns, n) = Some v" "\<forall>q \<in> set ps. q \<in> PodName ` set (nw_allocs v) \<longleftrightarrow> asks_for (want q) n"
    "filter (\<lambda>a. PodName a \<notin> set ps) (nw_allocs v) = filter (\<lambda>a. PodName a \<notin> set ps) (nw_allocs u)"
    using Cons.IH [OF rest(1) _ _ _ u(1)] Cons.prems(2,3) rest(2) by auto
  have "p \<notin> set ps" using Cons.prems(3) by simp
  then have kept: "p \<in> PodName ` set (nw_allocs x) \<longleftrightarrow> p \<in> PodName ` set (filter (\<lambda>a. PodName a \<notin> set ps) (nw_allocs x))" for x
    by auto
  have split_p: "filter (\<lambda>a. PodName a \<notin> set (p # ps)) xs = others p (filter (\<lambda>a. PodName a \<notin> set ps) xs)"
    "others p (filter (\<lambda>a. PodName a \<notin> set ps) xs) = filter (\<lambda>a. PodName a \<notin> set ps) (others p xs)" for xs
    by (simp_all add: conj_commute)
  have "p \<in> PodName ` set (nw_allocs v) \<longleftrightarrow> asks_for (want p) n"
    using u(2) kept [of u] kept [of v] v(3) by (simp add: after_turn_def)
  moreover have "filter (\<lambda>a. PodName a \<notin> set (p # ps)) (nw_allocs v) = filter (\<lambda>a. PodName a \<notin> set (p # ps)) (nw_allocs nw)"
    using u(2) by (simp only: split_p v(3)) (simp only: split_p(2) after_turn_def)
  ultimately show ?case using v(1,2) by auto
qed auto

lemma reconcile_all_elsewhere:
  assumes S: "pod_store_ok K nets pods" and lo: "lo_pkg_ok L" and fu: "finalizer_util_ok F" and ns: "ns \<noteq> ''''" "m \<noteq> ns"
  shows "reconcile_all L F K ns ps w = Returns (rs, w') \<Longrightarrow> set rs \<subseteq> {finished} \<Longrightarrow> distinct ps \<Longrightarrow>
    \<forall>p \<in> set ps. pods (env w) (ns, p) = Some (want p) \<and> wants_sidecar (want p) \<and> pod_key (want p) = (ns, p) \<Longrightarrow>
    nets (env w') (m, n) = nets (env w) (m, n)"
proof (induction ps arbitrary: w rs)
  case (Cons p ps)
  obtain r w1 where one: "reconcile_pod L F K ns p w = Returns (r, w1)"
    using reconcile_pod_returns [OF lo fu] by blast
  with Cons.prems(1) obtain rs' where rest: "reconcile_all L F K ns ps w1 = Returns (rs', w')" "rs = r # rs'"
    by (auto simp: bind_outcome_eq_Returns)
  have "r = finished" using rest(2) Cons.prems(2) by simp
  note turn = reconcile_pod_store [OF S lo fu _ _ _ _ one [unfolded this], of "want p"]
  have p: "pods (env w) (ns, p) = Some (want p)" "wants_sidecar (want p)" "pod_key (want p) = (ns, p)" "ns \<noteq> ''''"
    using Cons.prems(4) ns by simp_all
  have "\<forall>q \<in> set ps. pods (env w1) (ns, q) = Some (want q) \<and> wants_sidecar (want q) \<and> pod_key (want q) = (ns, q)"
    using Cons.prems(3,4) turn(1) [OF p] by (metis distinct.simps(2) list.set_intros(2))
  with Cons.IH [OF rest(1)] Cons.prems(2,3) rest(2) turn(3) [OF p ns(2)] show ?case by simp
qed simp

section \<open>A server in memory\<close>

text \<open>The networks are a list, of which the first of each namespace and name counts; the pods are a map.\<close>

definition named :: "OverlayNetwork list \<Rightarrow> key \<Rightarrow> OverlayNetwork option" where
  "named xs k = find (\<lambda>nw. nw_key nw = k) xs"

text \<open>The networks of a namespace, or all of them.\<close>

definition listed :: "string \<Rightarrow> OverlayNetwork list \<Rightarrow> OverlayNetwork list" where
  "listed ns xs = map (\<lambda>k. the (named xs k)) (remdups (map nw_key (if ns = '''' then xs else filter (\<lambda>nw. Namespace (nw_meta nw) = ns) xs)))"

definition put_status :: "OverlayNetwork \<Rightarrow> OverlayNetwork list \<Rightarrow> OverlayNetwork list" where
  "put_status nw xs = map (\<lambda>x. if nw_key x = nw_key nw then x\<lparr>nw_Status := nw_Status nw\<rparr> else x) xs"

definition memory_kube :: "(OverlayNetwork list \<times> (key \<Rightarrow> Pod option)) kube" where
  "memory_kube = \<lparr>kGetPod = (\<lambda>ns p s. (case snd s (ns, p) of None \<Rightarrow> Inl NotFound | Some pod \<Rightarrow> Inr pod, s)),
     kGetNetwork = (\<lambda>ns n s. (case named (fst s) (ns, n) of None \<Rightarrow> Inl NotFound | Some nw \<Rightarrow> Inr nw, s)),
     kGetServiceAccount = (\<lambda>_ _ s. (Inl NotFound, s)), kGetSecret = (\<lambda>_ _ s. (Inl NotFound, s)),
     kGetRoleBinding = (\<lambda>_ _ s. (Inl NotFound, s)),
     kListNetworks = (\<lambda>ns s. (Inr (listed ns (fst s)), s)),
     kWrite = (\<lambda>q s. case q of
         UpdateNetworkStatus nw \<Rightarrow> if named (fst s) (nw_key nw) = None then (Some NotFound, s) else (None, (put_status nw (fst s), snd s))
       | UpdatePod pod \<Rightarrow> (None, (fst s, (snd s)(pod_key pod \<mapsto> pod)))
       | _ \<Rightarrow> (None, s))\<rparr>"

lemma named_Cons: "named (x # xs) k = (if nw_key x = k then Some x else named xs k)"
  by (simp add: named_def)

lemma named_Nil [simp]: "named [] k = None"
  by (simp add: named_def)

lemma named_put_status:
  "named xs (nw_key nw) = Some x \<Longrightarrow> named (put_status nw xs) = (named xs)(nw_key nw \<mapsto> x\<lparr>nw_Status := nw_Status nw\<rparr>)"
  "named xs k = Some x \<Longrightarrow> nw_key x = k"
proof -
  have other: "named (put_status nw xs) k = named xs k" if "k \<noteq> nw_key nw" for k
    using that by (induction xs) (auto simp: named_Cons put_status_def)
  have same: "named xs (nw_key nw) = Some x \<Longrightarrow> named (put_status nw xs) (nw_key nw) = Some (x\<lparr>nw_Status := nw_Status nw\<rparr>)"
    by (induction xs) (auto simp: named_Cons put_status_def split: if_splits)
  show "named xs (nw_key nw) = Some x \<Longrightarrow> named (put_status nw xs) = (named xs)(nw_key nw \<mapsto> x\<lparr>nw_Status := nw_Status nw\<rparr>)"
    using other same by auto
  show "named xs k = Some x \<Longrightarrow> nw_key x = k"
    by (induction xs) (auto simp: named_Cons split: if_splits)
qed

lemma named_None: "named xs k = None \<longleftrightarrow> k \<notin> nw_key ` set xs"
  by (induction xs) (auto simp: named_Cons)

lemma listed:
  assumes "ns \<noteq> ''''"
  shows "distinct (map nw_name (listed ns xs))" "named xs (ns, n) = Some nw \<longleftrightarrow> nw \<in> set (listed ns xs) \<and> nw_name nw = n"
    "nw \<in> set (listed ns xs) \<Longrightarrow> Namespace (nw_meta nw) = ns"
proof -
  let ?own = "filter (\<lambda>nw. Namespace (nw_meta nw) = ns) xs"
  have nm: "nw_key (the (named xs k)) = k" if "k \<in> nw_key ` set xs" for k
    using that named_put_status(2) named_None [of xs k] by fastforce
  have set: "nw \<in> set (listed ns xs) \<longleftrightarrow> (\<exists>k \<in> nw_key ` set ?own. nw = the (named xs k))" for nw
    using assms by (auto simp: listed_def)
  then show own: "nw \<in> set (listed ns xs) \<Longrightarrow> Namespace (nw_meta nw) = ns" for nw using nm by fastforce
  have keys: "map nw_key (listed ns xs) = remdups (map nw_key ?own)"
    using nm assms by (fastforce simp: listed_def intro!: map_idI)
  then have "distinct (map nw_key (listed ns xs))" by simp
  moreover have "map nw_key (listed ns xs) = map (\<lambda>n. (ns, n)) (map nw_name (listed ns xs))" using own by simp
  ultimately show "distinct (map nw_name (listed ns xs))" by (auto simp: distinct_map inj_on_def)
  show "named xs (ns, n) = Some nw \<longleftrightarrow> nw \<in> set (listed ns xs) \<and> nw_name nw = n"
  proof
    assume n: "named xs (ns, n) = Some nw"
    then have "(ns, n) \<in> nw_key ` set xs" using named_None [of xs "(ns, n)"] by simp
    then have k: "(ns, n) \<in> nw_key ` set ?own" by auto
    from named_put_status(2) [OF n] show "nw \<in> set (listed ns xs) \<and> nw_name nw = n"
      unfolding set by (intro conjI bexI [OF _ k]) (simp_all add: n)
  next
    assume a: "nw \<in> set (listed ns xs) \<and> nw_name nw = n"
    then obtain k where k: "k \<in> nw_key ` set ?own" "nw = the (named xs k)" unfolding set by blast
    then have kx: "k \<in> nw_key ` set xs" by auto
    have "fst k = ns" using k(1) by auto
    moreover have "snd k = n" using nm [OF kx] k(2) a by (metis snd_conv)
    moreover obtain x where "named xs k = Some x" using named_None [of xs k] kx by blast
    ultimately show "named xs (ns, n) = Some nw" using k(2) by (cases k) simp
  qed
qed

lemma memory_kube_ok: "pod_store_ok memory_kube (\<lambda>s. named (fst s)) snd"
proof -
  have upd: "\<exists>v. named (put_status nw xs) = (named xs)(nw_key nw \<mapsto> v) \<and> nw_Status v = nw_Status nw \<and>
      Namespace (nw_meta v) = Namespace (nw_meta nw) \<and> nw_name v = nw_name nw"
    if "named xs (nw_key nw) = Some y" for nw xs y
    using named_put_status(1) [OF that] named_put_status(2) [OF that] by (intro exI [of _ "y\<lparr>nw_Status := nw_Status nw\<rparr>"]) simp
  have ls: "distinct (map nw_name items) \<and> (\<forall>nw \<in> set items. Namespace (nw_meta nw) = ns) \<and>
      (\<forall>n nw. named xs (ns, n) = Some nw \<longleftrightarrow> nw \<in> set items \<and> nw_name nw = n)"
    if "ns \<noteq> ''''" "items = listed ns xs" for ns items xs
    using listed(1) [OF that(1), of xs] listed(2) [OF that(1), of xs] listed(3) [OF that(1), of _ xs] that(2) by blast
  show ?thesis
    unfolding pod_store_ok_def
  proof (intro conjI, goal_cases)
    case 1
    show ?case by (auto simp: memory_kube_def split: option.splits)
  next
    case 2
    show ?case by (simp add: memory_kube_def ls)
  next
    case 3
    show ?case by (auto simp: memory_kube_def intro: upd)
  next
    case 4
    show ?case by (simp add: memory_kube_def)
  qed
qed

section \<open>Property\<close>

definition demo_pods :: "string \<Rightarrow> Pod" where
  "demo_pods n = (if n = ''p'' then demo_deleted else demo_member\<lparr>pod_meta := (pod_meta demo_member)\<lparr>Name := n\<rparr>\<rparr>)"

text \<open>A network of the same name in another namespace is stored too.\<close>

definition demo_foreign :: OverlayNetwork where
  "demo_foreign = demo_network1\<lparr>nw_meta := (nw_meta demo_network1)\<lparr>Namespace := ''other''\<rparr>\<rparr>"

definition demo_memory :: "(OverlayNetwork list \<times> (key \<Rightarrow> Pod option)) world" where
  "demo_memory = \<lparr>env = ([demo_network1, demo_foreign], \<lambda>k. if fst k = ''ns'' then Some (demo_pods (snd k)) else None), requests = []\<rparr>"

lemma demo_pods_ok: "wants_sidecar (demo_pods n)" "pod_name (demo_pods n) = n" "Namespace (pod_meta (demo_pods n)) = ''ns''"
  by (simp_all add: demo_pods_def wants_sidecar_def demo_cluster_defs gm_get_def demo_meta_def)

lemma demo_asks_for: "asks_for (demo_pods n) ''net'' \<longleftrightarrow> n \<noteq> ''p''"
  by (simp add: demo_pods_def asks_for_def wanted_networks_def demo_cluster_defs demo_defs gm_get_def)

lemmas demo_run_defs = wants_sidecar_def reconcile_pod_eq reconcile_listed_def read_env_def memory_kube_def demo_pods_ok Let_def
  gm_has_def deallocateIP_def push_status_def write_api_def finish_reconcile_def finalizer_util_std_def
  uniq_networks_def name_set_def annotation_list_def names_for_def demo_cluster_defs

lemma demo_run1: "\<exists>w'. reconcile_pod lo_pkg_std finalizer_util_std memory_kube ''ns'' ''p'' demo_memory
    = Returns (finished, w') \<and> env w' = ([demo_network\<lparr>nw_Status := \<lparr>Allocations = [], Routers = [], OptionalRouters = Some [(''vpn'', [])]\<rparr>\<rparr>, demo_foreign],
      (snd (env demo_memory))((''ns'', ''p'') \<mapsto> demo_deleted\<lparr>pod_meta := (pod_meta demo_deleted)\<lparr>Finalizers := []\<rparr>\<rparr>))"
  by (simp add: demo_run_defs demo_memory_def demo_pods_def allocate_eval deallocate_status_def named_def listed_def put_status_def demo_foreign_def)

lemma demo_run2: "env w = ([demo_network\<lparr>nw_Status := \<lparr>Allocations = [], Routers = [], OptionalRouters = Some [(''vpn'', [])]\<rparr>\<rparr>, demo_foreign],
      (snd (env demo_memory))((''ns'', ''p'') \<mapsto> x)) \<Longrightarrow>
    \<exists>w'. reconcile_pod lo_pkg_std finalizer_util_std memory_kube ''ns'' ''q'' w = Returns (finished, w')"
  by (simp add: demo_run_defs demo_memory_def demo_pods_def allocateIP_def allocate_eval go_net_eval go_print_eval named_def listed_def put_status_def demo_foreign_def ex_bool_eq)

lemma demo_run: "\<exists>w'. reconcile_all lo_pkg_std finalizer_util_std memory_kube ''ns'' [''p'', ''q''] demo_memory
    = Returns ([finished, finished], w')"
  using demo_run1 demo_run2 by fastforce

text \<open>C3: the pod reconciler converges. Run it once for each of some labelled pods of a namespace, in any order,
  against a server that stores what it accepts: every run ends, and if all of them report success, then for
  every stored network of the namespace those of the pods that are not deleted and name the network are
  members, the others are not, and the allocations of all other pods are what they were; the networks
  of all other namespaces are unchanged.\<close>

theorem pods_converge:
  assumes "pod_store_ok K nets pods" and "lo_pkg_ok L" and "finalizer_util_ok F" and "ns \<noteq> ''''" and "distinct ps"
    and "\<forall>p \<in> set ps. pods (env w) (ns, p) = Some (want p) \<and> wants_sidecar (want p) \<and> pod_key (want p) = (ns, p)"
  shows "\<exists>rs w'. reconcile_all L F K ns ps w = Returns (rs, w') \<and> length rs = length ps \<and>
    (set rs \<subseteq> {finished} \<longrightarrow>
       (\<forall>n nw. nets (env w) (ns, n) = Some nw \<longrightarrow>
         (\<exists>v. nets (env w') (ns, n) = Some v \<and> (\<forall>p \<in> set ps. p \<in> PodName ` set (nw_allocs v) \<longleftrightarrow> asks_for (want p) n) \<and>
            filter (\<lambda>a. PodName a \<notin> set ps) (nw_allocs v) = filter (\<lambda>a. PodName a \<notin> set ps) (nw_allocs nw))) \<and>
       (\<forall>m n. m \<noteq> ns \<longrightarrow> nets (env w') (m, n) = nets (env w) (m, n)))"
proof -
  obtain rs w' where run: "reconcile_all L F K ns ps w = Returns (rs, w')" "length rs = length ps"
    using reconcile_all_returns [OF assms(2,3)] by blast
  show ?thesis
    using reconcile_all_store [OF assms(1-4) run(1) _ assms(5,6)] reconcile_all_elsewhere [OF assms(1-4) _ run(1) _ assms(5,6)] run
    by (intro exI [of _ rs] exI [of _ w']) blast
qed

text \<open>\<open>p\<close> is deleted and gives back its address, \<open>q\<close> joins; the network of the same name in another
  namespace keeps its members.\<close>

theorem pods_converge_witness:
  "\<exists>w' v. reconcile_all lo_pkg_std finalizer_util_std memory_kube ''ns'' [''p'', ''q''] demo_memory
      = Returns ([finished, finished], w') \<and> named (fst (env w')) (''ns'', ''net'') = Some v \<and>
    ''p'' \<notin> PodName ` set (nw_allocs v) \<and> ''q'' \<in> PodName ` set (nw_allocs v) \<and>
    named (fst (env w')) (''other'', ''net'') = Some demo_foreign"
proof -
  have p: "\<forall>p \<in> set [''p'', ''q'']. snd (env demo_memory) (''ns'', p) = Some (demo_pods p) \<and> wants_sidecar (demo_pods p) \<and>
      pod_key (demo_pods p) = (''ns'', p)" by (simp add: demo_memory_def demo_pods_ok)
  have n: "named (fst (env demo_memory)) (''ns'', ''net'') = Some demo_network1"
    "named (fst (env demo_memory)) (''other'', ''net'') = Some demo_foreign"
    by (simp_all add: demo_memory_def demo_foreign_def named_Cons demo_defs)
  obtain w' where run: "reconcile_all lo_pkg_std finalizer_util_std memory_kube ''ns'' [''p'', ''q''] demo_memory
      = Returns ([finished, finished], w')" using demo_run by blast
  with pods_converge [OF memory_kube_ok lo_pkg_std_ok finalizer_util_std_ok _ _ p] n
  have all: "\<exists>v. named (fst (env w')) (''ns'', ''net'') = Some v \<and>
      (\<forall>p \<in> set [''p'', ''q'']. p \<in> PodName ` set (nw_allocs v) \<longleftrightarrow> asks_for (demo_pods p) ''net'')"
    "named (fst (env w')) (''other'', ''net'') = Some demo_foreign" by fastforce+
  with run show ?thesis by (auto simp: demo_asks_for)
qed

end
