(* ===== verification/Progress.thy ===== *)
theory Progress
  imports Capacity Convergence
begin

text \<open>
  The pod reconciler makes progress: against a server that answers and accepts updates of what is
  stored, one run is enough to give a pod its place in every network it asks for, provided
  that the networks exist and have room, and one run is enough to take a deleted pod out of all of them.
\<close>

section \<open>A server that accepts current updates\<close>

definition pod_store_accepts :: "'s kube \<Rightarrow> ('s \<Rightarrow> key \<Rightarrow> OverlayNetwork option) \<Rightarrow> ('s \<Rightarrow> key \<Rightarrow> Pod option) \<Rightarrow> bool" where
  "pod_store_accepts K nets pods \<longleftrightarrow>
     (\<forall>ns p s. pods s (ns, p) \<noteq> None \<longrightarrow> (\<exists>pod s'. kGetPod K ns p s = (Inr pod, s'))) \<and>
     (\<forall>ns s. \<exists>items s'. kListNetworks K ns s = (Inr items, s')) \<and>
     (\<forall>nw u s. nets s (nw_key nw) = Some u \<and> nw_meta nw = nw_meta u \<longrightarrow> fst (kWrite K (UpdateNetworkStatus nw) s) = None) \<and>
     (\<forall>pod u s. pods s (pod_key pod) = Some u \<and> ResourceVersion (pod_meta pod) = ResourceVersion (pod_meta u) \<longrightarrow>
        fst (kWrite K (UpdatePod pod) s) = None)"

lemma accepts_push:
  assumes "pod_store_accepts K nets pods" and "nets (env w) (nw_key nw) = Some u" and "nw_meta nw = nw_meta u"
  shows "\<exists>w'. push_status K nw w = (None, w')"
proof -
  obtain e w1 where wr: "write_api K (UpdateNetworkStatus nw) w = (e, w1)" by fastforce
  have "e = None" using assms env_write [OF wr] unfolding pod_store_accepts_def by (metis fst_conv)
  with wr show ?thesis by (simp add: push_status_eq tolerated_def)
qed

lemma accepts_pod:
  assumes "pod_store_accepts K nets pods" and "pods (env w) (pod_key pod) = Some u"
    and "ResourceVersion (pod_meta pod) = ResourceVersion (pod_meta u)"
  shows "\<exists>w'. write_api K (UpdatePod pod) w = (None, w')"
proof -
  obtain e w1 where wr: "write_api K (UpdatePod pod) w = (e, w1)" by fastforce
  have "e = None" using assms env_write [OF wr] unfolding pod_store_accepts_def by (metis fst_conv)
  with wr show ?thesis by simp
qed

section \<open>One run\<close>

text \<open>Nothing stands in the way of the pod's allocation in the network.\<close>

definition has_room :: "lo_pkg \<Rightarrow> OverlayNetwork \<Rightarrow> Pod \<Rightarrow> bool" where
  "has_room L nw pod \<longleftrightarrow> status_PodIP pod \<noteq> '''' \<and> requested_ip L (init_optional nw) pod = [] \<and>
     (\<exists>q m. AllocatableCIDR (nw_Spec nw) = v4_cidr q m \<and> length q = 4 \<and> m \<le> 32 \<and>
        (pod_name pod \<in> PodName ` set (nw_allocs nw) \<or> DeletionTimestamp (nw_meta nw) = None \<and>
         length (nw_allocs nw) < v4_pool_end q m - Suc (ip_val q)))"

lemma has_room_allocates:
  "lo_pkg_ok L \<Longrightarrow> has_room L nw pod \<Longrightarrow> \<exists>nw'. allocate_status L (init_optional nw) pod isRouter en er = Returns (Inr nw')"
  unfolding has_room_def using allocate_available by blast

lemma process_networks_succeeds:
  assumes S: "pod_store_ok K nets pods" and A: "pod_store_accepts K nets pods" and lo: "lo_pkg_ok L"
  shows "distinct (map nw_name items) \<Longrightarrow> \<forall>nw \<in> set items. nets (env w) (nw_key nw) = Some nw \<Longrightarrow>
    \<forall>nw \<in> set items. gm_has uniq (nw_name nw) \<longrightarrow> has_room L nw pod \<Longrightarrow>
    \<exists>uniq' w'. process_networks L K pod rn ens ers items uniq h w = Returns (uniq', h, w') \<and>
      map_of uniq' = (\<lambda>k. if gm_has uniq k \<and> k \<in> nw_name ` set items then Some True else map_of uniq k)"
proof (induction items arbitrary: uniq w)
  case Nil
  show ?case by simp
next
  case (Cons item items)
  have fresh: "nw_name item \<notin> nw_name ` set items" "nw_key item \<notin> nw_key ` set items" and d: "distinct (map nw_name items)"
    using Cons.prems(1) by auto
  have here: "nets (env w) (nw_key item) = Some item" using Cons.prems(2) by simp
  text \<open>The rest of the loop after the update of \<open>item\<close>.\<close>
  have rest: "\<exists>uniq' w'. process_networks L K pod rn ens ers items u h w1 = Returns (uniq', h, w') \<and>
      map_of uniq' = (\<lambda>k. if gm_has u k \<and> k \<in> nw_name ` set items then Some True else map_of u k)"
    if push: "push_status K nw1 w = (None, w1)" "nw_meta nw1 = nw_meta item"
      and u: "\<And>n. n \<noteq> nw_name item \<Longrightarrow> gm_has u n = gm_has uniq n" for nw1 w1 u
  proof (rule Cons.IH [OF d])
    obtain v where "nets (env w1) = (nets (env w))(nw_key item \<mapsto> v)"
      using store_push(2) [OF S push(1)] here push(2) by auto
    then show "\<forall>nw \<in> set items. nets (env w1) (nw_key nw) = Some nw"
      using Cons.prems(2) fresh(2) by (metis (no_types, lifting) fun_upd_other image_eqI list.set_intros(2))
    show "\<forall>nw \<in> set items. gm_has u (nw_name nw) \<longrightarrow> has_room L nw pod"
      using Cons.prems(3) fresh(1) u by (metis image_eqI list.set_intros(2))
  qed
  show ?case
  proof (cases "gm_has uniq (nw_name item)")
    case True
    let ?nw = "init_optional item"
    obtain nw1 where al: "allocate_status L ?nw pod (gm_has rn (nw_name item)) (names_for L ?nw ens) (names_for L ?nw ers) = Returns (Inr nw1)"
      using has_room_allocates [OF lo] Cons.prems(3) True by (metis list.set_intros(1))
    have meta: "nw_meta nw1 = nw_meta item" using status_step_frame [OF status_step.allocate [OF lo al]] by simp
    obtain w1 where push: "push_status K nw1 w = (None, w1)" using accepts_push [OF A _ meta, of w] here meta by auto
    let ?u = "gm_put uniq (nw_name item) True"
    obtain uniq' w' where run: "process_networks L K pod rn ens ers items ?u h w1 = Returns (uniq', h, w')"
      "map_of uniq' = (\<lambda>k. if gm_has ?u k \<and> k \<in> nw_name ` set items then Some True else map_of ?u k)"
      using rest [OF push meta, of ?u] by auto
    have "process_networks L K pod rn ens ers (item # items) uniq h w = Returns (uniq', h, w')"
      using True al push run(1) by (simp add: allocateIP_def Let_def)
    moreover have "map_of uniq' = (\<lambda>k. if gm_has uniq k \<and> k \<in> nw_name ` set (item # items) then Some True else map_of uniq k)"
      unfolding run(2) using fresh(1) True by (auto simp: fun_eq_iff)
    ultimately show ?thesis by blast
  next
    case False
    let ?nw1 = "deallocate_status L (init_optional item) pod"
    have meta: "nw_meta ?nw1 = nw_meta item" by (simp add: deallocate_status_simps [OF lo])
    obtain w1 where push: "push_status K ?nw1 w = (None, w1)" using accepts_push [OF A _ meta, of w] here meta by auto
    obtain uniq' w' where run: "process_networks L K pod rn ens ers items uniq h w1 = Returns (uniq', h, w')"
      "map_of uniq' = (\<lambda>k. if gm_has uniq k \<and> k \<in> nw_name ` set items then Some True else map_of uniq k)"
      using rest [OF push meta, of uniq] by auto
    have "process_networks L K pod rn ens ers (item # items) uniq h w = Returns (uniq', h, w')"
      using False push run(1) by (simp add: deallocateIP_def Let_def)
    moreover have "map_of uniq' = (\<lambda>k. if gm_has uniq k \<and> k \<in> nw_name ` set (item # items) then Some True else map_of uniq k)"
      unfolding run(2) using False by (auto simp: fun_eq_iff)
    ultimately show ?thesis by blast
  qed
qed

lemma finish_reconcile_succeeds:
  assumes A: "pod_store_accepts K nets pods" and lo: "lo_pkg_ok L" and fu: "finalizer_util_ok F"
    and "pods (env w) (pod_key pod) = Some pod" and uniq: "gm_ok uniq" "\<forall>k. map_of uniq k \<noteq> Some False"
  shows "\<exists>w'. finish_reconcile L F K pod del uniq False w = (finished, w')"
proof -
  have "\<not> lo_Contains (lo_bool L) (lo_MapToSlice L uniq (\<lambda>_ v. v)) False"
    using uniq gm_ok_entry [OF uniq(1)]
    by (force simp: lo_slice_okD(4) [OF lo_pkg_okD(3) [OF lo]] lo_pkg_okD(7) [OF lo])
  moreover have rem: "fu_Remove F fs f = (f \<in> set fs, filter (\<lambda>g. g \<noteq> f) fs)" for fs f
    using fu by (simp add: finalizer_util_ok_def)
  moreover obtain w' where "write_api K (UpdatePod (pod\<lparr>pod_meta := (pod_meta pod)\<lparr>
      Finalizers := filter (\<lambda>g. g \<noteq> POD_FINALIZER) (Finalizers (pod_meta pod))\<rparr>\<rparr>)) w = (None, w')"
    using accepts_pod [OF A, of w _ pod] assms(4) by fastforce
  ultimately show ?thesis
    by (cases "POD_FINALIZER \<in> set (Finalizers (pod_meta pod))") (simp_all add: finish_reconcile_def)
qed

lemma reconcile_pod_succeeds:
  assumes S: "pod_store_ok K nets pods" and A: "pod_store_accepts K nets pods" and lo: "lo_pkg_ok L" and fu: "finalizer_util_ok F"
    and pod: "pods (env w) (ns, p) = Some pod" "wants_sidecar pod" "pod_key pod = (ns, p)" "ns \<noteq> ''''"
    and wanted: "\<And>n. asks_for pod n \<Longrightarrow> \<exists>nw. nets (env w) (ns, n) = Some nw \<and> has_room L nw pod"
  shows "\<exists>w'. reconcile_pod L F K ns p w = Returns (finished, w')"
proof -
  obtain g w1 where g: "read_env (kGetPod K ns p) w = (g, w1)" by fastforce
  note get = store_get [OF S g]
  have "\<exists>x s'. kGetPod K ns p (env w) = (Inr x, s')" using A pod(1) unfolding pod_store_accepts_def by (metis option.distinct(1))
  with g obtain x where "g = Inr x" by (auto simp: read_env_def)
  with get(4) pod(1) have "g = Inr pod" by simp
  note g = g [unfolded this]
  obtain l w2 where l: "read_env (kListNetworks K (Namespace (pod_meta pod))) w1 = (l, w2)" by fastforce
  have "\<exists>x s'. kListNetworks K (Namespace (pod_meta pod)) (env w1) = (Inr x, s')" using A unfolding pod_store_accepts_def by metis
  with l obtain items where items: "l = Inr items" by (auto simp: read_env_def)
  have own: "Namespace (pod_meta pod) = ns" using pod(3) by simp
  note lst = store_list [OF S l [unfolded items own] pod(4)]
  have w2: "nets (env w2) = nets (env w)" "pods (env w2) = pods (env w)" using lst(1,2) get(1,2) by simp_all
  let ?del = "DeletionTimestamp (pod_meta pod) \<noteq> None"
  let ?uniq = "if ?del then [] else uniq_networks L pod"
  have uniq: "gm_has ?uniq n \<longleftrightarrow> asks_for pod n" "map_of ?uniq n \<noteq> Some True" for n
    using uniq_networks_get(1) [OF lo, of pod n] by (auto simp: asks_for_def gm_has_def split: if_splits)
  have cur: "\<forall>nw \<in> set items. nets (env w2) (nw_key nw) = Some nw" using lst(1,4,5) by auto
  have "\<forall>nw \<in> set items. gm_has ?uniq (nw_name nw) \<longrightarrow> has_room L nw pod"
    using wanted cur w2(1) lst(5) unfolding uniq by fastforce
  from process_networks_succeeds [OF S A lo lst(3) cur this] obtain uniq' w3 where
    loop: "process_networks L K pod
       (if ?del then [] else name_set L (annotation_list L pod POD_NETWORK_ROUTER_ANNOTATION))
       (annotation_list L pod POD_NETWORK_EXTRA_ROUTE_ANNOTATION)
       (annotation_list L pod POD_NETWORK_EXTRA_ROUTER_ANNOTATION) items ?uniq False w2 = Returns (uniq', False, w3)"
    and marked: "map_of uniq' = (\<lambda>k. if gm_has ?uniq k \<and> k \<in> nw_name ` set items then Some True else map_of ?uniq k)"
    by blast
  have "\<forall>k. map_of uniq' k \<noteq> Some False"
  proof (intro allI notI)
    fix k
    assume "map_of uniq' k = Some False"
    then have k: "map_of ?uniq k = Some False" "k \<notin> nw_name ` set items"
      unfolding marked by (auto simp: gm_has_def split: if_splits)
    then have "asks_for pod k" using uniq(1) [of k] by (simp add: gm_has_def)
    from wanted [OF this] lst(4) get(1) k(2) show False by (metis image_eqI)
  qed
  moreover have "gm_ok uniq'"
  proof -
    have "gm_ok ?uniq" using uniq_networks_get(2) [OF lo] by (simp add: gm_ok_def)
    moreover have "gm_ok ?uniq \<longrightarrow> gm_ok uniq'"
      using process_networks_result [OF lo] loop unfolding loop_post_def by (metis outcome.inject prod.inject)
    ultimately show ?thesis by blast
  qed
  moreover have "pods (env w3) (pod_key pod) = Some pod"
    using process_networks_store [OF S lo loop lst(3) cur] w2(2) pod(1,3) by simp
  ultimately obtain w4 where "finish_reconcile L F K pod ?del uniq' False w3 = (finished, w4)"
    using finish_reconcile_succeeds [OF A lo fu] by blast
  then have "reconcile_pod L F K ns p w = Returns (finished, w4)"
    using g l items loop pod(2) by (simp add: reconcile_pod_eq reconcile_listed_def Let_def)
  then show ?thesis by blast
qed

section \<open>Property\<close>

text \<open>C4: one run is enough. Against a server that answers, accepts updates of what is stored and stores what it
  accepts, the reconciler reports success for a labelled pod that has an address of its own and
  requests none, if every network the pod asks for exists in its namespace and has room for it: its
  pool is an IPv4 CIDR, and the pod is a member already, or the network is not being deleted and has
  fewer allocations than its pool has addresses above the one written in the CIDR. Then the pod is a
  member of exactly the networks of the namespace that it asks for, none if it is deleted, no other
  allocation has changed, nor has any network of another namespace.\<close>

theorem pod_gets_its_networks:
  assumes "pod_store_ok K nets pods" and "pod_store_accepts K nets pods" and "lo_pkg_ok L" and "finalizer_util_ok F"
    and "pods (env w) (ns, p) = Some pod" and "wants_sidecar pod" and "pod_key pod = (ns, p)" and "ns \<noteq> ''''"
    and "\<And>n. asks_for pod n \<Longrightarrow> \<exists>nw. nets (env w) (ns, n) = Some nw \<and> has_room L nw pod"
  shows "\<exists>w'. reconcile_pod L F K ns p w = Returns (finished, w') \<and>
    (\<forall>n nw. nets (env w) (ns, n) = Some nw \<longrightarrow> (\<exists>v. nets (env w') (ns, n) = Some v \<and>
       (p \<in> PodName ` set (nw_allocs v) \<longleftrightarrow> asks_for pod n) \<and> others p (nw_allocs v) = others p (nw_allocs nw))) \<and>
    (\<forall>m n. m \<noteq> ns \<longrightarrow> nets (env w') (m, n) = nets (env w) (m, n))"
proof -
  obtain w' where run: "reconcile_pod L F K ns p w = Returns (finished, w')"
    using reconcile_pod_succeeds [OF assms] by blast
  note turn = reconcile_pod_store(2,3) [OF assms(1,3,4,5,6,7,8) run, unfolded after_turn_def]
  show ?thesis by (rule exI [of _ w']) (use run turn in blast)
qed

lemma memory_kube_accepts: "pod_store_accepts memory_kube (\<lambda>s. named (fst s)) snd"
  by (auto simp: pod_store_accepts_def memory_kube_def)

lemma demo_room: "has_room lo_pkg_std demo_network1 (demo_pods ''q'')"
proof -
  have "AllocatableCIDR (nw_Spec demo_network1) = v4_cidr [10, 0, 0, 0] 24"
    by (simp add: demo_network1_def PodStatus.demo_network_def demo_pool_cidr)
  moreover have "requested_ip lo_pkg_std (init_optional demo_network1) (demo_pods ''q'') = []"
    by (simp add: requested_ip_def demo_pods_def demo_cluster_defs demo_defs POD_IP_ANNOTATION_def init_optional_def)
  moreover have "length (nw_allocs demo_network1) < v4_pool_end [10, 0, 0, 0] 24 - Suc (ip_val [10, 0, 0, 0])"
    "DeletionTimestamp (nw_meta demo_network1) = None" "status_PodIP (demo_pods ''q'') \<noteq> ''''"
    by (simp_all add: demo_network1_def PodStatus.demo_network_def demo_meta_def v4_pool_end_def demo_pods_def demo_member_def demo_pod_def)
  ultimately show ?thesis unfolding has_room_def
    by (intro conjI exI [of _ "[10, 0, 0, 0]"] exI [of _ "24 :: nat"]) simp_all
qed

theorem pod_gets_its_networks_witness:
  "\<exists>w' v. reconcile_pod lo_pkg_std finalizer_util_std memory_kube ''ns'' ''q'' demo_memory = Returns (finished, w') \<and>
     named (fst (env w')) (''ns'', ''net'') = Some v \<and> ''q'' \<in> PodName ` set (nw_allocs v)"
proof -
  have n: "named (fst (env demo_memory)) (''ns'', ''net'') = Some demo_network1"
    by (simp add: demo_memory_def named_Cons demo_defs)
  have pod: "snd (env demo_memory) (''ns'', ''q'') = Some (demo_pods ''q'')" by (simp add: demo_memory_def)
  have key: "pod_key (demo_pods ''q'') = (''ns'', ''q'')" by (simp add: demo_pods_ok)
  have "n = ''net''" if "asks_for (demo_pods ''q'') n" for n
    using that by (auto simp: demo_pods_def asks_for_def wanted_networks_def demo_cluster_defs demo_defs gm_get_def split: if_splits)
  then have "\<exists>nw. named (fst (env demo_memory)) (''ns'', n) = Some nw \<and> has_room lo_pkg_std nw (demo_pods ''q'')"
    if "asks_for (demo_pods ''q'') n" for n using that n demo_room by blast
  from pod_gets_its_networks [OF memory_kube_ok memory_kube_accepts lo_pkg_std_ok finalizer_util_std_ok pod demo_pods_ok(1) key _ this]
  show ?thesis using n demo_asks_for [of "''q''"] by fastforce
qed

end
