(* ===== verification/Tunneler.thy ===== *)
theory Tunneler
  imports GoNet External
begin

unbundle bit_operations_syntax

text \<open>
  The tunneler of the sidecar (\<open>tunneler/network_controller.go\<close>): it turns the status of a
  network into IPIP-over-FOU tunnel interfaces, addresses and routes of the pod it runs in.

  The kernel is reached through \<open>github.com/vishvananda/netlink\<close>, a parameter: \<open>'k\<close> is the state
  of the kernel, each call may change it and may fail with a text. The commands that change
  something are also recorded in the ghost field \<open>commands\<close>. Package \<open>base58\<close> and package \<open>lo\<close>
  are parameters too. Go ranges over a map in an order of its own on each occasion; \<open>range_order\<close>
  gives, for the first and the second loop over the target links, the order of one run.
\<close>

section \<open>Types\<close>

record LinkInfo =
  RemoteIP :: string
  LocalIP :: string
  InTunnelLocalIP :: string
  InTunnelRemoteIP :: string
  Processed :: bool

record routeState =
  rs_net :: ipnet
  rs_router :: ip

record TunnelReconciler =
  myPodName :: string
  networkToName :: "(string, 32 word) go_map"
  networkIndex :: "32 word"

record Link =
  attr_Name :: string
  attr_Index :: int

record Iptun =
  EncapType :: nat
  EncapSport :: "16 word"
  EncapDport :: "16 word"
  EncapFlags :: nat
  Iptun_Local :: ip
  Iptun_Remote :: ip
  Ttl :: nat
  Iptun_Name :: string

record Fou =
  f_Family :: int
  f_Port :: int
  f_Protocol :: int
  f_EncapType :: int

text \<open>\<open>Dst\<close> is a pointer; \<open>None\<close> is \<open>nil\<close>.\<close>

record Route =
  rt_LinkIndex :: int
  rt_Scope :: int
  rt_Dst :: "ipnet option"
  rt_Src :: ip
  rt_Gw :: ip

datatype command =
    LinkAdd Iptun
  | LinkDel Link
  | LinkSetUp Link
  | AddrAdd Link ipnet
  | RouteAdd Route
  | RouteDel Route
  | FouAdd Fou
  | FouDel Fou

record 'k netlink =
  nl_LinkList :: "'k \<Rightarrow> (string + Link list) \<times> 'k"
  nl_LinkByName :: "string \<Rightarrow> 'k \<Rightarrow> (string + Link) \<times> 'k"
  nl_RouteList :: "Link \<Rightarrow> int \<Rightarrow> 'k \<Rightarrow> (string + Route list) \<times> 'k"
  nl_FouList :: "int \<Rightarrow> 'k \<Rightarrow> (string + Fou list) \<times> 'k"
  nl_do :: "command \<Rightarrow> 'k \<Rightarrow> string option \<times> 'k"
  SCOPE_LINK :: int
  FAMILY_V4 :: int
  FOU_ENCAP_DIRECT :: int

record 'k node =
  kernel :: 'k
  commands :: "command list"

definition nl_read :: "('k \<Rightarrow> 'a \<times> 'k) \<Rightarrow> 'k node \<Rightarrow> 'a \<times> 'k node" where
  "nl_read f n = (case f (kernel n) of (a, k) \<Rightarrow> (a, n\<lparr>kernel := k\<rparr>))"

definition nl_exec :: "'k netlink \<Rightarrow> command \<Rightarrow> 'k node \<Rightarrow> string option \<times> 'k node" where
  "nl_exec N c n = (case nl_do N c (kernel n) of (e, k) \<Rightarrow> (e, \<lparr>kernel = k, commands = commands n @ [c]\<rparr>))"

text \<open>The packages the reconciler calls. \<open>tl_SliceToMap\<close> is \<open>lo.SliceToMap\<close> applied to the pairs
  that its callback returns, in order.\<close>

record tunnel_pkg =
  tl_alloc :: "OverlayNetworkIPAllocation lo_slice"
  tl_extra :: "OverlayNetworkExtraRoute lo_slice"
  tl_route :: "routeState lo_slice"
  tl_fou :: "Fou lo_slice"
  tl_SliceToMap :: "(string \<times> LinkInfo) list \<Rightarrow> (string, LinkInfo) go_map"
  base58 :: "64 word \<Rightarrow> string"
  range_order :: "nat \<Rightarrow> (string, LinkInfo) go_map \<Rightarrow> (string, LinkInfo) go_map"

section \<open>Names of tunnels\<close>

text \<open>The verb \<open>%c\<close>: the UTF-8 encoding of a code point; an invalid one prints as U+FFFD.\<close>

definition byte :: "int \<Rightarrow> char" where
  "byte i = char_of (nat (i mod 256))"

definition print_rune :: "int \<Rightarrow> string" where
  "print_rune r =
     (if r < 0 \<or> 0x10FFFF < r \<or> (0xD800 \<le> r \<and> r \<le> 0xDFFF) then [byte 0xEF, byte 0xBF, byte 0xBD]
      else if r < 0x80 then [byte r]
      else if r < 0x800 then [byte (0xC0 + r div 64), byte (0x80 + r mod 64)]
      else if r < 0x10000 then [byte (0xE0 + r div 4096), byte (0x80 + (r div 64) mod 64), byte (0x80 + r mod 64)]
      else [byte (0xF0 + r div 262144), byte (0x80 + (r div 4096) mod 64),
            byte (0x80 + (r div 64) mod 64), byte (0x80 + r mod 64)])"

text \<open>\<open>fnv.New64\<close> is FNV-1: multiply, then exclusive or.\<close>

definition fnv64 :: "string \<Rightarrow> 64 word" where
  "fnv64 s = fold (\<lambda>c h. (h * 1099511628211) XOR word_of_nat (of_char c)) s 14695981039346656037"

definition getNetworkId :: "TunnelReconciler \<Rightarrow> OverlayNetwork \<Rightarrow> 32 word \<times> TunnelReconciler" where
  "getNetworkId r nw =
     (case map_of (networkToName r) (Name (nw_meta nw)) of
       None \<Rightarrow>
         let index = networkIndex r + 1; nwId = index - 1
         in (65 + nwId, r\<lparr>networkIndex := index, networkToName := gm_put (networkToName r) (Name (nw_meta nw)) nwId\<rparr>)
     | Some readNw \<Rightarrow> (65 + readNw, r))"

definition getTunnelId ::
  "tunnel_pkg \<Rightarrow> TunnelReconciler \<Rightarrow> OverlayNetwork \<Rightarrow> OverlayNetworkIPAllocation \<Rightarrow> string \<times> TunnelReconciler" where
  "getTunnelId T r nw pod =
     (case getNetworkId r nw of (nwIndex, r) \<Rightarrow>
        (''o'' @ print_rune (sint nwIndex) @ ''_'' @ base58 T (fnv64 (PodName pod)), r))"

definition SetupWithManager :: "string option \<Rightarrow> string + TunnelReconciler" where
  "SetupWithManager podNameVar =
     (case podNameVar of
       None \<Rightarrow> Inl ''please set POD_NAME in client mode''
     | Some pn \<Rightarrow> Inr \<lparr>myPodName = pn, networkToName = [], networkIndex = 0\<rparr>)"

section \<open>The target state\<close>

fun link_pairs ::
  "tunnel_pkg \<Rightarrow> OverlayNetwork \<Rightarrow> OverlayNetworkIPAllocation \<Rightarrow> OverlayNetworkIPAllocation list \<Rightarrow>
   TunnelReconciler \<Rightarrow> (string \<times> LinkInfo) list \<times> TunnelReconciler" where
  "link_pairs T nw here [] r = ([], r)"
| "link_pairs T nw here (item # items) r =
     (case getTunnelId T r nw item of (linkName, r) \<Rightarrow>
      case link_pairs T nw here items r of (ps, r) \<Rightarrow>
        ((linkName, \<lparr>RemoteIP = PodIP item, LocalIP = PodIP here, InTunnelLocalIP = IP here,
                     InTunnelRemoteIP = IP item, Processed = False\<rparr>) # ps, r))"

definition target_links ::
  "tunnel_pkg \<Rightarrow> TunnelReconciler \<Rightarrow> OverlayNetwork \<Rightarrow> (string, LinkInfo) go_map \<times> TunnelReconciler" where
  "target_links T r nw =
     (case lo_Find (tl_alloc T) (Routers (nw_Status nw)) (\<lambda>t. PodName t = myPodName r) of
       Some localPodRouter \<Rightarrow>
         (case link_pairs T nw localPodRouter
            (lo_Filter (tl_alloc T) (Allocations (nw_Status nw)) (\<lambda>item _. PodName item \<noteq> myPodName r)) r of
           (ps, r) \<Rightarrow> (tl_SliceToMap T ps, r))
     | None \<Rightarrow>
         (case lo_Find (tl_alloc T) (Allocations (nw_Status nw)) (\<lambda>t. PodName t = myPodName r) of
           Some localPodMember \<Rightarrow>
             (case link_pairs T nw localPodMember (Routers (nw_Status nw)) r of (ps, r) \<Rightarrow> (tl_SliceToMap T ps, r))
         | None \<Rightarrow> ([], r)))"

fun routes_via :: "ipnet \<Rightarrow> OverlayNetworkIPAllocation list \<Rightarrow> routeState list" where
  "routes_via cidrObj [] = []"
| "routes_via cidrObj (rt # rts) =
     (let ip = ParseIP (IP rt) in
      if ip = [] then routes_via cidrObj rts
      else \<lparr>rs_net = cidrObj, rs_router = ip\<rparr> # routes_via cidrObj rts)"

fun routes_to :: "string list \<Rightarrow> OverlayNetworkIPAllocation list \<Rightarrow> routeState list" where
  "routes_to [] rts = []"
| "routes_to (cidr # cidrs) rts =
     (case ParseCIDR cidr of
       None \<Rightarrow> routes_to cidrs rts
     | Some (_, cidrObj) \<Rightarrow> routes_via cidrObj rts @ routes_to cidrs rts)"

fun extra_routes :: "tunnel_pkg \<Rightarrow> OverlayNetwork \<Rightarrow> string list \<Rightarrow> routeState list" where
  "extra_routes T nw [] = []"
| "extra_routes T nw (item # items) =
     (case lo_Find (tl_extra T) (OptionalRoutes (nw_Spec nw)) (\<lambda>extra. er_Name extra = item) of
       None \<Rightarrow> extra_routes T nw items
     | Some extraNet \<Rightarrow>
         (case map_of (case OptionalRouters (nw_Status nw) of None \<Rightarrow> [] | Some m \<Rightarrow> m) (er_Name extraNet) of
           None \<Rightarrow> extra_routes T nw items
         | Some validRouters \<Rightarrow> routes_to (er_RoutableCIDRs extraNet) validRouters @ extra_routes T nw items))"

section \<open>The receiving side\<close>

definition reconcileFOU ::
  "tunnel_pkg \<Rightarrow> 'k netlink \<Rightarrow> OverlayNetwork \<Rightarrow> bool \<Rightarrow> 'k node \<Rightarrow> string option \<times> 'k node" where
  "reconcileFOU T N nw shouldBePresent n =
     (case nl_read (nl_FouList N (FAMILY_V4 N)) n of
       (Inl err, n) \<Rightarrow> (Some (''failed to list fou: '' @ err), n)
     | (Inr fouList, n) \<Rightarrow>
         let found = lo_Find (tl_fou T) fouList (\<lambda>f. f_Port f = Port (nw_Spec nw));
             (err1, n) = (case found of
               Some fouLink \<Rightarrow>
                 if \<not> shouldBePresent then
                   (case nl_exec N (FouDel fouLink) n of
                     (Some err, n) \<Rightarrow> (Some (''failed to delete fou link: '' @ err), n)
                   | (None, n) \<Rightarrow> (None, n))
                 else (None, n)
             | None \<Rightarrow> (None, n))
         in if err1 \<noteq> None then (err1, n)
            else if shouldBePresent \<and> found = None then
              (case nl_exec N (FouAdd \<lparr>f_Family = FAMILY_V4 N, f_Port = Port (nw_Spec nw), f_Protocol = 4,
                      f_EncapType = FOU_ENCAP_DIRECT N\<rparr>) n of
                (Some err, n) \<Rightarrow> (Some (''failed to create fou link: '' @ err), n)
              | (None, n) \<Rightarrow> (None, n))
            else (None, n))"

section \<open>Tunnel interfaces\<close>

text \<open>The new interface is brought up and gets its address; a router adds the route to the peer.\<close>

definition configure_iface ::
  "'k netlink \<Rightarrow> OverlayNetwork \<Rightarrow> string \<Rightarrow> LinkInfo \<Rightarrow> bool \<Rightarrow> 'k node \<Rightarrow> string option \<times> 'k node" where
  "configure_iface N nw linkName linkInfo isRouter n =
     (case nl_read (nl_LinkByName N linkName) n of
       (Inl err, n) \<Rightarrow> (Some err, n)
     | (Inr link, n) \<Rightarrow>
       (case nl_exec N (LinkSetUp link) n of
         (Some err, n) \<Rightarrow> (Some err, n)
       | (None, n) \<Rightarrow>
         (case ParseCIDR (AllocatableCIDR (nw_Spec nw)) of
           None \<Rightarrow> (Some (''invalid CIDR address: '' @ AllocatableCIDR (nw_Spec nw)), n)
         | Some (_, cidr) \<Rightarrow>
           (let msk = (if isRouter then CIDRMask 32 32 else net_Mask cidr) in
            case nl_exec N (AddrAdd link \<lparr>net_IP = ParseIP (InTunnelLocalIP linkInfo), net_Mask = msk\<rparr>) n of
              (Some err, n) \<Rightarrow> (Some err, n)
            | (None, n) \<Rightarrow>
              if isRouter then
                nl_exec N (RouteAdd \<lparr>rt_LinkIndex = attr_Index link, rt_Scope = SCOPE_LINK N,
                  rt_Dst = Some \<lparr>net_IP = ParseIP (InTunnelRemoteIP linkInfo), net_Mask = msk\<rparr>,
                  rt_Src = ParseIP (InTunnelLocalIP linkInfo), rt_Gw = []\<rparr>) n
              else (None, n)))))"

definition setupTunnelIface ::
  "'k netlink \<Rightarrow> OverlayNetwork \<Rightarrow> string \<Rightarrow> LinkInfo \<Rightarrow> bool \<Rightarrow> 'k node \<Rightarrow> string option \<times> 'k node" where
  "setupTunnelIface N nw linkName linkInfo isRouter n =
     (case nl_exec N (LinkAdd \<lparr>EncapType = 1, EncapSport = word_of_int (Port (nw_Spec nw)),
             EncapDport = word_of_int (Port (nw_Spec nw)), EncapFlags = 0,
             Iptun_Local = ParseIP (LocalIP linkInfo), Iptun_Remote = ParseIP (RemoteIP linkInfo),
             Ttl = 200, Iptun_Name = linkName\<rparr>) n of
       (Some err, n) \<Rightarrow> (Some err, n)
     | (None, n) \<Rightarrow> configure_iface N nw linkName linkInfo isRouter n)"

text \<open>The loop over the existing links: those of the network are kept or deleted.\<close>

fun sweep_links ::
  "'k netlink \<Rightarrow> string \<Rightarrow> Link list \<Rightarrow> (string, LinkInfo) go_map \<Rightarrow> 'k node \<Rightarrow>
   string option \<times> (string, LinkInfo) go_map \<times> 'k node" where
  "sweep_links N pre [] targetState n = (None, targetState, n)"
| "sweep_links N pre (link # links) targetState n =
     (if \<not> strings_HasPrefix (attr_Name link) pre then sweep_links N pre links targetState n
      else (case map_of targetState (attr_Name link) of
          Some linkInfo \<Rightarrow>
            sweep_links N pre links (gm_put targetState (attr_Name link) (linkInfo\<lparr>Processed := True\<rparr>)) n
        | None \<Rightarrow>
            (case nl_exec N (LinkDel link) n of
              (Some err, n) \<Rightarrow>
                (Some (''error deleting existing link '' @ attr_Name link @ '': '' @ err), targetState, n)
            | (None, n) \<Rightarrow> sweep_links N pre links targetState n)))"

fun add_links ::
  "'k netlink \<Rightarrow> OverlayNetwork \<Rightarrow> bool \<Rightarrow> (string, LinkInfo) go_map \<Rightarrow> 'k node \<Rightarrow> string option \<times> 'k node" where
  "add_links N nw isRouter [] n = (None, n)"
| "add_links N nw isRouter ((linkName, linkInfo) # rest) n =
     (if Processed linkInfo then add_links N nw isRouter rest n
      else (case setupTunnelIface N nw linkName linkInfo isRouter n of
          (Some err, n) \<Rightarrow>
            (Some (''error setting up new tunnel interface '' @ linkName @ '': '' @ err), n)
        | (None, n) \<Rightarrow> add_links N nw isRouter rest n))"

section \<open>Routes\<close>

definition netEqual :: "ipnet \<Rightarrow> ipnet \<Rightarrow> bool" where
  "netEqual n1 n2 =
     (case Mask_Size (net_Mask n1) of (n1ones, n1bits) \<Rightarrow>
      case Mask_Size (net_Mask n2) of (n2ones, n2bits) \<Rightarrow>
        n1ones = n2ones \<and> n1bits = n2bits \<and> IP_Equal (net_IP n1) (net_IP n1))"

text \<open>The test of the first branches of the loop; \<open>route.Dst\<close> is only dereferenced if the scope matches.\<close>

definition is_owned :: "'k netlink \<Rightarrow> Route \<Rightarrow> ipnet \<Rightarrow> string \<Rightarrow> bool outcome" where
  "is_owned N route net src =
     (if rt_Scope route = SCOPE_LINK N then
        (case rt_Dst route of None \<Rightarrow> Panics
         | Some dst \<Rightarrow> Returns (netEqual dst net \<and> IP_Equal (rt_Src route) (ParseIP src)))
      else Returns False)"

text \<open>\<open>lo.Find\<close> over the target routes; the callback dereferences \<open>route.Dst\<close> for each of them.\<close>

definition find_target :: "tunnel_pkg \<Rightarrow> Route \<Rightarrow> routeState list \<Rightarrow> routeState option outcome" where
  "find_target T route targetRoutes =
     (if targetRoutes = [] then Returns (lo_Find (tl_route T) [] (\<lambda>_. False))
      else case rt_Dst route of None \<Rightarrow> Panics
        | Some dst \<Rightarrow> Returns (lo_Find (tl_route T) targetRoutes
            (\<lambda>rt. IP_Equal (rs_router rt) (rt_Gw route) \<and> netEqual dst (rs_net rt))))"

fun sweep_routes ::
  "tunnel_pkg \<Rightarrow> 'k netlink \<Rightarrow> ipnet \<Rightarrow> string \<Rightarrow> routeState list \<Rightarrow> Route list \<Rightarrow> bool \<Rightarrow> routeState list \<Rightarrow>
   'k node \<Rightarrow> (string option \<times> bool \<times> routeState list \<times> 'k node) outcome" where
  "sweep_routes T N owned src targetRoutes [] allocatableFound processedCidrs n =
     Returns (None, allocatableFound, processedCidrs, n)"
| "sweep_routes T N owned src targetRoutes (route # routes) allocatableFound processedCidrs n =
     bind_outcome (is_owned N route owned src) (\<lambda>mine.
       if mine then sweep_routes T N owned src targetRoutes routes True processedCidrs n
       else bind_outcome (find_target T route targetRoutes) (\<lambda>found.
         case found of
           None \<Rightarrow>
             (case nl_exec N (RouteDel route) n of
               (Some err, n) \<Rightarrow> Returns (Some err, allocatableFound, processedCidrs, n)
             | (None, n) \<Rightarrow> sweep_routes T N owned src targetRoutes routes allocatableFound processedCidrs n)
         | Some cidr \<Rightarrow>
             sweep_routes T N owned src targetRoutes routes allocatableFound (processedCidrs @ [cidr]) n))"

fun add_routes ::
  "tunnel_pkg \<Rightarrow> 'k netlink \<Rightarrow> Link \<Rightarrow> string \<Rightarrow> routeState list \<Rightarrow> routeState list \<Rightarrow> 'k node \<Rightarrow>
   string option \<times> 'k node" where
  "add_routes T N link src processedCidrs [] n = (None, n)"
| "add_routes T N link src processedCidrs (route # routes) n =
     (if lo_ContainsBy (tl_route T) processedCidrs
           (\<lambda>p. netEqual (rs_net p) (rs_net route) \<and> IP_Equal (rs_router route) (rs_router p))
      then add_routes T N link src processedCidrs routes n
      else (case nl_exec N (RouteAdd \<lparr>rt_LinkIndex = attr_Index link, rt_Scope = 0,
                rt_Dst = Some (rs_net route), rt_Src = ParseIP src, rt_Gw = rs_router route\<rparr>) n of
          (Some err, n) \<Rightarrow> (Some err, n)
        | (None, n) \<Rightarrow> add_routes T N link src processedCidrs routes n))"

definition add_owned :: "'k netlink \<Rightarrow> Link \<Rightarrow> ipnet \<Rightarrow> string \<Rightarrow> 'k node \<Rightarrow> string option \<times> 'k node" where
  "add_owned N link net src n =
     nl_exec N (RouteAdd \<lparr>rt_LinkIndex = attr_Index link, rt_Scope = SCOPE_LINK N, rt_Dst = Some net,
       rt_Src = ParseIP src, rt_Gw = []\<rparr>) n"

text \<open>One round of the loop over the links: the body, which extends \<open>targetRoutes\<close> for the next rounds too.\<close>

definition link_routes ::
  "tunnel_pkg \<Rightarrow> 'k netlink \<Rightarrow> OverlayNetwork \<Rightarrow> bool \<Rightarrow> string \<Rightarrow> LinkInfo \<Rightarrow> routeState list \<Rightarrow> 'k node \<Rightarrow>
   (string option \<times> routeState list \<times> 'k node) outcome" where
  "link_routes T N nw isRouter linkName linkInfo targetRoutes n =
     (case nl_read (nl_LinkByName N linkName) n of
       (Inl err, n) \<Rightarrow> Returns (Some err, targetRoutes, n)
     | (Inr link, n) \<Rightarrow>
       (case nl_read (nl_RouteList N link (FAMILY_V4 N)) n of
         (Inl err, n) \<Rightarrow> Returns (Some err, targetRoutes, n)
       | (Inr routes, n) \<Rightarrow>
         (case ParseCIDR (AllocatableCIDR (nw_Spec nw)) of
           None \<Rightarrow> Returns (Some (''invalid CIDR address: '' @ AllocatableCIDR (nw_Spec nw)), targetRoutes, n)
         | Some (_, allocNet) \<Rightarrow>
           let targetRoutes = (if \<not> isRouter
                 then targetRoutes @ routes_to (RoutableCIDRs (nw_Spec nw)) (Routers (nw_Status nw)) else targetRoutes);
               owned = (if \<not> isRouter then allocNet
                 else \<lparr>net_IP = ParseIP (InTunnelRemoteIP linkInfo), net_Mask = CIDRMask 32 32\<rparr>);
               src = InTunnelLocalIP linkInfo
           in bind_outcome (sweep_routes T N owned src targetRoutes routes False [] n)
                (\<lambda>(err, allocatableFound, processedCidrs, n).
                  if err \<noteq> None then Returns (err, targetRoutes, n)
                  else case (if \<not> allocatableFound then add_owned N link owned src n else (None, n)) of
                      (Some err, n) \<Rightarrow> Returns (Some err, targetRoutes, n)
                    | (None, n) \<Rightarrow>
                        (case add_routes T N link src processedCidrs targetRoutes n of
                          (err, n) \<Rightarrow> Returns (err, targetRoutes, n))))))"

fun reconcileRoutes ::
  "tunnel_pkg \<Rightarrow> 'k netlink \<Rightarrow> OverlayNetwork \<Rightarrow> bool \<Rightarrow> (string, LinkInfo) go_map \<Rightarrow> routeState list \<Rightarrow> 'k node \<Rightarrow>
   (string option \<times> 'k node) outcome" where
  "reconcileRoutes T N nw isRouter [] targetRoutes n = Returns (None, n)"
| "reconcileRoutes T N nw isRouter ((linkName, linkInfo) # rest) targetRoutes n =
     bind_outcome (link_routes T N nw isRouter linkName linkInfo targetRoutes n)
       (\<lambda>(err, targetRoutes, n).
          if err \<noteq> None then Returns (err, n)
          else reconcileRoutes T N nw isRouter rest targetRoutes n)"

section \<open>The reconciler\<close>

definition reconcileTunnelInterfaces ::
  "tunnel_pkg \<Rightarrow> 'k netlink \<Rightarrow> TunnelReconciler \<Rightarrow> OverlayNetwork \<Rightarrow> (string, LinkInfo) go_map \<Rightarrow> bool \<Rightarrow>
   routeState list \<Rightarrow> 'k node \<Rightarrow> (string option \<times> TunnelReconciler \<times> 'k node) outcome" where
  "reconcileTunnelInterfaces T N r nw targetState isRouter extraRoutes n =
     (case reconcileFOU T N nw (length targetState > 0) n of
       (Some err, n) \<Rightarrow> Returns (Some (''error setting up fou receive side: '' @ err), r, n)
     | (None, n) \<Rightarrow>
       (case nl_read (nl_LinkList N) n of
         (Inl err, n) \<Rightarrow> Returns (Some (''error getting existing netlinks: '' @ err), r, n)
       | (Inr links, n) \<Rightarrow>
         (case getNetworkId r nw of (localNet, r) \<Rightarrow>
          case sweep_links N (''o'' @ print_rune (sint localNet) @ ''_'') links targetState n of
            (Some err, _, n) \<Rightarrow> Returns (Some err, r, n)
          | (None, targetState, n) \<Rightarrow>
            (case add_links N nw isRouter (range_order T 0 targetState) n of
              (Some err, n) \<Rightarrow> Returns (Some err, r, n)
            | (None, n) \<Rightarrow>
              bind_outcome (reconcileRoutes T N nw isRouter (range_order T 1 targetState) extraRoutes n)
                (\<lambda>(err, n). Returns
                   (map_option (\<lambda>e. ''error setting up routes for network member: '' @ e) err, r, n))))))"

definition reconcile_tunnel ::
  "tunnel_pkg \<Rightarrow> 'k netlink \<Rightarrow> 's kube \<Rightarrow> string \<Rightarrow> string \<Rightarrow> TunnelReconciler \<Rightarrow> 's world \<Rightarrow> 'k node \<Rightarrow>
   (ctrl_result \<times> TunnelReconciler \<times> 's world \<times> 'k node) outcome" where
  "reconcile_tunnel T N K ns name r w n =
     (case read_env (kGetNetwork K ns name) w of
       (Inl err, w) \<Rightarrow> Returns (if IsNotFound err then finished else Failed err, r, w, n)
     | (Inr nw, w) \<Rightarrow>
         let isRouter = (lo_Find (tl_alloc T) (Routers (nw_Status nw)) (\<lambda>t. PodName t = myPodName r) \<noteq> None);
             extraRoutes = (case lo_Find (tl_alloc T) (Allocations (nw_Status nw)) (\<lambda>t. PodName t = myPodName r) of
                 None \<Rightarrow> [] | Some localPodMember \<Rightarrow> extra_routes T nw (ExtraNetworks localPodMember))
         in (case target_links T r nw of (targetLinkState, r) \<Rightarrow>
           bind_outcome (reconcileTunnelInterfaces T N r nw targetLinkState isRouter extraRoutes n)
             (\<lambda>(err, r, n). Returns
                (case err of None \<Rightarrow> finished | Some e \<Rightarrow> Failed (OtherError (''failed to reconcile network: '' @ e)), r, w, n))))"

section \<open>Shutdown\<close>

text \<open>The regular expression \<open>^o[A-Za-z]_[0-9a-zA-Z]{8,11}$\<close>.\<close>

definition letter :: "char \<Rightarrow> bool" where
  "letter c = (let v = of_char c :: nat in 65 \<le> v \<and> v \<le> 90 \<or> 97 \<le> v \<and> v \<le> 122)"

definition alnum :: "char \<Rightarrow> bool" where
  "alnum c = (let v = of_char c :: nat in 48 \<le> v \<and> v \<le> 57 \<or> letter c)"

definition linkNameRegex :: "string \<Rightarrow> bool" where
  "linkNameRegex s =
     (case s of o' # c # u # rest \<Rightarrow>
        o' = CHR ''o'' \<and> letter c \<and> u = CHR ''_'' \<and> list_all alnum rest \<and> 8 \<le> length rest \<and> length rest \<le> 11
      | _ \<Rightarrow> False)"

fun delete_overlay_links :: "'k netlink \<Rightarrow> Link list \<Rightarrow> 'k node \<Rightarrow> 'k node" where
  "delete_overlay_links N [] n = n"
| "delete_overlay_links N (link # links) n =
     (if linkNameRegex (attr_Name link) then delete_overlay_links N links (snd (nl_exec N (LinkDel link) n))
      else delete_overlay_links N links n)"

definition Shutdown :: "'k netlink \<Rightarrow> 'k node \<Rightarrow> 'k node" where
  "Shutdown N n =
     (case nl_read (nl_LinkList N) n of
       (Inl err, n) \<Rightarrow> n
     | (Inr links, n) \<Rightarrow> delete_overlay_links N links n)"

end
