(* ===== verification/TunnelLinks.thy ===== *)
theory TunnelLinks
  imports Tunneler
begin

text \<open>
  Tunnel interfaces: how they are named so that networks do not touch each other's links, which
  of them a reconciliation deletes and creates, and what \<open>Shutdown\<close> leaves behind.
\<close>

section \<open>What the packages promise\<close>

definition tunnel_pkg_ok :: "tunnel_pkg \<Rightarrow> bool" where
  "tunnel_pkg_ok T \<longleftrightarrow> lo_slice_ok (tl_alloc T) \<and> lo_slice_ok (tl_extra T) \<and> lo_slice_ok (tl_route T) \<and>
     lo_slice_ok (tl_fou T) \<and>
     (\<forall>ps. gm_ok (tl_SliceToMap T ps) \<and> map_of (tl_SliceToMap T ps) = map_of (rev ps)) \<and>
     (\<forall>i m. set (range_order T i m) = set m) \<and>
     (\<forall>x. list_all alnum (base58 T x) \<and> length (base58 T x) \<le> 11)"

definition tunnel_std :: tunnel_pkg where
  "tunnel_std = \<lparr>tl_alloc = lo_std, tl_extra = lo_std, tl_route = lo_std, tl_fou = lo_std,
     tl_SliceToMap = (\<lambda>ps. fold (\<lambda>p m. gm_put m (fst p) (snd p)) ps []),
     base58 = (\<lambda>x. if x = 0 then ''aaaaaaaa'' else ''bbbbbbbb''), range_order = (\<lambda>_ m. m)\<rparr>"

lemma tunnel_std_ok [simp]: "tunnel_pkg_ok tunnel_std"
proof -
  have "gm_ok (fold (\<lambda>p m. gm_put m (fst p) (snd p)) ps []) \<and>
      map_of (fold (\<lambda>p m. gm_put m (fst p) (snd p)) ps []) = map_of (rev ps)" for ps :: "(string \<times> LinkInfo) list"
    using fold_gm_put [of "[]" id ps] by simp
  then show ?thesis by (simp add: tunnel_pkg_ok_def tunnel_std_def alnum_def letter_def)
qed

lemma tunnel_pkg_okD:
  assumes "tunnel_pkg_ok T"
  shows "lo_slice_ok (tl_alloc T)" "lo_slice_ok (tl_extra T)" "lo_slice_ok (tl_route T)" "lo_slice_ok (tl_fou T)"
    "gm_ok (tl_SliceToMap T ps)" "map_of (tl_SliceToMap T ps) = map_of (rev ps)"
    "set (range_order T i m) = set m"
    "list_all alnum (base58 T x)" "length (base58 T x) \<le> 11"
  using assms by (auto simp: tunnel_pkg_ok_def)

lemma commands_nl_read [frame_simps]: "nl_read f n = (a, n') \<Longrightarrow> commands n' = commands n"
  by (auto simp: nl_read_def split: prod.splits)

lemma commands_nl_exec [frame_simps]: "nl_exec N c n = (e, n') \<Longrightarrow> commands n' = commands n @ [c]"
  by (auto simp: nl_exec_def split: prod.splits)

section \<open>Network ids\<close>

text \<open>Every id given out is below the counter, and no two networks share one.\<close>

definition ids_ok :: "TunnelReconciler \<Rightarrow> bool" where
  "ids_ok r \<longleftrightarrow>
     (\<forall>a b i. map_of (networkToName r) a = Some i \<longrightarrow> map_of (networkToName r) b = Some i \<longrightarrow> a = b) \<and>
     (\<forall>a i. map_of (networkToName r) a = Some i \<longrightarrow> unat i < unat (networkIndex r))"

lemma ids_ok_setup: "SetupWithManager pn = Inr r \<Longrightarrow> ids_ok r"
  by (auto simp: SetupWithManager_def ids_ok_def split: option.splits)

lemma ids_ok_fresh:
  assumes "ids_ok r" and "unat (networkIndex r) < 2 ^ 32 - 1"
  shows "ids_ok (r\<lparr>networkIndex := networkIndex r + 1,
    networkToName := gm_put (networkToName r) k (networkIndex r)\<rparr>)"
proof -
  have suc: "unat (networkIndex r + 1) = unat (networkIndex r) + 1"
    using assms(2) by (simp add: unat_word_ariths(1))
  have below: "unat i < unat (networkIndex r)" if "map_of (networkToName r) a = Some i" for a i
    using assms(1) that by (simp add: ids_ok_def)
  then have new: "map_of (networkToName r) a \<noteq> Some (networkIndex r)" for a by blast
  have inj: "a = b" if "map_of (networkToName r) a = Some i" "map_of (networkToName r) b = Some i" for a b i
    using assms(1) that by (simp add: ids_ok_def)
  show ?thesis
    unfolding ids_ok_def
  proof (intro conjI allI impI)
    fix a b i
    assume "map_of (networkToName (r\<lparr>networkIndex := networkIndex r + 1,
        networkToName := gm_put (networkToName r) k (networkIndex r)\<rparr>)) a = Some i"
      and "map_of (networkToName (r\<lparr>networkIndex := networkIndex r + 1,
        networkToName := gm_put (networkToName r) k (networkIndex r)\<rparr>)) b = Some i"
    then show "a = b" using new inj [of a i b] by (auto split: if_splits)
  next
    fix a i
    assume "map_of (networkToName (r\<lparr>networkIndex := networkIndex r + 1,
        networkToName := gm_put (networkToName r) k (networkIndex r)\<rparr>)) a = Some i"
    then show "unat i < unat (networkIndex (r\<lparr>networkIndex := networkIndex r + 1,
        networkToName := gm_put (networkToName r) k (networkIndex r)\<rparr>))"
      using suc below [of a i] by (auto split: if_splits)
  qed
qed

lemma getNetworkId_cases:
  assumes "getNetworkId r nw = (i, r')"
  obtains (Known) j where "map_of (networkToName r) (Name (nw_meta nw)) = Some j" "i = 65 + j" "r' = r"
  | (Fresh) "map_of (networkToName r) (Name (nw_meta nw)) = None" "i = 65 + networkIndex r"
      "r' = r\<lparr>networkIndex := networkIndex r + 1,
        networkToName := gm_put (networkToName r) (Name (nw_meta nw)) (networkIndex r)\<rparr>"
  using assms by (auto simp: getNetworkId_def Let_def split: option.splits)

lemma getNetworkId_result:
  assumes "ids_ok r" and "unat (networkIndex r) < 2 ^ 32 - 1" and "getNetworkId r nw = (i, r')"
  shows "ids_ok r'" "map_of (networkToName r') (Name (nw_meta nw)) = Some (i - 65)"
    "map_of (networkToName r) nm = Some j \<Longrightarrow> map_of (networkToName r') nm = Some j"
    "unat (networkIndex r') \<le> unat (networkIndex r) + 1" "myPodName r' = myPodName r"
proof -
  from assms(3) have "ids_ok r' \<and> map_of (networkToName r') (Name (nw_meta nw)) = Some (i - 65) \<and>
    (map_of (networkToName r) nm = Some j \<longrightarrow> map_of (networkToName r') nm = Some j) \<and>
    unat (networkIndex r') \<le> unat (networkIndex r) + 1 \<and> myPodName r' = myPodName r"
  proof (cases rule: getNetworkId_cases)
    case (Known k)
    with assms(1) show ?thesis by simp
  next
    case Fresh
    with ids_ok_fresh [OF assms(1,2)] assms(2) show ?thesis by (auto simp: unat_word_ariths(1))
  qed
  then show "ids_ok r'" "map_of (networkToName r') (Name (nw_meta nw)) = Some (i - 65)"
    "map_of (networkToName r) nm = Some j \<Longrightarrow> map_of (networkToName r') nm = Some j"
    "unat (networkIndex r') \<le> unat (networkIndex r) + 1" "myPodName r' = myPodName r" by simp_all
qed

lemma getNetworkId_again:
  assumes "getNetworkId r nw = (i, r')"
  shows "getNetworkId r' nw = (i, r')"
  using assms by (auto simp: getNetworkId_def Let_def split: option.splits)

section \<open>Prefixes\<close>

definition link_prefix :: "32 word \<Rightarrow> string" where
  "link_prefix i = ''o'' @ print_rune (sint (65 + i)) @ ''_''"

lemma print_rune_ascii: "k < 63 \<Longrightarrow> print_rune (65 + int k) = [char_of (65 + k)]"
  by (simp add: print_rune_def byte_def nat_add_distrib nat_mod_distrib)

lemma print_rune_small:
  assumes "unat i < 63"
  shows "print_rune (sint (65 + i :: 32 word)) = [char_of (65 + unat i)]"
proof -
  have u: "unat (65 + i) = 65 + unat i" using assms by (simp add: unat_word_ariths(1))
  have small: "signed_take_bit 31 (int (65 + k)) = 65 + int k" if "k < 63" for k
    using that by (subst signed_take_bit_int_eq_self) simp_all
  have "sint (65 + i) = signed_take_bit 31 (int (unat (65 + i)))" by (simp add: sint_uint)
  also have "\<dots> = 65 + int (unat i)" unfolding u using assms by (rule small)
  finally show ?thesis using print_rune_ascii [OF assms] by (simp only:)
qed

section \<open>Tunnel names and the target state\<close>

definition tunnel_name :: "tunnel_pkg \<Rightarrow> 32 word \<Rightarrow> string \<Rightarrow> string" where
  "tunnel_name T i pod = ''o'' @ print_rune (sint i) @ ''_'' @ base58 T (fnv64 pod)"

definition link_to :: "OverlayNetworkIPAllocation \<Rightarrow> OverlayNetworkIPAllocation \<Rightarrow> LinkInfo" where
  "link_to here item = \<lparr>RemoteIP = PodIP item, LocalIP = PodIP here, InTunnelLocalIP = IP here,
     InTunnelRemoteIP = IP item, Processed = False\<rparr>"

lemma link_pairs_eq:
  assumes "getNetworkId r nw = (i, r')"
  shows "link_pairs T nw here items r =
    (map (\<lambda>item. (tunnel_name T i (PodName item), link_to here item)) items, if items = [] then r else r')"
proof -
  have step: "getTunnelId T r nw item = (tunnel_name T i (PodName item), r')"
    if "getNetworkId r nw = (i, r')" for r item
    using that by (simp add: getTunnelId_def tunnel_name_def)
  have rest: "link_pairs T nw here items r' =
      (map (\<lambda>item. (tunnel_name T i (PodName item), link_to here item)) items, r')" for items
    by (induction items) (simp_all add: step [OF getNetworkId_again [OF assms]] link_to_def)
  show ?thesis
    using rest by (cases items) (simp_all add: step [OF assms] link_to_def)
qed

text \<open>The peers of a pod: all other members for a router, the routers for a plain member.\<close>

definition peers :: "OverlayNetwork \<Rightarrow> string \<Rightarrow> OverlayNetworkIPAllocation list" where
  "peers nw me =
     (if me \<in> PodName ` set (Routers (nw_Status nw)) then filter (\<lambda>a. PodName a \<noteq> me) (Allocations (nw_Status nw))
      else if me \<in> PodName ` set (Allocations (nw_Status nw)) then Routers (nw_Status nw) else [])"

definition own_entry :: "OverlayNetwork \<Rightarrow> string \<Rightarrow> OverlayNetworkIPAllocation option" where
  "own_entry nw me = (case find (\<lambda>a. PodName a = me) (Routers (nw_Status nw)) of
     Some a \<Rightarrow> Some a | None \<Rightarrow> find (\<lambda>a. PodName a = me) (Allocations (nw_Status nw)))"

lemma target_links_eq:
  assumes T: "tunnel_pkg_ok T" and id: "getNetworkId r nw = (i, r')"
  shows "\<exists>m r''. target_links T r nw = (m, r'') \<and> (r'' = r \<or> r'' = r') \<and> gm_ok m \<and>
    (case own_entry nw (myPodName r) of None \<Rightarrow> m = [] | Some me \<Rightarrow>
       map_of m = map_of (rev (map (\<lambda>a. (tunnel_name T i (PodName a), link_to me a)) (peers nw (myPodName r)))))"
proof (cases "find (\<lambda>a. PodName a = myPodName r) (Routers (nw_Status nw))")
  case (Some me)
  then have "myPodName r \<in> PodName ` set (Routers (nw_Status nw))"
    by (auto simp: find_Some_iff intro!: rev_image_eqI nth_mem)
  with Some show ?thesis
    by (auto simp: target_links_def lo_slice_okD(1,2) [OF tunnel_pkg_okD(1) [OF T]] link_pairs_eq [OF id] own_entry_def peers_def
        tunnel_pkg_okD(5,6) [OF T])
next
  case None
  then have no: "myPodName r \<notin> PodName ` set (Routers (nw_Status nw))" by (auto simp: find_None_iff)
  show ?thesis
  proof (cases "find (\<lambda>a. PodName a = myPodName r) (Allocations (nw_Status nw))")
    case (Some me)
    then have "myPodName r \<in> PodName ` set (Allocations (nw_Status nw))"
      by (auto simp: find_Some_iff intro!: rev_image_eqI nth_mem)
    with Some None no show ?thesis
      by (auto simp: target_links_def lo_slice_okD(1,2) [OF tunnel_pkg_okD(1) [OF T]] link_pairs_eq [OF id] own_entry_def peers_def
          tunnel_pkg_okD(5,6) [OF T])
  next
    case None2: None
    with None show ?thesis
      by (simp add: target_links_def lo_slice_okD(1,2) [OF tunnel_pkg_okD(1) [OF T]] own_entry_def)
  qed
qed

section \<open>Deleting and creating links\<close>

definition mark :: "string set \<Rightarrow> (string, LinkInfo) go_map \<Rightarrow> (string \<rightharpoonup> LinkInfo)" where
  "mark S m = (\<lambda>k. map_option (\<lambda>li. if k \<in> S then li\<lparr>Processed := True\<rparr> else li) (map_of m k))"

lemma mark_insert: "map_of m k = None \<Longrightarrow> mark (insert k S) m = mark S m"
proof (rule ext)
  fix j
  assume "map_of m k = None"
  then show "mark (insert k S) m j = mark S m j" by (cases "j = k") (simp_all add: mark_def)
qed

lemma sweep_links_result:
  assumes "sweep_links N pre links m n = (None, m', n')" and "gm_ok m"
  shows "commands n' = commands n @
      map LinkDel (filter (\<lambda>l. strings_HasPrefix (attr_Name l) pre \<and> \<not> gm_has m (attr_Name l)) links) \<and>
    gm_ok m' \<and> map_of m' = mark {attr_Name l |l. l \<in> set links \<and> strings_HasPrefix (attr_Name l) pre} m"
  using assms
proof (induction links arbitrary: m n)
  case Nil
  then show ?case by (auto simp: mark_def fun_eq_iff option.map_ident split: option.splits)
next
  case (Cons l links)
  let ?S = "\<lambda>ls. {attr_Name l |l. l \<in> set ls \<and> strings_HasPrefix (attr_Name l) pre}"
  show ?case
  proof (cases "strings_HasPrefix (attr_Name l) pre")
    case False
    then have "?S (l # links) = ?S links" by auto
    with False Cons show ?thesis by simp
  next
    case pre: True
    then have S: "?S (l # links) = insert (attr_Name l) (?S links)" by auto
    show ?thesis
    proof (cases "map_of m (attr_Name l)")
      case (Some li)
      let ?m = "gm_put m (attr_Name l) (li\<lparr>Processed := True\<rparr>)"
      have has: "gm_has ?m = gm_has m" using Some by (auto simp: gm_has_def fun_eq_iff)
      have "mark (?S links) ?m = mark (?S (l # links)) m"
        unfolding S mark_def by (rule ext) (simp add: Some)
      moreover have go: "sweep_links N pre links ?m n = (None, m', n')" using Cons.prems(1) pre Some by simp
      moreover have "gm_has m (attr_Name l)" using Some by (simp add: gm_has_def)
      ultimately show ?thesis
        using Cons.IH [OF go gm_ok_put [OF Cons.prems(2)], unfolded has] pre by simp
    next
      case None
      obtain n1 where ex: "nl_exec N (LinkDel l) n = (None, n1)"
        and go: "sweep_links N pre links m n1 = (None, m', n')"
        using Cons.prems(1) pre None by (auto split: prod.splits option.splits)
      have "mark (?S links) m = mark (?S (l # links)) m"
        unfolding S using None by (rule mark_insert [symmetric])
      with Cons.IH [OF go Cons.prems(2)] pre None commands_nl_exec [OF ex] show ?thesis
        by (simp add: gm_has_def)
    qed
  qed
qed

definition added_names :: "command list \<Rightarrow> string list" where
  "added_names cs = List.map_filter (\<lambda>c. case c of LinkAdd t \<Rightarrow> Some (Iptun_Name t) | _ \<Rightarrow> None) cs"

definition deleted_links :: "command list \<Rightarrow> Link list" where
  "deleted_links cs = List.map_filter (\<lambda>c. case c of LinkDel l \<Rightarrow> Some l | _ \<Rightarrow> None) cs"

lemma names_append [simp]:
  "added_names (xs @ ys) = added_names xs @ added_names ys" "added_names [] = []"
  "deleted_links (xs @ ys) = deleted_links xs @ deleted_links ys" "deleted_links [] = []"
  by (simp_all add: added_names_def deleted_links_def List.map_filter_def)

lemma names_Cons [simp]:
  "added_names (c # cs) = (case c of LinkAdd t \<Rightarrow> Iptun_Name t # added_names cs | _ \<Rightarrow> added_names cs)"
  "deleted_links (c # cs) = (case c of LinkDel l \<Rightarrow> l # deleted_links cs | _ \<Rightarrow> deleted_links cs)"
  by (simp_all add: added_names_def deleted_links_def List.map_filter_simps split: command.splits)

lemma deleted_links_map [simp]: "deleted_links (map LinkDel ls) = ls" "added_names (map LinkDel ls) = []"
  by (induction ls) simp_all

lemma configure_iface_commands:
  assumes "configure_iface N nw nm li isRouter n = (e, n')"
  shows "\<exists>cs. commands n' = commands n @ cs \<and> added_names cs = [] \<and> deleted_links cs = []"
  using assms unfolding configure_iface_def Let_def
  by (auto dest!: commands_nl_exec commands_nl_read split: prod.splits option.splits sum.splits if_splits)

lemma setupTunnelIface_commands:
  assumes "setupTunnelIface N nw nm li isRouter n = (e, n')"
  shows "\<exists>cs. commands n' = commands n @ cs \<and> added_names cs = [nm] \<and> deleted_links cs = []"
proof -
  define t where "t = \<lparr>EncapType = 1, EncapSport = word_of_int (Port (nw_Spec nw)) :: 16 word,
    EncapDport = word_of_int (Port (nw_Spec nw)) :: 16 word, EncapFlags = 0,
    Iptun_Local = ParseIP (LocalIP li), Iptun_Remote = ParseIP (RemoteIP li), Ttl = 200, Iptun_Name = nm\<rparr>"
  obtain e1 n1 where ex: "nl_exec N (LinkAdd t) n = (e1, n1)" by fastforce
  have nm: "Iptun_Name t = nm" by (simp add: t_def)
  show ?thesis
  proof (cases e1)
    case (Some x)
    with assms ex have "n' = n1" by (simp add: setupTunnelIface_def t_def)
    with commands_nl_exec [OF ex] nm show ?thesis by simp
  next
    case None
    with assms ex have "configure_iface N nw nm li isRouter n1 = (e, n')" by (simp add: setupTunnelIface_def t_def)
    from configure_iface_commands [OF this] commands_nl_exec [OF ex] nm show ?thesis by auto
  qed
qed

lemma add_links_result:
  assumes "add_links N nw isRouter ls n = (None, n')"
  shows "\<exists>cs. commands n' = commands n @ cs \<and> deleted_links cs = [] \<and>
    added_names cs = map fst (filter (\<lambda>(_, li). \<not> Processed li) ls)"
  using assms
proof (induction ls arbitrary: n)
  case (Cons l ls)
  obtain nm li where l: "l = (nm, li)" by (cases l)
  show ?case
  proof (cases "Processed li")
    case True
    with Cons l show ?thesis by simp
  next
    case False
    obtain n1 where up: "setupTunnelIface N nw nm li isRouter n = (None, n1)"
      and go: "add_links N nw isRouter ls n1 = (None, n')"
      using Cons.prems False l by (auto split: prod.splits option.splits)
    from setupTunnelIface_commands [OF up] Cons.IH [OF go] False l show ?thesis by fastforce
  qed
qed simp

section \<open>Properties\<close>

definition plain_network :: "string \<Rightarrow> OverlayNetwork" where
  "plain_network nm = \<lparr>nw_meta = \<lparr>Name = nm, Namespace = ''ns'', ResourceVersion = ''1'',
       DeletionTimestamp = None, Finalizers = [], Labels = [], Annotations = []\<rparr>,
     nw_Spec = \<lparr>AllocatableCIDR = ''10.0.0.0/24'', Port = 5555, RoutableCIDRs = [], OptionalRoutes = [],
       ServiceNames = []\<rparr>,
     nw_Status = \<lparr>Allocations = [], Routers = [], OptionalRouters = None\<rparr>\<rparr>"

definition fixed_netlink :: "Link list \<Rightarrow> unit netlink" where
  "fixed_netlink links = \<lparr>nl_LinkList = (\<lambda>k. (Inr links, k)),
     nl_LinkByName = (\<lambda>nm k. (Inr \<lparr>attr_Name = nm, attr_Index = 1\<rparr>, k)), nl_RouteList = (\<lambda>_ _ k. (Inr [], k)),
     nl_FouList = (\<lambda>_ k. (Inr [], k)), nl_do = (\<lambda>_ k. (None, k)), SCOPE_LINK = 253, FAMILY_V4 = 2,
     FOU_ENCAP_DIRECT = 1\<rparr>"

definition idle_node :: "unit node" where
  "idle_node = \<lparr>kernel = (), commands = []\<rparr>"

definition known_networks :: "OverlayNetwork list \<Rightarrow> TunnelReconciler \<Rightarrow> TunnelReconciler" where
  "known_networks nws r = fold (\<lambda>nw r. snd (getNetworkId r nw)) nws r"

lemma known_networks_ids:
  "ids_ok r \<Longrightarrow> unat (networkIndex r) + length nws < 2 ^ 32 - 1 \<Longrightarrow>
     ids_ok (known_networks nws r) \<and> unat (networkIndex (known_networks nws r)) \<le> unat (networkIndex r) + length nws"
proof (induction nws arbitrary: r)
  case (Cons nw nws)
  obtain i r1 where g: "getNetworkId r nw = (i, r1)" by (cases "getNetworkId r nw")
  have "unat (networkIndex r) < 2 ^ 32 - 1" using Cons.prems(2) by simp
  note res = getNetworkId_result [OF Cons.prems(1) this g]
  with Cons.IH [of r1] Cons.prems(2) g show ?case by (simp add: known_networks_def)
qed (simp add: known_networks_def)

lemma char_of_inj: "a < 256 \<Longrightarrow> b < 256 \<Longrightarrow> (char_of a :: char) = char_of b \<Longrightarrow> a = (b :: nat)"
  by (metis of_char_of mod_less)

text \<open>Networks do not touch each other's tunnels. In a sidecar that has seen any sequence of fewer
  than 62 networks, the tunnels of one network never carry the link prefix of a network with
  another name, so that the reconciliation of the one never deletes a link of the other.\<close>

lemma tunnel_names_isolated:
  assumes "SetupWithManager pn = Inr r0" and "length nws < 62"
    and "getNetworkId (known_networks nws r0) a = (i, r1)" and "getTunnelId T r1 b pod = (nm, r2)"
    and "Name (nw_meta a) \<noteq> Name (nw_meta b)"
  shows "\<not> strings_HasPrefix nm (''o'' @ print_rune (sint i) @ ''_'')"
proof -
  have idx0: "networkIndex r0 = 0" using assms(1) by (auto simp: SetupWithManager_def split: option.splits)
  have k: "ids_ok (known_networks nws r0)" "unat (networkIndex (known_networks nws r0)) < 62"
    using known_networks_ids [OF ids_ok_setup [OF assms(1)], of nws] assms(2) by (auto simp: idx0)
  obtain j where g: "getNetworkId r1 b = (j, r2)" and nm: "nm = ''o'' @ print_rune (sint j) @ ''_'' @ base58 T (fnv64 (PodName pod))"
    using assms(4) by (auto simp: getTunnelId_def split: prod.splits)
  have b1: "unat (networkIndex (known_networks nws r0)) < 2 ^ 32 - 1" using k(2) by simp
  note r1 = getNetworkId_result [OF k(1) b1 assms(3)]
  have b2: "unat (networkIndex r1) < 63" using r1(4) k(2) by simp
  then have b3: "unat (networkIndex r1) < 2 ^ 32 - 1" by simp
  note r2 = getNetworkId_result [OF r1(1) b3 g]
  have "map_of (networkToName r2) (Name (nw_meta a)) = Some (i - 65)" by (rule r2(3)) (rule r1(2))
  with r2(1,2) assms(5) have diff: "i - 65 \<noteq> j - 65" unfolding ids_ok_def by metis
  have below: "unat k < unat (networkIndex r2)" if "map_of (networkToName r2) x = Some k" for x k
    using r2(1) that unfolding ids_ok_def by blast
  have small: "unat (i - 65) < 63" "unat (j - 65) < 63"
    using below [OF r2(3) [OF r1(2)]] below [OF r2(2)] r2(4) r1(4) k(2) by simp_all
  have runes: "print_rune (sint i) = [char_of (65 + unat (i - 65))]" "print_rune (sint j) = [char_of (65 + unat (j - 65))]"
    using print_rune_small [OF small(1)] print_rune_small [OF small(2)] by simp_all
  have "(char_of (65 + unat (j - 65)) :: char) \<noteq> char_of (65 + unat (i - 65))"
  proof
    assume "(char_of (65 + unat (j - 65)) :: char) = char_of (65 + unat (i - 65))"
    then have "65 + unat (j - 65) = 65 + unat (i - 65)" by (rule char_of_inj [rotated 2]) (use small in simp_all)
    with diff show False by (simp add: unat_arith_simps(3))
  qed
  then show ?thesis by (simp add: nm runes strings_HasPrefix_def)
qed

lemma char_of_letter: "unat i < 32 \<Longrightarrow> letter (char_of (65 + unat i)) \<longleftrightarrow> unat (i :: 32 word) < 26"
  by (auto simp: letter_def)

lemma tunnel_name_regex:
  assumes "tunnel_pkg_ok T" and "unat i < 32"
  shows "linkNameRegex (tunnel_name T (65 + i) p) \<longleftrightarrow> unat i < 26 \<and> 8 \<le> length (base58 T (fnv64 p))"
proof -
  have "tunnel_name T (65 + i) p = CHR ''o'' # char_of (65 + unat i) # CHR ''_'' # base58 T (fnv64 p)"
    using assms(2) by (simp add: tunnel_name_def print_rune_small)
  then show ?thesis
    using tunnel_pkg_okD(8,9) [OF assms(1)] by (simp add: linkNameRegex_def char_of_letter [OF assms(2)])
qed

lemma delete_overlay_links_commands:
  "commands (delete_overlay_links N links n) = commands n @ map LinkDel (filter (\<lambda>l. linkNameRegex (attr_Name l)) links)"
proof (induction links arbitrary: n)
  case (Cons l links)
  have "commands (snd (nl_exec N (LinkDel l) n)) = commands n @ [LinkDel l]"
    using commands_nl_exec [of N "LinkDel l" n] by (metis surjective_pairing)
  with Cons.IH show ?case by simp
qed simp

text \<open>C37: \<open>Shutdown\<close> asks the kernel to delete every link whose name matches the pattern, also after an
  error, and no other link. Of the tunnels of the first 32 networks it deletes those of the first
  26 whose encoded hash has at least 8 characters; tunnels of the others stay behind.\<close>

theorem Shutdown_deletes:
  assumes "tunnel_pkg_ok T" and "nl_read (nl_LinkList N) n = (Inr links, n1)"
  shows "commands (Shutdown N n) = commands n @ map LinkDel (filter (\<lambda>l. linkNameRegex (attr_Name l)) links) \<and>
    (\<forall>l \<in> set links. \<forall>i p. attr_Name l = tunnel_name T (65 + i) p \<longrightarrow> unat i < 32 \<longrightarrow>
       (linkNameRegex (attr_Name l) \<longleftrightarrow> unat i < 26 \<and> 8 \<le> length (base58 T (fnv64 p))))"
  using assms(2) commands_nl_read [OF assms(2)] tunnel_name_regex [OF assms(1)]
  by (simp add: Shutdown_def delete_overlay_links_commands)

theorem Shutdown_deletes_witness:
  "commands (Shutdown (fixed_netlink [\<lparr>attr_Name = ''eth0'', attr_Index = 1\<rparr>, \<lparr>attr_Name = ''oA_aaaaaaaa'', attr_Index = 2\<rparr>])
     idle_node) = [LinkDel \<lparr>attr_Name = ''oA_aaaaaaaa'', attr_Index = 2\<rparr>]"
proof -
  let ?ls = "[\<lparr>attr_Name = ''eth0'', attr_Index = 1\<rparr>, \<lparr>attr_Name = ''oA_aaaaaaaa'', attr_Index = 2\<rparr>]"
  have "nl_read (nl_LinkList (fixed_netlink ?ls)) idle_node = (Inr ?ls, idle_node)"
    by (simp add: nl_read_def fixed_netlink_def idle_node_def)
  from Shutdown_deletes [OF tunnel_std_ok this] show ?thesis
    by (simp add: linkNameRegex_def letter_def alnum_def idle_node_def)
qed

end
