(* ===== verification/TunnelRoutes.thy ===== *)
theory TunnelRoutes
  imports TunnelLinks
begin

text \<open>
  Routes: which of them a pod is to have, what a reconciliation asks the kernel to change, when
  it panics, and what the comparison of networks and the growing list of target routes lead to.
\<close>

section \<open>Comparing networks and routers\<close>

lemma IP_Equal_refl [simp]: "IP_Equal a a"
  by (simp add: IP_Equal_def)

lemma netEqual_iff: "netEqual n1 n2 \<longleftrightarrow> Mask_Size (net_Mask n1) = Mask_Size (net_Mask n2)"
  by (auto simp: netEqual_def split: prod.splits)

lemma IP_Equal_16: "length a = 16 \<Longrightarrow> length b = 16 \<Longrightarrow> IP_Equal a g \<Longrightarrow> IP_Equal b g \<Longrightarrow> a = b"
  by (auto simp: IP_Equal_def split: if_splits) (metis append_take_drop_id)

section \<open>The routes a pod is to have\<close>

lemma routes_via_iff:
  "rs \<in> set (routes_via c rts) \<longleftrightarrow> rs_net rs = c \<and> (\<exists>rt \<in> set rts. rs_router rs = ParseIP (IP rt) \<and> ParseIP (IP rt) \<noteq> [])"
  by (induction rts) (cases rs; auto simp: Let_def)+

lemma routes_to_iff:
  "rs \<in> set (routes_to cidrs rts) \<longleftrightarrow> (\<exists>s \<in> set cidrs. \<exists>a. ParseCIDR s = Some (a, rs_net rs)) \<and>
     (\<exists>rt \<in> set rts. rs_router rs = ParseIP (IP rt) \<and> ParseIP (IP rt) \<noteq> [])"
  by (induction cidrs) (auto simp: routes_via_iff split: option.splits)

definition optional_routers :: "OverlayNetwork \<Rightarrow> string \<Rightarrow> OverlayNetworkIPAllocation list" where
  "optional_routers nw k = (case OptionalRouters (nw_Status nw) of None \<Rightarrow> [] | Some m \<Rightarrow> gm_get m k [])"

lemma extra_routes_Cons:
  assumes "tunnel_pkg_ok T"
  shows "extra_routes T nw (item # items) =
    (case find (\<lambda>e. er_Name e = item) (OptionalRoutes (nw_Spec nw)) of None \<Rightarrow> []
     | Some e \<Rightarrow> routes_to (er_RoutableCIDRs e) (optional_routers nw item)) @ extra_routes T nw items"
proof -
  have nil: "routes_to cs [] = []" for cs by (induction cs) (auto split: option.splits)
  note lo = lo_slice_okD(2) [OF tunnel_pkg_okD(2) [OF assms]]
  show ?thesis
  proof (cases "find (\<lambda>e. er_Name e = item) (OptionalRoutes (nw_Spec nw))")
    case None
    then show ?thesis by (simp add: lo)
  next
    case (Some e)
    then have nm: "er_Name e = item" by (auto simp: find_Some_iff)
    show ?thesis
    proof (cases "OptionalRouters (nw_Status nw)")
      case None
      then show ?thesis by (simp add: lo Some nm optional_routers_def nil)
    next
      case (Some m)
      then show ?thesis
        using \<open>find _ _ = Some e\<close> by (cases "map_of m item") (simp_all add: lo nm optional_routers_def gm_get_def nil)
    qed
  qed
qed

lemma extra_routes_set:
  assumes "tunnel_pkg_ok T"
  shows "rs \<in> set (extra_routes T nw items) \<longleftrightarrow>
    (\<exists>item \<in> set items. \<exists>e. find (\<lambda>e. er_Name e = item) (OptionalRoutes (nw_Spec nw)) = Some e \<and>
       rs \<in> set (routes_to (er_RoutableCIDRs e) (optional_routers nw item)))"
proof (induction items)
  case (Cons item items)
  then show ?case
    unfolding extra_routes_Cons [OF assms] by (auto split: option.splits)
qed simp

lemma router_length: "rs \<in> set (routes_to cs rts) \<Longrightarrow> length (rs_router rs) = 16"
  unfolding routes_to_iff using ParseIP_length by metis

section \<open>One link\<close>

definition matches :: "Route \<Rightarrow> routeState \<Rightarrow> bool" where
  "matches route t \<longleftrightarrow> IP_Equal (rs_router t) (rt_Gw route) \<and> (\<exists>d. rt_Dst route = Some d \<and> netEqual d (rs_net t))"

definition owned_route :: "'k netlink \<Rightarrow> Route \<Rightarrow> ipnet \<Rightarrow> string \<Rightarrow> bool" where
  "owned_route N route net src \<longleftrightarrow> rt_Scope route = SCOPE_LINK N \<and>
     (\<exists>d. rt_Dst route = Some d \<and> netEqual d net) \<and> IP_Equal (rt_Src route) (ParseIP src)"

lemma is_owned_eq: "rt_Dst route \<noteq> None \<Longrightarrow> is_owned N route net src = Returns (owned_route N route net src)"
  by (auto simp: is_owned_def owned_route_def split: option.splits)

lemma find_target_eq:
  assumes "tunnel_pkg_ok T" and "rt_Dst route \<noteq> None"
  shows "find_target T route ts = Returns (find (matches route) ts)"
proof -
  from assms(2) obtain d where d: "rt_Dst route = Some d" by blast
  then have "matches route = (\<lambda>rt. IP_Equal (rs_router rt) (rt_Gw route) \<and> netEqual d (rs_net rt))"
    by (auto simp: matches_def fun_eq_iff)
  with d show ?thesis by (simp add: find_target_def lo_slice_okD(2) [OF tunnel_pkg_okD(3) [OF assms(1)]])
qed

text \<open>The routes that make a round panic: without destination, and looked at by one of the comparisons.\<close>

definition panics_on :: "'k netlink \<Rightarrow> routeState list \<Rightarrow> Route \<Rightarrow> bool" where
  "panics_on N ts r \<longleftrightarrow> rt_Dst r = None \<and> (rt_Scope r = SCOPE_LINK N \<or> ts \<noteq> [])"

lemma sweep_routes_Cons:
  assumes "tunnel_pkg_ok T"
  shows "sweep_routes T N net src ts (r # routes) f p n =
    (if panics_on N ts r then Panics
     else if owned_route N r net src then sweep_routes T N net src ts routes True p n
     else case find (matches r) ts of
         Some t \<Rightarrow> sweep_routes T N net src ts routes f (p @ [t]) n
       | None \<Rightarrow> (case nl_exec N (RouteDel r) n of
           (Some err, n) \<Rightarrow> Returns (Some err, f, p, n)
         | (None, n) \<Rightarrow> sweep_routes T N net src ts routes f p n))"
proof (cases "rt_Dst r")
  case None
  have "find_target T r [] = Returns None"
    by (simp add: find_target_def lo_slice_okD(2) [OF tunnel_pkg_okD(3) [OF assms]])
  with None show ?thesis
    by (cases "ts = []") (auto simp: panics_on_def is_owned_def owned_route_def find_target_def)
next
  case (Some d)
  then show ?thesis by (auto simp: panics_on_def is_owned_eq find_target_eq [OF assms] split: option.splits)
qed

declare sweep_routes.simps(2) [simp del]

lemma sweep_routes_panics:
  assumes "tunnel_pkg_ok T"
  shows "sweep_routes T N net src ts routes f p n = Panics \<longleftrightarrow>
    (\<exists>before r after f' p' n'. routes = before @ r # after \<and> panics_on N ts r \<and>
       sweep_routes T N net src ts before f p n = Returns (None, f', p', n'))"
proof (induction routes arbitrary: f p n)
  case (Cons r routes)
  let ?run = "sweep_routes T N net src ts"
  let ?after = "\<lambda>rs f p n. \<exists>before r after f' p' n'. rs = before @ r # after \<and> panics_on N ts r \<and> ?run before f p n = Returns (None, f', p', n')"
  have split: "?after (r # routes) f p n \<longleftrightarrow> panics_on N ts r \<or>
      (\<exists>before x after f' p' n'. routes = before @ x # after \<and> panics_on N ts x \<and> ?run (r # before) f p n = Returns (None, f', p', n'))"
    (is "?L \<longleftrightarrow> _ \<or> ?R")
  proof
    assume ?L
    then obtain before x after f' p' n' where b: "r # routes = before @ x # after" "panics_on N ts x"
      "?run before f p n = Returns (None, f', p', n')" by blast
    then show "panics_on N ts r \<or> ?R" by (cases before) (simp_all, blast)
  next
    assume "panics_on N ts r \<or> ?R"
    then show ?L
    proof
      assume "panics_on N ts r"
      then show ?L by (intro exI [of _ "[]"]) simp
    next
      assume ?R
      then show ?L by (metis append_Cons)
    qed
  qed
  show ?case
    unfolding split using Cons.IH by (auto simp: sweep_routes_Cons [OF assms] split: option.splits prod.splits)
qed simp

lemma sweep_routes_result:
  assumes "tunnel_pkg_ok T" and "\<forall>r \<in> set routes. rt_Dst r \<noteq> None"
  shows "\<exists>e f p n' dels. sweep_routes T N net src ts routes f0 p0 n = Returns (e, f, p0 @ p, n') \<and>
    commands n' = commands n @ map RouteDel dels \<and>
    (\<forall>r \<in> set dels. r \<in> set routes \<and> \<not> owned_route N r net src \<and> (\<forall>t \<in> set ts. \<not> matches r t)) \<and>
    set p \<subseteq> set ts \<and>
    (e = None \<longrightarrow> (\<forall>r \<in> set routes. owned_route N r net src \<or> r \<in> set dels \<or> (\<exists>t \<in> set p. matches r t)))"
  using assms(2)
proof (induction routes arbitrary: f0 p0 n)
  case Nil
  show ?case by (rule exI [of _ None], rule exI [of _ f0], rule exI [of _ "[]"], rule exI [of _ n], rule exI [of _ "[]"]) simp
next
  case (Cons r routes)
  then have d: "rt_Dst r \<noteq> None" and rest: "\<forall>r \<in> set routes. rt_Dst r \<noteq> None" by simp_all
  have np: "\<not> panics_on N ts r" using d by (simp add: panics_on_def)
  let ?run = "sweep_routes T N net src ts"
  consider (owned) "owned_route N r net src" | (gone) "\<not> owned_route N r net src" "find (matches r) ts = None"
    | (kept) t where "\<not> owned_route N r net src" "find (matches r) ts = Some t" by fastforce
  then show ?case
  proof cases
    case owned
    with d have "?run (r # routes) f0 p0 n = ?run routes True p0 n"
      by (auto simp add: sweep_routes_Cons [OF assms(1)] np)
    with Cons.IH [OF rest, of True p0 n] owned show ?thesis by fastforce
  next
    case gone
    have no: "\<forall>t \<in> set ts. \<not> matches r t" using gone(2) by (simp add: find_None_iff)
    obtain e1 n1 where ex: "nl_exec N (RouteDel r) n = (e1, n1)" by fastforce
    show ?thesis
    proof (cases e1)
      case (Some err)
      with gone d ex have "?run (r # routes) f0 p0 n = Returns (Some err, f0, p0 @ [], n1)"
        by (simp add: sweep_routes_Cons [OF assms(1)] np)
      with commands_nl_exec [OF ex] gone(1) no show ?thesis
        by (intro exI [of _ "Some err"] exI [of _ f0] exI [of _ "[]"] exI [of _ n1] exI [of _ "[r]"]) auto
    next
      case None
      with gone d ex have run: "?run (r # routes) f0 p0 n = ?run routes f0 p0 n1"
        by (simp add: sweep_routes_Cons [OF assms(1)] np)
      obtain e f p n' dels where IH: "?run routes f0 p0 n1 = Returns (e, f, p0 @ p, n')"
        "commands n' = commands n1 @ map RouteDel dels"
        "\<forall>r \<in> set dels. r \<in> set routes \<and> \<not> owned_route N r net src \<and> (\<forall>t \<in> set ts. \<not> matches r t)"
        "set p \<subseteq> set ts"
        "e = None \<longrightarrow> (\<forall>r \<in> set routes. owned_route N r net src \<or> r \<in> set dels \<or> (\<exists>t \<in> set p. matches r t))"
        using Cons.IH [OF rest, of f0 p0 n1] by blast
      show ?thesis
        unfolding run
        by (rule exI [of _ e], rule exI [of _ f], rule exI [of _ p], rule exI [of _ n'], rule exI [of _ "r # dels"])
          (use IH commands_nl_exec [OF ex] gone(1) no in auto)
    qed
  next
    case (kept t)
    have t: "t \<in> set ts" "matches r t" using kept(2) by (auto simp: find_Some_iff)
    have run: "?run (r # routes) f0 p0 n = ?run routes f0 (p0 @ [t]) n"
      using kept d by (simp add: sweep_routes_Cons [OF assms(1)] np)
    obtain e f p n' dels where IH: "?run routes f0 (p0 @ [t]) n = Returns (e, f, (p0 @ [t]) @ p, n')"
      "commands n' = commands n @ map RouteDel dels"
      "\<forall>r \<in> set dels. r \<in> set routes \<and> \<not> owned_route N r net src \<and> (\<forall>t \<in> set ts. \<not> matches r t)"
      "set p \<subseteq> set ts"
      "e = None \<longrightarrow> (\<forall>r \<in> set routes. owned_route N r net src \<or> r \<in> set dels \<or> (\<exists>t \<in> set p. matches r t))"
      using Cons.IH [OF rest, of f0 "p0 @ [t]" n] by blast
    show ?thesis
      unfolding run
      by (rule exI [of _ e], rule exI [of _ f], rule exI [of _ "t # p"], rule exI [of _ n'], rule exI [of _ dels])
        (use IH t in auto)
  qed
qed

definition route_for :: "'k netlink \<Rightarrow> Link \<Rightarrow> string \<Rightarrow> routeState \<Rightarrow> Route" where
  "route_for N link src t = \<lparr>rt_LinkIndex = attr_Index link, rt_Scope = 0,
     rt_Dst = Some (rs_net t), rt_Src = ParseIP src, rt_Gw = rs_router t\<rparr>"

definition covered :: "routeState list \<Rightarrow> routeState \<Rightarrow> bool" where
  "covered ps t \<longleftrightarrow> (\<exists>p \<in> set ps. netEqual (rs_net p) (rs_net t) \<and> IP_Equal (rs_router t) (rs_router p))"

lemma add_routes_result:
  assumes "tunnel_pkg_ok T"
  shows "\<exists>e n' k. add_routes T N link src ps ts n = (e, n') \<and>
    commands n' = commands n @ map (\<lambda>t. RouteAdd (route_for N link src t)) (take k (filter (\<lambda>t. \<not> covered ps t) ts)) \<and>
    (e = None \<longrightarrow> take k (filter (\<lambda>t. \<not> covered ps t) ts) = filter (\<lambda>t. \<not> covered ps t) ts)"
proof (induction ts arbitrary: n)
  case (Cons t ts)
  have c: "lo_ContainsBy (tl_route T) ps (\<lambda>p. netEqual (rs_net p) (rs_net t) \<and> IP_Equal (rs_router t) (rs_router p)) = covered ps t"
    by (simp add: lo_slice_okD(3) [OF tunnel_pkg_okD(3) [OF assms]] covered_def)
  show ?case
  proof (cases "covered ps t")
    case True
    with Cons.IH [of n] c show ?thesis by simp
  next
    case False
    obtain e1 n1 where ex: "nl_exec N (RouteAdd (route_for N link src t)) n = (e1, n1)" by fastforce
    show ?thesis
    proof (cases e1)
      case (Some err)
      with False c ex commands_nl_exec [OF ex] show ?thesis
        by (intro exI [of _ "Some err"] exI [of _ n1] exI [of _ 1]) (simp add: route_for_def)
    next
      case None
      obtain e n' k where IH: "add_routes T N link src ps ts n1 = (e, n')"
        "commands n' = commands n1 @ map (\<lambda>t. RouteAdd (route_for N link src t)) (take k (filter (\<lambda>t. \<not> covered ps t) ts))"
        "e = None \<longrightarrow> take k (filter (\<lambda>t. \<not> covered ps t) ts) = filter (\<lambda>t. \<not> covered ps t) ts"
        using Cons.IH [of n1] by blast
      with None False c ex commands_nl_exec [OF ex] show ?thesis
        by (intro exI [of _ e] exI [of _ n'] exI [of _ "Suc k"]) (simp add: route_for_def)
    qed
  qed
qed simp

definition owned_net :: "bool \<Rightarrow> ipnet \<Rightarrow> LinkInfo \<Rightarrow> ipnet" where
  "owned_net isRouter allocNet li = (if \<not> isRouter then allocNet
     else \<lparr>net_IP = ParseIP (InTunnelRemoteIP li), net_Mask = CIDRMask 32 32\<rparr>)"

definition grown_routes :: "OverlayNetwork \<Rightarrow> bool \<Rightarrow> routeState list \<Rightarrow> routeState list" where
  "grown_routes nw isRouter ts = (if \<not> isRouter
     then ts @ routes_to (RoutableCIDRs (nw_Spec nw)) (Routers (nw_Status nw)) else ts)"

definition owned_add :: "'k netlink \<Rightarrow> Link \<Rightarrow> ipnet \<Rightarrow> string \<Rightarrow> Route" where
  "owned_add N link net src = \<lparr>rt_LinkIndex = attr_Index link, rt_Scope = SCOPE_LINK N, rt_Dst = Some net,
     rt_Src = ParseIP src, rt_Gw = []\<rparr>"

text \<open>What a round of the loop does to a link whose routes all have a destination.\<close>

lemma link_routes_result:
  assumes T: "tunnel_pkg_ok T" and link: "nl_read (nl_LinkByName N nm) n = (Inr link, n1)"
    and routes: "nl_read (nl_RouteList N link (FAMILY_V4 N)) n1 = (Inr routes, n2)" "\<forall>r \<in> set routes. rt_Dst r \<noteq> None"
    and cidr: "ParseCIDR (AllocatableCIDR (nw_Spec nw)) = Some (a, allocNet)"
  obtains e n' dels own adds p where
    "link_routes T N nw isRouter nm li ts n = Returns (e, grown_routes nw isRouter ts, n')"
    "commands n' = commands n @ map RouteDel dels @ own @ map (\<lambda>t. RouteAdd (route_for N link (InTunnelLocalIP li) t)) adds"
    "\<forall>r \<in> set dels. r \<in> set routes \<and> (\<forall>t \<in> set (grown_routes nw isRouter ts). \<not> matches r t)"
    "own = [] \<or> own = [RouteAdd (owned_add N link (owned_net isRouter allocNet li) (InTunnelLocalIP li))]"
    "set adds \<subseteq> {t \<in> set (grown_routes nw isRouter ts). \<not> covered p t}"
    "adds = [] \<or> set p \<subseteq> set (grown_routes nw isRouter ts) \<and> (\<forall>r \<in> set routes.
       owned_route N r (owned_net isRouter allocNet li) (InTunnelLocalIP li) \<or> r \<in> set dels \<or> (\<exists>t \<in> set p. matches r t))"
proof -
  let ?ts = "grown_routes nw isRouter ts" and ?src = "InTunnelLocalIP li"
  let ?own = "owned_net isRouter allocNet li"
  have cmds: "commands n2 = commands n" using commands_nl_read [OF link] commands_nl_read [OF routes(1)] by simp
  obtain e f p n3 dels where sw: "sweep_routes T N ?own ?src ?ts routes False [] n2 = Returns (e, f, p, n3)"
    "commands n3 = commands n @ map RouteDel dels"
    "\<forall>r \<in> set dels. r \<in> set routes \<and> (\<forall>t \<in> set ?ts. \<not> matches r t)" "set p \<subseteq> set ?ts"
    "e = None \<longrightarrow> (\<forall>r \<in> set routes. owned_route N r ?own ?src \<or> r \<in> set dels \<or> (\<exists>t \<in> set p. matches r t))"
    using sweep_routes_result [OF T routes(2), of N ?own ?src ?ts False "[]" n2] cmds by auto
  have run: "link_routes T N nw isRouter nm li ts n =
      (if e \<noteq> None then Returns (e, ?ts, n3)
       else case (if \<not> f then add_owned N link ?own ?src n3 else (None, n3)) of
           (Some err, n) \<Rightarrow> Returns (Some err, ?ts, n)
         | (None, n) \<Rightarrow> (case add_routes T N link ?src p ?ts n of (err, n) \<Rightarrow> Returns (err, ?ts, n)))"
    unfolding link_routes_def Let_def grown_routes_def [symmetric] owned_net_def [symmetric]
    using link routes(1) cidr sw(1) by simp
  show thesis
  proof (cases e)
    case (Some err)
    with run sw(2-) show thesis by (intro that [of e n3 dels "[]" "[]" p]) auto
  next
    case None
    obtain e1 n4 where ow: "(if \<not> f then add_owned N link ?own ?src n3 else (None, n3)) = (e1, n4)" by fastforce
    obtain own where own: "commands n4 = commands n3 @ own"
      "own = [] \<or> own = [RouteAdd (owned_add N link ?own ?src)]"
      using ow by (auto simp: add_owned_def owned_add_def split: if_splits dest: commands_nl_exec)
    show thesis
    proof (cases e1)
      case (Some err)
      with run None ow own sw(2-) show thesis by (intro that [of "Some err" n4 dels own "[]" p]) auto
    next
      case e1: None
      obtain e2 n5 k where ad: "add_routes T N link ?src p ?ts n4 = (e2, n5)"
        "commands n5 = commands n4 @ map (\<lambda>t. RouteAdd (route_for N link ?src t)) (take k (filter (\<lambda>t. \<not> covered p t) ?ts))"
        using add_routes_result [OF T] by metis
      have sub: "set (take k (filter (\<lambda>t. \<not> covered p t) ?ts)) \<subseteq> {t \<in> set ?ts. \<not> covered p t}"
        using set_take_subset [of k "filter (\<lambda>t. \<not> covered p t) ?ts"] by auto
      show thesis
        by (rule that [of e2 n5 dels own "take k (filter (\<lambda>t. \<not> covered p t) ?ts)" p, OF _ _ sw(3) own(2) sub])
          (use run None ow own e1 ad sw in auto)
    qed
  qed
qed

definition dst_listed :: "'k netlink \<Rightarrow> bool" where
  "dst_listed N \<longleftrightarrow> (\<forall>link family k routes k'. nl_RouteList N link family k = (Inr routes, k') \<longrightarrow> (\<forall>r \<in> set routes. rt_Dst r \<noteq> None))"

definition route_only :: "command list \<Rightarrow> bool" where
  "route_only cs \<longleftrightarrow> (\<forall>c \<in> set cs. \<exists>r. c = RouteAdd r \<or> c = RouteDel r)"

lemma route_only_simps [simp]:
  "route_only []" "route_only (c # cs) \<longleftrightarrow> (\<exists>r. c = RouteAdd r \<or> c = RouteDel r) \<and> route_only cs"
  "route_only (xs @ ys) \<longleftrightarrow> route_only xs \<and> route_only ys"
  by (auto simp: route_only_def)

definition only_routes :: "'k node \<Rightarrow> 'k node \<Rightarrow> bool" where
  "only_routes n n' \<longleftrightarrow> (\<exists>cs. commands n' = commands n @ cs \<and> route_only cs)"

lemma only_routes_refl [simp]: "only_routes n n"
  by (auto simp: only_routes_def)

lemma only_routes_trans [trans]: "only_routes a b \<Longrightarrow> only_routes b c \<Longrightarrow> only_routes a c"
  unfolding only_routes_def by (metis append.assoc route_only_simps(3))

lemma only_routes_read: "nl_read f n = (a, n') \<Longrightarrow> only_routes n n'"
  using commands_nl_read [of f n a n'] by (auto simp: only_routes_def)

lemma only_routes_exec: "nl_exec N c n = (e, n') \<Longrightarrow> (\<exists>r. c = RouteAdd r \<or> c = RouteDel r) \<Longrightarrow> only_routes n n'"
  using commands_nl_exec [of N c n e n'] by (auto simp: only_routes_def)

lemma sweep_routes_only:
  assumes "tunnel_pkg_ok T"
  shows "sweep_routes T N net src ts routes f p n = Returns (e, f', p', n') \<Longrightarrow> only_routes n n'"
proof (induction routes arbitrary: f p n)
  case (Cons r routes)
  obtain e1 n1 where ex: "nl_exec N (RouteDel r) n = (e1, n1)" by fastforce
  have del: "only_routes n n1" using ex by (rule only_routes_exec) simp
  from Cons.prems ex have "n' = n1 \<or> (\<exists>f p. sweep_routes T N net src ts routes f p n1 = Returns (e, f', p', n')) \<or>
      (\<exists>f p. sweep_routes T N net src ts routes f p n = Returns (e, f', p', n'))"
    by (auto simp: sweep_routes_Cons [OF assms] split: if_splits option.splits)
  with Cons.IH del show ?case using only_routes_trans by blast
qed simp

lemma sweep_routes_halts: "tunnel_pkg_ok T \<Longrightarrow> sweep_routes T N net src ts routes f p n \<noteq> Diverges"
  by (induction routes arbitrary: f p n) (auto simp: sweep_routes_Cons split: option.splits prod.splits)

lemma add_routes_only:
  assumes "tunnel_pkg_ok T" and "add_routes T N link src ps ts n = (e, n')"
  shows "only_routes n n'"
  using add_routes_result [OF assms(1), of N link src ps ts n] assms(2) by (auto simp: only_routes_def route_only_def)

lemma link_routes_run:
  assumes "ParseCIDR (AllocatableCIDR (nw_Spec nw)) = Some (a, net)"
    and "nl_read (nl_LinkByName N nm) n = (Inr link, n1)"
    and "nl_read (nl_RouteList N link (FAMILY_V4 N)) n1 = (Inr routes, n2)"
  shows "link_routes T N nw isRouter nm li ts n =
    bind_outcome (sweep_routes T N (owned_net isRouter net li) (InTunnelLocalIP li) (grown_routes nw isRouter ts) routes False [] n2)
      (\<lambda>(err, f, p, n).
        if err \<noteq> None then Returns (err, grown_routes nw isRouter ts, n)
        else case (if \<not> f then add_owned N link (owned_net isRouter net li) (InTunnelLocalIP li) n else (None, n)) of
            (Some err, n) \<Rightarrow> Returns (Some err, grown_routes nw isRouter ts, n)
          | (None, n) \<Rightarrow> (case add_routes T N link (InTunnelLocalIP li) p (grown_routes nw isRouter ts) n of
              (err, n) \<Rightarrow> Returns (err, grown_routes nw isRouter ts, n)))"
  unfolding link_routes_def Let_def grown_routes_def [symmetric] owned_net_def [symmetric]
  by (simp only: assms prod.case sum.case option.case)

text \<open>The routes that a round gets to see: link, list and network have been read.\<close>

definition round_reads :: "'k netlink \<Rightarrow> OverlayNetwork \<Rightarrow> string \<Rightarrow> 'k node \<Rightarrow> ipnet \<Rightarrow> Route list \<Rightarrow> 'k node \<Rightarrow> bool" where
  "round_reads N nw nm n net routes n2 \<longleftrightarrow> (\<exists>link n1 a. nl_read (nl_LinkByName N nm) n = (Inr link, n1) \<and>
     nl_read (nl_RouteList N link (FAMILY_V4 N)) n1 = (Inr routes, n2) \<and> ParseCIDR (AllocatableCIDR (nw_Spec nw)) = Some (a, net))"

lemma link_routes_outcome:
  assumes T: "tunnel_pkg_ok T"
  obtains (Returned) e ts' n' where "link_routes T N nw isRouter nm li ts n = Returns (e, ts', n')" "only_routes n n'"
      "\<And>net routes n2. round_reads N nw nm n net routes n2 \<Longrightarrow>
         sweep_routes T N (owned_net isRouter net li) (InTunnelLocalIP li) (grown_routes nw isRouter ts) routes False [] n2 \<noteq> Panics"
  | (Panicked) net routes n2 where "link_routes T N nw isRouter nm li ts n = Panics" "round_reads N nw nm n net routes n2"
      "sweep_routes T N (owned_net isRouter net li) (InTunnelLocalIP li) (grown_routes nw isRouter ts) routes False [] n2 = Panics"
proof -
  obtain l n1 where l: "nl_read (nl_LinkByName N nm) n = (l, n1)" by fastforce
  show thesis
  proof (cases l)
    case (Inl e)
    then show thesis using l only_routes_read [OF l]
      by (intro Returned [of "Some e" ts n1]) (auto simp: link_routes_def round_reads_def)
  next
    case link: (Inr link)
    obtain g n2 where g: "nl_read (nl_RouteList N link (FAMILY_V4 N)) n1 = (g, n2)" by fastforce
    note q2 = only_routes_trans [OF only_routes_read [OF l] only_routes_read [OF g]]
    show thesis
    proof (cases g)
      case (Inl e)
      then show thesis using l link g q2
        by (intro Returned [of "Some e" ts n2]) (auto simp: link_routes_def round_reads_def)
    next
      case routes: (Inr routes)
      show thesis
      proof (cases "ParseCIDR (AllocatableCIDR (nw_Spec nw))")
        case None
        then show thesis using l link g routes q2
          by (intro Returned [of "Some (''invalid CIDR address: '' @ AllocatableCIDR (nw_Spec nw))" ts n2])
            (auto simp: link_routes_def round_reads_def)
      next
        case (Some c)
        obtain a net where c: "ParseCIDR (AllocatableCIDR (nw_Spec nw)) = Some (a, net)" using Some by (cases c) simp
        let ?own = "owned_net isRouter net li" and ?src = "InTunnelLocalIP li" and ?ts = "grown_routes nw isRouter ts"
        let ?sweep = "sweep_routes T N ?own ?src ?ts routes False [] n2"
        note run = link_routes_run [OF c l [unfolded link] g [unfolded routes], of T isRouter li ts]
        have reads: "round_reads N nw nm n net' routes' n2' \<longleftrightarrow> net' = net \<and> routes' = routes \<and> n2' = n2" for net' routes' n2'
          using l link g routes c by (auto simp: round_reads_def)
        show thesis
        proof (cases ?sweep)
          case Panics
          then show thesis using run by (intro Panicked [of net routes n2]) (simp_all add: reads)
        next
          case Diverges
          with sweep_routes_halts [OF T] show thesis by blast
        next
          case (Returns x)
          obtain e3 f p n3 where x: "x = (e3, f, p, n3)" by (cases x) auto
          have q3: "only_routes n n3" using only_routes_trans [OF q2] sweep_routes_only [OF T] Returns x by blast
          obtain e4 n4 where ow: "(if \<not> f then add_owned N link ?own ?src n3 else (None, n3)) = (e4, n4)" by fastforce
          have q4: "only_routes n n4" using only_routes_trans [OF q3] ow
            by (auto simp: add_owned_def split: if_splits dest!: only_routes_exec)
          obtain e5 n5 where ad: "add_routes T N link ?src p ?ts n4 = (e5, n5)" by fastforce
          have q5: "only_routes n n5" using only_routes_trans [OF q4 add_routes_only [OF T ad]] .
          show thesis
          proof (rule Returned [of "if e3 \<noteq> None then e3 else if e4 \<noteq> None then e4 else e5" ?ts
                "if e3 \<noteq> None then n3 else if e4 \<noteq> None then n4 else n5"], goal_cases)
            case 1
            then show ?case unfolding run using Returns x ow ad by (cases e4) simp_all
          next
            case 2
            then show ?case using q3 q4 q5 by simp
          next
            case 3
            then show ?case using Returns by (simp add: reads)
          qed
        qed
      qed
    qed
  qed
qed

lemma link_routes_returns:
  assumes T: "tunnel_pkg_ok T" and N: "dst_listed N"
  shows "\<exists>e ts' n'. link_routes T N nw isRouter nm li ts n = Returns (e, ts', n')"
  using T
proof (cases rule: link_routes_outcome [of T N nw isRouter nm li ts n])
  case (Panicked net routes n2)
  from Panicked(2) N have "\<forall>r \<in> set routes. rt_Dst r \<noteq> None"
    unfolding round_reads_def dst_listed_def nl_read_def by (fastforce split: prod.splits)
  with Panicked(3) show ?thesis unfolding sweep_routes_panics [OF T] by (auto simp: panics_on_def)
qed blast

lemma reconcileRoutes_returns:
  assumes "tunnel_pkg_ok T" and "dst_listed N"
  shows "\<exists>e n'. reconcileRoutes T N nw isRouter ls ts n = Returns (e, n')"
proof (induction ls arbitrary: ts n)
  case (Cons l ls)
  obtain nm li where l: "l = (nm, li)" by (cases l)
  obtain e ts' n1 where "link_routes T N nw isRouter nm li ts n = Returns (e, ts', n1)"
    using link_routes_returns [OF assms] by metis
  with l Cons.IH show ?case by (cases "e = None") auto
qed simp

lemma reconcileRoutes_only:
  assumes "tunnel_pkg_ok T"
  shows "reconcileRoutes T N nw isRouter ls ts n = Returns (e, n') \<Longrightarrow> only_routes n n'"
proof (induction ls arbitrary: ts n)
  case (Cons l ls)
  obtain nm li where l: "l = (nm, li)" by (cases l)
  with Cons.prems obtain e1 ts1 n1 where lr: "link_routes T N nw isRouter nm li ts n = Returns (e1, ts1, n1)"
    by (auto simp: bind_outcome_eq_Returns)
  have q: "only_routes n n1" using assms
    by (cases rule: link_routes_outcome [of T N nw isRouter nm li ts n]) (use lr in auto)
  from Cons.prems l lr have "n' = n1 \<or> reconcileRoutes T N nw isRouter ls ts1 n1 = Returns (e, n')" by (auto split: if_splits)
  with q Cons.IH only_routes_trans show ?case by blast
qed simp

section \<open>Properties\<close>

definition demo_routes :: "Route list \<Rightarrow> unit netlink" where
  "demo_routes rs = (fixed_netlink [])\<lparr>nl_RouteList := (\<lambda>_ _ k. (Inr rs, k))\<rparr>"

definition routed_network :: OverlayNetwork where
  "routed_network = (plain_network ''net'')\<lparr>
     nw_Spec := (nw_Spec (plain_network ''net''))\<lparr>
       OptionalRoutes := [\<lparr>er_Name = ''lab'', er_RoutableCIDRs = [''10.2.0.0/16'']\<rparr>]\<rparr>,
     nw_Status := \<lparr>Allocations = [], Routers = [],
       OptionalRouters = Some [(''lab'', [\<lparr>PodName = ''r'', PodIP = '''', IP = ''10.0.0.1'', ExtraNetworks = []\<rparr>])]\<rparr>\<rparr>"

definition demo_net :: "8 word \<Rightarrow> ipnet" where
  "demo_net b = \<lparr>net_IP = [10, b, 0, 0], net_Mask = [255, 255, 0, 0]\<rparr>"

definition demo_router :: ip where
  "demo_router = [0, 0, 0, 0, 0, 0, 0, 0, 0, 0, 255, 255, 10, 0, 0, 1]"

definition demo_gateway :: OverlayNetworkIPAllocation where
  "demo_gateway = \<lparr>PodName = ''r'', PodIP = ''172.16.0.1'', IP = ''10.0.0.1'', ExtraNetworks = []\<rparr>"

definition demo_link_info :: LinkInfo where
  "demo_link_info = \<lparr>RemoteIP = ''172.16.0.1'', LocalIP = ''172.16.0.2'', InTunnelLocalIP = ''10.0.0.2'',
     InTunnelRemoteIP = ''10.0.0.1'', Processed = False\<rparr>"

definition demo_route :: Route where
  "demo_route = \<lparr>rt_LinkIndex = 1, rt_Scope = 0, rt_Dst = Some (demo_net 1), rt_Src = [], rt_Gw = demo_router\<rparr>"

lemma demo_cidr_parses: "\<exists>a an. ParseCIDR (AllocatableCIDR (nw_Spec (plain_network x))) = Some (a, an)"
  by (simp add: plain_network_def go_net_eval)

lemma demo_reads:
  "nl_read (nl_LinkByName (demo_routes rs) nm) idle_node = (Inr \<lparr>attr_Name = nm, attr_Index = 1\<rparr>, idle_node)"
  "nl_read (nl_RouteList (demo_routes rs) l f) idle_node = (Inr rs, idle_node)"
  by (simp_all add: nl_read_def demo_routes_def fixed_netlink_def idle_node_def)

text \<open>C38: optional routes are opted into. A pod gets a route to a network through a router exactly if
  the pod lists the name of an optional route of the network, the first route of that name
  contains a CIDR that parses to it, and the router is registered for that name.\<close>

theorem extra_routes_opt_in:
  assumes "tunnel_pkg_ok T"
  shows "rs \<in> set (extra_routes T nw names) \<longleftrightarrow>
    (\<exists>nm \<in> set names. \<exists>e. find (\<lambda>e. er_Name e = nm) (OptionalRoutes (nw_Spec nw)) = Some e \<and>
       (\<exists>s \<in> set (er_RoutableCIDRs e). \<exists>a. ParseCIDR s = Some (a, rs_net rs)) \<and>
       (\<exists>rt \<in> set (optional_routers nw nm). rs_router rs = ParseIP (IP rt) \<and> ParseIP (IP rt) \<noteq> []))"
  by (simp add: extra_routes_set [OF assms] routes_to_iff)

theorem extra_routes_opt_in_witness: "extra_routes tunnel_std routed_network [''other''] = []"
proof -
  have "rs \<notin> set (extra_routes tunnel_std routed_network [''other''])" for rs
    using extra_routes_opt_in [OF tunnel_std_ok, of rs routed_network "[''other'']"]
    by (simp add: routed_network_def)
  then have "set (extra_routes tunnel_std routed_network [''other'']) = {}" by (metis ex_in_conv)
  then show ?thesis by (simp only: set_empty)
qed

text \<open>Two networks of equal size behind one router are confused. \<open>netEqual\<close> compares only the
  sizes of the masks; so once a link has a route through a gateway to some network of the size
  of \<open>t\<close>, matching a target route, the target route \<open>t\<close> through the same gateway is not added,
  whatever its destination.\<close>

lemma same_size_route_skipped:
  assumes T: "tunnel_pkg_ok T" and link: "nl_read (nl_LinkByName N nm) n = (Inr link, n1)"
    and routes: "nl_read (nl_RouteList N link (FAMILY_V4 N)) n1 = (Inr routes, n2)" "\<forall>r \<in> set routes. rt_Dst r \<noteq> None"
    and cidr: "ParseCIDR (AllocatableCIDR (nw_Spec nw)) = Some (a, allocNet)"
    and lens: "\<forall>x \<in> set (grown_routes nw isRouter ts). length (rs_router x) = 16"
    and have1: "r \<in> set routes" "rt_Scope r \<noteq> SCOPE_LINK N" "rt_Dst r = Some d"
    and t: "t \<in> set (grown_routes nw isRouter ts)" "IP_Equal (rs_router t) (rt_Gw r)"
      "Mask_Size (net_Mask (rs_net t)) = Mask_Size (net_Mask d)"
  shows "\<exists>e ts' n' cs. link_routes T N nw isRouter nm li ts n = Returns (e, ts', n') \<and> commands n' = commands n @ cs \<and>
    (\<forall>x. RouteAdd x \<in> set cs \<longrightarrow> \<not> (rt_Dst x = Some (rs_net t) \<and> rt_Gw x = rs_router t))"
proof (rule link_routes_result [OF T link routes cidr, of isRouter li ts], goal_cases)
  case (1 e n' dels own adds p)
  have "matches r t" using t have1(3) by (simp add: matches_def netEqual_iff)
  then have kept: "r \<notin> set dels" using 1(3) t(1) by blast
  have len: "rs_router t \<noteq> []" using lens t(1) by fastforce
  have "rs_net x \<noteq> rs_net t \<or> rs_router x \<noteq> rs_router t" if x: "x \<in> set adds" for x
  proof (rule ccontr)
    assume same: "\<not> ?thesis"
    have "\<not> owned_route N r (owned_net isRouter allocNet li) (InTunnelLocalIP li)"
      using have1(2) by (simp add: owned_route_def)
    with 1(6) x kept have1(1) obtain c where c: "c \<in> set p" "matches r c" "c \<in> set (grown_routes nw isRouter ts)"
      by fastforce
    then have "rs_router c = rs_router t"
      using lens t(1,2) by (intro IP_Equal_16 [of _ _ "rt_Gw r"]) (simp_all add: matches_def)
    moreover have "netEqual (rs_net c) (rs_net t)" using c(2) have1(3) t(3) by (simp add: matches_def netEqual_iff)
    ultimately have "covered p x" using c(1) same by (auto simp: covered_def)
    with 1(5) x show False by auto
  qed
  then have "\<forall>x. RouteAdd x \<in> set (map RouteDel dels @ own @ map (\<lambda>t. RouteAdd (route_for N link (InTunnelLocalIP li) t)) adds) \<longrightarrow>
      \<not> (rt_Dst x = Some (rs_net t) \<and> rt_Gw x = rs_router t)"
    using 1(4) len by (auto simp: route_for_def owned_add_def)
  with 1(1,2) show ?case by blast
qed

lemma same_size_route_skipped_witness:
  "\<exists>e ts' n' cs. link_routes tunnel_std (demo_routes [demo_route]) (plain_network ''net'') False ''l'' demo_link_info
       [\<lparr>rs_net = demo_net 1, rs_router = demo_router\<rparr>, \<lparr>rs_net = demo_net 2, rs_router = demo_router\<rparr>] idle_node
       = Returns (e, ts', n') \<and> commands n' = commands idle_node @ cs \<and>
     (\<forall>x. RouteAdd x \<in> set cs \<longrightarrow> \<not> (rt_Dst x = Some (demo_net 2) \<and> rt_Gw x = demo_router))"
proof -
  let ?t = "\<lparr>rs_net = demo_net 2, rs_router = demo_router\<rparr>"
  obtain a an where c: "ParseCIDR (AllocatableCIDR (nw_Spec (plain_network ''net''))) = Some (a, an)"
    using demo_cidr_parses by blast
  have "\<exists>e ts' n' cs. link_routes tunnel_std (demo_routes [demo_route]) (plain_network ''net'') False ''l'' demo_link_info
       [\<lparr>rs_net = demo_net 1, rs_router = demo_router\<rparr>, ?t] idle_node = Returns (e, ts', n') \<and>
     commands n' = commands idle_node @ cs \<and>
     (\<forall>x. RouteAdd x \<in> set cs \<longrightarrow> \<not> (rt_Dst x = Some (rs_net ?t) \<and> rt_Gw x = rs_router ?t))"
    by (rule same_size_route_skipped [OF tunnel_std_ok demo_reads(1,2) _ c, where r = demo_route and d = "demo_net 1"])
      (simp_all add: demo_route_def grown_routes_def plain_network_def demo_router_def demo_routes_def fixed_netlink_def demo_net_def)
  then show ?thesis by simp
qed

text \<open>C36: exactly which route lists crash the sidecar. The round for a link panics if and only if it gets to see the
  routes of the link and, after routes that were kept or deleted without error, one without
  destination that either has link scope or is to be compared with at least one target route. Otherwise it
  returns, and changes nothing but routes. So a default route is deleted where the pod has no
  target routes and crashes the sidecar where it has some.\<close>

theorem route_round_panics_exactly:
  assumes "tunnel_pkg_ok T"
  shows "(link_routes T N nw isRouter nm li ts n = Panics \<longleftrightarrow>
      (\<exists>net before r after n2 f p n3. round_reads N nw nm n net (before @ r # after) n2 \<and> rt_Dst r = None \<and>
         (rt_Scope r = SCOPE_LINK N \<or> grown_routes nw isRouter ts \<noteq> []) \<and>
         sweep_routes T N (owned_net isRouter net li) (InTunnelLocalIP li) (grown_routes nw isRouter ts) before False [] n2
           = Returns (None, f, p, n3))) \<and>
    (link_routes T N nw isRouter nm li ts n = Panics \<or>
      (\<exists>e ts' n' cs. link_routes T N nw isRouter nm li ts n = Returns (e, ts', n') \<and> commands n' = commands n @ cs \<and>
        (\<forall>c \<in> set cs. \<exists>r. c = RouteAdd r \<or> c = RouteDel r)))"
  using assms
proof (cases rule: link_routes_outcome [of T N nw isRouter nm li ts n])
  case (Returned e ts' n')
  then obtain cs where "commands n' = commands n @ cs" "\<forall>c \<in> set cs. \<exists>r. c = RouteAdd r \<or> c = RouteDel r"
    unfolding only_routes_def route_only_def by blast
  then have ret: "\<exists>e ts' n' cs. link_routes T N nw isRouter nm li ts n = Returns (e, ts', n') \<and> commands n' = commands n @ cs \<and>
      (\<forall>c \<in> set cs. \<exists>r. c = RouteAdd r \<or> c = RouteDel r)" using Returned(1) by blast
  have none: "\<not> (\<exists>net before r after n2 f p n3. round_reads N nw nm n net (before @ r # after) n2 \<and> panics_on N (grown_routes nw isRouter ts) r \<and>
      sweep_routes T N (owned_net isRouter net li) (InTunnelLocalIP li) (grown_routes nw isRouter ts) before False [] n2
        = Returns (None, f, p, n3))"
    using Returned(3) unfolding sweep_routes_panics [OF assms] by blast
  have "link_routes T N nw isRouter nm li ts n \<noteq> Panics" using Returned(1) by simp
  with none ret show ?thesis unfolding panics_on_def by (simp only: conj_assoc simp_thms)
next
  case (Panicked net routes n2)
  then have "\<exists>net before r after n2 f p n3. round_reads N nw nm n net (before @ r # after) n2 \<and> panics_on N (grown_routes nw isRouter ts) r \<and>
      sweep_routes T N (owned_net isRouter net li) (InTunnelLocalIP li) (grown_routes nw isRouter ts) before False [] n2
        = Returns (None, f, p, n3)"
    unfolding sweep_routes_panics [OF assms] by blast
  with Panicked(1) show ?thesis unfolding panics_on_def by (simp only: conj_assoc simp_thms)
qed

text \<open>A default route, without and with a target route.\<close>

theorem route_round_panics_exactly_witness:
  "(\<exists>e ts' n'. link_routes tunnel_std (demo_routes [demo_route\<lparr>rt_Dst := None\<rparr>]) (plain_network ''net'') True ''l'' demo_link_info []
      idle_node = Returns (e, ts', n')) \<and>
   link_routes tunnel_std (demo_routes [demo_route\<lparr>rt_Dst := None\<rparr>]) (plain_network ''net'') True ''l'' demo_link_info
      [\<lparr>rs_net = demo_net 1, rs_router = demo_router\<rparr>] idle_node = Panics"
proof
  let ?N = "demo_routes [demo_route\<lparr>rt_Dst := None\<rparr>]" and ?nw = "plain_network ''net''"
  let ?ts = "[\<lparr>rs_net = demo_net 1, rs_router = demo_router\<rparr>]"
  have scope: "SCOPE_LINK ?N \<noteq> 0" by (simp add: demo_routes_def fixed_netlink_def)
  have "\<not> (round_reads ?N ?nw ''l'' idle_node net (before @ r # after) n2 \<and> rt_Dst r = None \<and>
      (rt_Scope r = SCOPE_LINK ?N \<or> grown_routes ?nw True [] \<noteq> []))" for net before r after n2
    using scope by (auto simp: round_reads_def demo_reads grown_routes_def demo_route_def append_eq_Cons_conv Cons_eq_append_conv)
  with route_round_panics_exactly [OF tunnel_std_ok, of ?N ?nw True "''l''" demo_link_info "[]" idle_node]
  show "\<exists>e ts' n'. link_routes tunnel_std ?N ?nw True ''l'' demo_link_info [] idle_node = Returns (e, ts', n')" by blast
  obtain a an where c: "ParseCIDR (AllocatableCIDR (nw_Spec ?nw)) = Some (a, an)" using demo_cidr_parses by blast
  have "round_reads ?N ?nw ''l'' idle_node an ([] @ demo_route\<lparr>rt_Dst := None\<rparr> # []) idle_node"
    using c by (simp add: round_reads_def demo_reads)
  moreover have "rt_Dst (demo_route\<lparr>rt_Dst := None\<rparr>) = None \<and>
      (rt_Scope (demo_route\<lparr>rt_Dst := None\<rparr>) = SCOPE_LINK ?N \<or> grown_routes ?nw True ?ts \<noteq> [])"
    by (simp add: grown_routes_def)
  moreover have "sweep_routes tunnel_std ?N own src ts [] False [] idle_node = Returns (None, False, [], idle_node)" for own src ts
    by simp
  ultimately show "link_routes tunnel_std ?N ?nw True ''l'' demo_link_info ?ts idle_node = Panics"
    using conjunct1 [OF route_round_panics_exactly [OF tunnel_std_ok, of ?N ?nw True "''l''" demo_link_info ?ts idle_node]] by blast
qed


text \<open>A default route crashes it. If the kernel lists, first on the link, a route without
  destination and the pod has at least one target route, the reconciliation of the routes panics.\<close>

lemma default_route_panics:
  assumes "nl_read (nl_LinkByName N nm) n = (Inr link, n1)"
    and "nl_read (nl_RouteList N link (FAMILY_V4 N)) n1 = (Inr (r # routes), n2)" and "rt_Dst r = None"
    and "ParseCIDR (AllocatableCIDR (nw_Spec nw)) = Some (a, allocNet)" and "grown_routes nw isRouter ts \<noteq> []"
  shows "reconcileRoutes T N nw isRouter ((nm, li) # ls) ts n = Panics"
proof -
  have "sweep_routes T N net src (grown_routes nw isRouter ts) (r # routes) False [] n2 = Panics" for net src
    using assms(3,5) by (simp add: sweep_routes.simps(2) is_owned_def find_target_def)
  then have "link_routes T N nw isRouter nm li ts n = Panics"
    unfolding link_routes_def Let_def grown_routes_def [symmetric] owned_net_def [symmetric]
    using assms(1,2,4) by simp
  then show ?thesis by simp
qed

lemma default_route_panics_witness:
  "reconcileRoutes tunnel_std (demo_routes [demo_route\<lparr>rt_Dst := None\<rparr>]) (plain_network ''net'') False [(''l'', demo_link_info)]
     [\<lparr>rs_net = demo_net 1, rs_router = demo_router\<rparr>] idle_node = Panics"
proof -
  obtain a an where c: "ParseCIDR (AllocatableCIDR (nw_Spec (plain_network ''net''))) = Some (a, an)"
    using demo_cidr_parses by blast
  show ?thesis
    by (rule default_route_panics [OF demo_reads(1,2) _ c]) (simp_all add: grown_routes_def)
qed

lemma link_routes_grown:
  assumes "link_routes T N nw isRouter nm li ts n = Returns (None, ts', n')"
  shows "ts' = grown_routes nw isRouter ts"
proof -
  have fin: "ts' = x" if "(if e \<noteq> None then Returns (e, x, m) else
      case (if \<not> f then add_owned N l o' src m else (None, m)) of
        (Some err, n) \<Rightarrow> Returns (Some err, x, n)
      | (None, n) \<Rightarrow> (case add_routes T N l src p x n of (err, n) \<Rightarrow> Returns (err, x, n))) = Returns (None, ts', n')"
    for e x m f l o' src p
    using that by (cases e) (auto split: prod.splits option.splits)
  obtain lr n1 where l: "nl_read (nl_LinkByName N nm) n = (lr, n1)" by fastforce
  then obtain link where lr: "lr = Inr link" using assms by (cases lr) (simp_all add: link_routes_def)
  obtain rr n2 where r: "nl_read (nl_RouteList N link (FAMILY_V4 N)) n1 = (rr, n2)" by fastforce
  then obtain routes where rr: "rr = Inr routes" using assms l lr by (cases rr) (simp_all add: link_routes_def)
  obtain a an where c: "ParseCIDR (AllocatableCIDR (nw_Spec nw)) = Some (a, an)"
    using assms l lr r rr by (cases "ParseCIDR (AllocatableCIDR (nw_Spec nw))") (auto simp: link_routes_def)
  obtain e f p n3 where "sweep_routes T N (owned_net isRouter an li) (InTunnelLocalIP li) (grown_routes nw isRouter ts) routes False [] n2
      = Returns (e, f, p, n3)"
    using assms l lr r rr c unfolding link_routes_def Let_def grown_routes_def [symmetric] owned_net_def [symmetric]
    by (cases "sweep_routes T N (owned_net isRouter an li) (InTunnelLocalIP li) (grown_routes nw isRouter ts) routes False [] n2") auto
  then show ?thesis
    using assms l lr r rr c unfolding link_routes_def Let_def grown_routes_def [symmetric] owned_net_def [symmetric]
    by (intro fin) simp
qed

lemma covered_Nil [simp]: "\<not> covered [] t"
  by (simp add: covered_def)

lemma add_routes_demo: "\<exists>n'. add_routes tunnel_std (demo_routes rs) link src p ts n = (None, n')"
proof (induction ts arbitrary: n)
  case (Cons t ts)
  have ex: "\<exists>n'. nl_exec (demo_routes rs) c n = (None, n')" for c
    by (simp add: nl_exec_def demo_routes_def fixed_netlink_def)
  show ?case
    using Cons.IH ex by (auto split: prod.splits option.splits) (metis option.distinct(1) prod.inject)
qed simp

lemma link_routes_demo:
  assumes c: "ParseCIDR (AllocatableCIDR (nw_Spec nw)) = Some (a, an)"
  shows "\<exists>ts' n'. link_routes tunnel_std (demo_routes []) nw isRouter nm li ts n = Returns (None, ts', n')"
proof -
  have ex: "\<exists>n'. nl_exec (demo_routes []) c n = (None, n')" for c n
    by (simp add: nl_exec_def demo_routes_def fixed_netlink_def)
  have l: "nl_read (nl_LinkByName (demo_routes []) nm) n = (Inr \<lparr>attr_Name = nm, attr_Index = 1\<rparr>, n)"
    and r: "nl_read (nl_RouteList (demo_routes []) l' f) n = (Inr [], n)" for l' f
    by (simp_all add: nl_read_def demo_routes_def fixed_netlink_def)
  obtain n1 where o: "add_owned (demo_routes []) \<lparr>attr_Name = nm, attr_Index = 1\<rparr> (owned_net isRouter an li) (InTunnelLocalIP li) n = (None, n1)"
    using ex unfolding add_owned_def by blast
  obtain n2 where "add_routes tunnel_std (demo_routes []) \<lparr>attr_Name = nm, attr_Index = 1\<rparr> (InTunnelLocalIP li) []
      (grown_routes nw isRouter ts) n1 = (None, n2)"
    using add_routes_demo by blast
  with c l r o show ?thesis
    unfolding link_routes_def Let_def grown_routes_def [symmetric] owned_net_def [symmetric] by simp
qed

text \<open>The routes of a member pile up. The list of target routes grows in each round of the loop
  over the links: on a second link without routes, each routable network is added twice.\<close>

lemma second_link_adds_routes_twice:
  assumes T: "tunnel_pkg_ok T"
    and l1: "link_routes T N nw False nm1 li1 [] n = Returns (None, ts1, n1)"
    and link: "nl_read (nl_LinkByName N nm2) n1 = (Inr link, n2)"
    and routes: "nl_read (nl_RouteList N link (FAMILY_V4 N)) n2 = (Inr [], n3)"
    and l2: "link_routes T N nw False nm2 li2 ts1 n1 = Returns (None, ts2, n4)"
  shows "\<exists>own. commands n4 = commands n1 @ own @ map (\<lambda>t. RouteAdd (route_for N link (InTunnelLocalIP li2) t))
    (routes_to (RoutableCIDRs (nw_Spec nw)) (Routers (nw_Status nw)) @ routes_to (RoutableCIDRs (nw_Spec nw)) (Routers (nw_Status nw)))"
proof -
  let ?R = "routes_to (RoutableCIDRs (nw_Spec nw)) (Routers (nw_Status nw))"
  have ts1: "ts1 = ?R"
    using link_routes_grown [OF l1] by (simp add: grown_routes_def)
  from l2 link routes obtain a an where cidr: "ParseCIDR (AllocatableCIDR (nw_Spec nw)) = Some (a, an)"
    by (auto simp: link_routes_def split: option.splits)
  obtain e5 n5 where ow: "add_owned N link an (InTunnelLocalIP li2) n3 = (e5, n5)" by fastforce
  have cmds: "commands n3 = commands n1" using commands_nl_read [OF link] commands_nl_read [OF routes] by simp
  have e5: "e5 = None" and ad: "add_routes T N link (InTunnelLocalIP li2) [] (?R @ ?R) n5 = (None, n4)"
    using l2 link routes cidr ow by (auto simp: link_routes_def ts1 Let_def split: option.splits prod.splits)
  have "commands n4 = commands n5 @ map (\<lambda>t. RouteAdd (route_for N link (InTunnelLocalIP li2) t)) (?R @ ?R)"
  proof -
    obtain e' n' k where A: "add_routes T N link (InTunnelLocalIP li2) [] (?R @ ?R) n5 = (e', n')"
      "commands n' = commands n5 @ map (\<lambda>t. RouteAdd (route_for N link (InTunnelLocalIP li2) t))
         (take k (filter (\<lambda>t. \<not> covered [] t) (?R @ ?R)))"
      "e' = None \<longrightarrow> take k (filter (\<lambda>t. \<not> covered [] t) (?R @ ?R)) = filter (\<lambda>t. \<not> covered [] t) (?R @ ?R)"
      using add_routes_result [OF T, of N link "InTunnelLocalIP li2" "[]" "?R @ ?R" n5] by blast
    with ad have "e' = None" "n' = n4" by simp_all
    with A(2) A(3) [rule_format] show ?thesis by (simp only: covered_Nil not_False_eq_True) simp
  qed
  moreover have "\<exists>own. commands n5 = commands n3 @ own" using ow by (auto simp: add_owned_def dest: commands_nl_exec)
  ultimately show ?thesis using cmds by auto
qed

lemma second_link_adds_routes_twice_witness:
  "\<exists>(n1 :: unit node) (n4 :: unit node) link own. commands n4 = commands n1 @ own @
     map (\<lambda>t. RouteAdd (route_for (demo_routes []) link ''10.0.0.2'' t))
       (routes_to [''10.1.0.0/16''] [demo_gateway] @ routes_to [''10.1.0.0/16''] [demo_gateway])"
proof -
  define nw where "nw = (plain_network ''net'')\<lparr>
     nw_Spec := (nw_Spec (plain_network ''net''))\<lparr>RoutableCIDRs := [''10.1.0.0/16'']\<rparr>,
     nw_Status := (nw_Status (plain_network ''net''))\<lparr>Routers := [demo_gateway]\<rparr>\<rparr>"
  obtain a an where c: "ParseCIDR (AllocatableCIDR (nw_Spec nw)) = Some (a, an)"
    using demo_cidr_parses [of "''net''"] by (auto simp: nw_def)
  obtain ts1 n1 where l1: "link_routes tunnel_std (demo_routes []) nw False ''a'' demo_link_info [] idle_node
      = Returns (None, ts1, n1)" using link_routes_demo [OF c] by blast
  obtain ts2 n4 where l2: "link_routes tunnel_std (demo_routes []) nw False ''b'' demo_link_info ts1 n1
      = Returns (None, ts2, n4)" using link_routes_demo [OF c] by blast
  have rd: "nl_read (nl_LinkByName (demo_routes []) ''b'') n1 = (Inr \<lparr>attr_Name = ''b'', attr_Index = 1\<rparr>, n1)"
    "nl_read (nl_RouteList (demo_routes []) \<lparr>attr_Name = ''b'', attr_Index = 1\<rparr> (FAMILY_V4 (demo_routes []))) n1 = (Inr [], n1)"
    by (simp_all add: nl_read_def demo_routes_def fixed_netlink_def)
  have "RoutableCIDRs (nw_Spec nw) = [''10.1.0.0/16'']" "Routers (nw_Status nw) = [demo_gateway]"
    "InTunnelLocalIP demo_link_info = ''10.0.0.2''" by (simp_all add: nw_def demo_link_info_def)
  with second_link_adds_routes_twice [OF tunnel_std_ok l1 rd l2] show ?thesis by metis
qed

end
