(* ===== verification/Tunnels.thy ===== *)
theory Tunnels
  imports TunnelRoutes PodStatus
begin

text \<open>
  The tunneler together with the pod controller: on a well-formed status the sidecars of two pods
  build the two ends of one tunnel, and a reconciliation leaves a pod with exactly the tunnels
  of its network that its role asks for.
\<close>

section \<open>Both ends of a tunnel\<close>

text \<open>Pods whose names the hash does not confuse.\<close>

definition no_collision :: "tunnel_pkg \<Rightarrow> OverlayNetwork \<Rightarrow> bool" where
  "no_collision T nw \<longleftrightarrow> inj_on (\<lambda>p. base58 T (fnv64 p)) (PodName ` set (nw_allocs nw))"

lemma tunnel_name_inj:
  "no_collision T nw \<Longrightarrow> p \<in> PodName ` set (nw_allocs nw) \<Longrightarrow> q \<in> PodName ` set (nw_allocs nw) \<Longrightarrow>
   tunnel_name T i p = tunnel_name T i q \<longleftrightarrow> p = q"
  by (auto simp: no_collision_def tunnel_name_def inj_on_def)

lemma status_ok_router:
  assumes "status_ok nw" and "a \<in> set (nw_routers nw)"
  obtains b where "b \<in> set (nw_allocs nw)" "binding b = binding a"
  using assms by (force simp: status_ok_def members_of_def)

lemma status_ok_same_pod:
  assumes "status_ok nw" and "a \<in> set (nw_allocs nw)" "b \<in> set (nw_allocs nw)" "PodName a = PodName b"
  shows "a = b"
  using assms by (auto simp: status_ok_def distinct_map inj_on_def)

lemma status_ok_entry:
  assumes "status_ok nw" and "a \<in> set (nw_allocs nw)" and "own_entry nw (PodName a) = Some e"
  shows "PodIP e = PodIP a" "IP e = IP a" "PodName e = PodName a"
proof -
  have e: "PodName e = PodName a" "e \<in> set (nw_routers nw) \<union> set (nw_allocs nw)"
    using assms(3) by (auto simp: own_entry_def find_Some_iff split: option.splits)
  then obtain b where b: "b \<in> set (nw_allocs nw)" "binding b = binding e"
    using status_ok_router [OF assms(1)] by blast
  then have "b = a" using e(1) by (intro status_ok_same_pod [OF assms(1) b(1) assms(2)]) (simp add: binding_def)
  with b(2) show "PodIP e = PodIP a" "IP e = IP a" "PodName e = PodName a" by (simp_all add: binding_def)
qed

lemma map_of_rev_unique:
  assumes "x \<in> set xs" and "\<And>y. y \<in> set xs \<Longrightarrow> f y = f x \<Longrightarrow> g y = g x"
  shows "map_of (rev (map (\<lambda>y. (f y, g y)) xs)) (f x) = Some (g x)"
  using assms
proof (induction xs rule: rev_induct)
  case (snoc z zs)
  show ?case
  proof (cases "f z = f x")
    case True
    with snoc.prems(2) [of z] show ?thesis by simp
  next
    case False
    with snoc.prems(1) have "x \<in> set zs" by auto
    then have "map_of (rev (map (\<lambda>y. (f y, g y)) zs)) (f x) = Some (g x)"
      by (rule snoc.IH) (use snoc.prems(2) in simp)
    with False show ?thesis by simp
  qed
qed simp

lemma peers_members:
  assumes "status_ok nw" and "b \<in> set (peers nw me)"
  shows "PodName b \<in> PodName ` set (nw_allocs nw)" "\<exists>a \<in> set (nw_allocs nw). binding a = binding b"
proof -
  have "b \<in> set (nw_allocs nw) \<or> b \<in> set (nw_routers nw)" using assms(2) by (auto simp: peers_def split: if_splits)
  then show *: "\<exists>a \<in> set (nw_allocs nw). binding a = binding b" using status_ok_router [OF assms(1)] by metis
  then obtain a where a: "a \<in> set (nw_allocs nw)" "PodName a = PodName b" by (auto simp: binding_def)
  then show "PodName b \<in> PodName ` set (nw_allocs nw)" by (metis image_eqI)
qed

text \<open>The link that the sidecar of member \<open>a\<close> wants towards member \<open>b\<close>.\<close>

lemma target_link_to:
  assumes T: "tunnel_pkg_ok T" and ok: "status_ok nw" and nc: "no_collision T nw"
    and a: "a \<in> set (nw_allocs nw)" "myPodName r = PodName a" and b: "b \<in> set (nw_allocs nw)"
    and peer: "PodName b \<in> PodName ` set (peers nw (PodName a))" and id: "getNetworkId r nw = (i, r')"
  shows "map_of (fst (target_links T r nw)) (tunnel_name T i (PodName b)) =
    Some \<lparr>RemoteIP = PodIP b, LocalIP = PodIP a, InTunnelLocalIP = IP a, InTunnelRemoteIP = IP b, Processed = False\<rparr>"
proof -
  let ?ps = "peers nw (PodName a)"
  obtain me where me: "own_entry nw (PodName a) = Some me"
    using a(1) by (cases "own_entry nw (PodName a)") (auto simp: own_entry_def find_None_iff split: option.splits)
  from peer obtain x where x: "x \<in> set ?ps" "PodName x = PodName b" by auto
  have same: "PodIP y = PodIP b \<and> IP y = IP b" if y: "y \<in> set ?ps" "PodName y = PodName b" for y
  proof -
    obtain c where c: "c \<in> set (nw_allocs nw)" "binding c = binding y" using peers_members(2) [OF ok y(1)] by blast
    then have "c = b" using y(2) by (intro status_ok_same_pod [OF ok c(1) b]) (simp add: binding_def)
    with c(2) show ?thesis by (simp add: binding_def)
  qed
  have "map_of (rev (map (\<lambda>y. (tunnel_name T i (PodName y), link_to me y)) ?ps)) (tunnel_name T i (PodName x)) = Some (link_to me x)"
  proof (rule map_of_rev_unique [OF x(1)])
    fix y
    assume y: "y \<in> set ?ps" "tunnel_name T i (PodName y) = tunnel_name T i (PodName x)"
    then have "PodName y = PodName x"
      using tunnel_name_inj [OF nc peers_members(1) [OF ok y(1)] peers_members(1) [OF ok x(1)], of i] y(2) by simp
    with x(2) same [OF y(1)] same [OF x] show "link_to me y = link_to me x" by (simp add: link_to_def)
  qed
  moreover have "map_of (fst (target_links T r nw)) = map_of (rev (map (\<lambda>y. (tunnel_name T i (PodName y), link_to me y)) ?ps))"
    using target_links_eq [OF T id] me a(2) by auto
  ultimately show ?thesis
    using x(2) same [OF x] status_ok_entry [OF ok a(1) me] by (simp add: link_to_def)
qed

lemma peers_iff:
  assumes ok: "status_ok nw" and "a \<in> PodName ` set (nw_allocs nw)" "b \<in> PodName ` set (nw_allocs nw)" "a \<noteq> b"
  shows "b \<in> PodName ` set (peers nw a) \<longleftrightarrow>
    a \<in> PodName ` set (nw_routers nw) \<or> b \<in> PodName ` set (nw_routers nw)"
proof (cases "a \<in> PodName ` set (nw_routers nw)")
  case True
  then have "peers nw a = filter (\<lambda>x. PodName x \<noteq> a) (nw_allocs nw)" by (simp add: peers_def)
  with True assms(3,4) show ?thesis by force
next
  case False
  then have "peers nw a = nw_routers nw" using assms(2) by (simp add: peers_def)
  with False show ?thesis by simp
qed

text \<open>There is no link towards a member that is no peer.\<close>

lemma target_link_none:
  assumes T: "tunnel_pkg_ok T" and ok: "status_ok nw" and nc: "no_collision T nw"
    and b: "b \<in> set (nw_allocs nw)" and peer: "PodName b \<notin> PodName ` set (peers nw (myPodName r))" and id: "getNetworkId r nw = (i, r')"
  shows "map_of (fst (target_links T r nw)) (tunnel_name T i (PodName b)) = None"
proof -
  let ?ps = "peers nw (myPodName r)"
  have "tunnel_name T i (PodName y) \<noteq> tunnel_name T i (PodName b)" if y: "y \<in> set ?ps" for y
  proof -
    have "PodName y \<noteq> PodName b" using peer y by (metis image_eqI)
    then show ?thesis using tunnel_name_inj [OF nc peers_members(1) [OF ok y] imageI [OF b], of i] by simp
  qed
  then have "map_of (rev (map (\<lambda>y. (tunnel_name T i (PodName y), link_to me y)) ?ps)) (tunnel_name T i (PodName b)) = None" for me
    unfolding map_of_eq_None_iff by (auto, blast)
  with target_links_eq [OF T id] show ?thesis by (cases "own_entry nw (myPodName r)") auto
qed

section \<open>A reconciliation of the links\<close>

lemma reconcileFOU_commands:
  assumes "reconcileFOU T N nw b n = (e, n')"
  shows "\<exists>cs. commands n' = commands n @ cs \<and> added_names cs = [] \<and> deleted_links cs = []"
proof -
  obtain g n1 where g: "nl_read (nl_FouList N (FAMILY_V4 N)) n = (g, n1)" by fastforce
  show ?thesis
  proof (cases g)
    case (Inl err)
    with assms g commands_nl_read [OF g] show ?thesis by (auto simp: reconcileFOU_def)
  next
    case (Inr fous)
    let ?found = "lo_Find (tl_fou T) fous (\<lambda>f. f_Port f = Port (nw_Spec nw))"
    have "n' = n1 \<or> (\<exists>c e1. (\<exists>f. c = FouAdd f \<or> c = FouDel f) \<and> nl_exec N c n1 = (e1, n'))"
      using assms g Inr by (cases ?found) (auto simp: reconcileFOU_def Let_def split: if_splits prod.splits option.splits)
    with commands_nl_read [OF g] show ?thesis by (auto dest!: commands_nl_exec)
  qed
qed

lemma route_only_names: "route_only cs \<Longrightarrow> added_names cs = [] \<and> deleted_links cs = []"
  by (induction cs) (auto simp: route_only_def split: command.splits)

definition own_prefix :: "TunnelReconciler \<Rightarrow> OverlayNetwork \<Rightarrow> string" where
  "own_prefix r nw = ''o'' @ print_rune (sint (fst (getNetworkId r nw))) @ ''_''"

lemma reconcileTunnelInterfaces_success:
  assumes "reconcileTunnelInterfaces T N r nw ts isRouter ex n = Returns (None, r', n')"
  obtains n1 links n2 ts' n3 n4 where "reconcileFOU T N nw (length ts > 0) n = (None, n1)"
    "nl_read (nl_LinkList N) n1 = (Inr links, n2)" "sweep_links N (own_prefix r nw) links ts n2 = (None, ts', n3)"
    "add_links N nw isRouter (range_order T 0 ts') n3 = (None, n4)"
    "reconcileRoutes T N nw isRouter (range_order T 1 ts') ex n4 = Returns (None, n')"
proof -
  obtain e1 n1 where fou: "reconcileFOU T N nw (length ts > 0) n = (e1, n1)" by fastforce
  then have e1: "e1 = None" using assms by (cases e1) (simp_all add: reconcileTunnelInterfaces_def)
  obtain g n2 where g: "nl_read (nl_LinkList N) n1 = (g, n2)" by fastforce
  then obtain links where links: "g = Inr links"
    using assms fou e1 by (cases g) (simp_all add: reconcileTunnelInterfaces_def)
  obtain i r2 where i: "getNetworkId r nw = (i, r2)" by fastforce
  then have pre: "own_prefix r nw = ''o'' @ print_rune (sint i) @ ''_''" by (simp add: own_prefix_def)
  obtain e3 ts' n3 where sw: "sweep_links N (own_prefix r nw) links ts n2 = (e3, ts', n3)" using prod_cases3 by blast
  then have e3: "e3 = None"
    using assms fou e1 g links i by (cases e3) (simp_all add: reconcileTunnelInterfaces_def pre)
  obtain e4 n4 where ad: "add_links N nw isRouter (range_order T 0 ts') n3 = (e4, n4)" by fastforce
  then have e4: "e4 = None"
    using assms fou e1 g links i sw e3 by (cases e4) (simp_all add: reconcileTunnelInterfaces_def pre)
  have "reconcileRoutes T N nw isRouter (range_order T 1 ts') ex n4 = Returns (None, n')"
    using assms fou e1 g links i sw e3 ad e4
    by (auto simp: reconcileTunnelInterfaces_def pre bind_outcome_eq_Returns)
  with fou e1 g links sw e3 ad e4 show thesis by (intro that [of n1 links n2 ts' n3 n4]) simp_all
qed

lemma unprocessed_names:
  assumes "gm_ok m'" and "map_of m' = mark S m" and "\<forall>k li. map_of m k = Some li \<longrightarrow> \<not> Processed li"
  shows "fst ` {(k, li) \<in> set m'. \<not> Processed li} = {k. gm_has m k \<and> k \<notin> S}"
proof -
  have "(k, li) \<in> set m' \<longleftrightarrow> mark S m k = Some li" for k li
    using gm_ok_entry [OF assms(1)] map_of_SomeD [of m' k li] assms(2) by auto
  then have "fst ` {(k, li) \<in> set m'. \<not> Processed li} = {k. \<exists>li. mark S m k = Some li \<and> \<not> Processed li}" by force
  also have "\<dots> = {k. gm_has m k \<and> k \<notin> S}"
  proof (rule Collect_cong)
    fix k
    show "(\<exists>li. mark S m k = Some li \<and> \<not> Processed li) = (gm_has m k \<and> k \<notin> S)"
      using assms(3) by (cases "map_of m k"; cases "k \<in> S") (auto simp: mark_def gm_has_def)
  qed
  finally show ?thesis .
qed

section \<open>Properties\<close>

definition demo_end :: "string \<Rightarrow> string \<Rightarrow> string \<Rightarrow> OverlayNetworkIPAllocation" where
  "demo_end p pip ip = \<lparr>PodName = p, PodIP = pip, IP = ip, ExtraNetworks = []\<rparr>"

definition demo_pair :: OverlayNetwork where
  "demo_pair = (plain_network ''net'')\<lparr>nw_Status := \<lparr>
     Allocations = [demo_end ''a'' ''172.16.0.1'' ''10.0.0.1'', demo_end ''b'' ''172.16.0.2'' ''10.0.0.2''],
     Routers = [demo_end ''a'' ''172.16.0.1'' ''10.0.0.1''], OptionalRouters = None\<rparr>\<rparr>"

definition spread_pkg :: tunnel_pkg where
  "spread_pkg = tunnel_std\<lparr>base58 := (\<lambda>x. if x = fnv64 ''a'' then ''aaaaaaaa'' else ''bbbbbbbb'')\<rparr>"

definition fresh_sidecar :: "string \<Rightarrow> TunnelReconciler" where
  "fresh_sidecar p = \<lparr>myPodName = p, networkToName = [], networkIndex = 0\<rparr>"

lemma spread_pkg_ok [simp]: "tunnel_pkg_ok spread_pkg"
  using tunnel_std_ok by (simp add: tunnel_pkg_ok_def spread_pkg_def alnum_def letter_def)

lemma demo_pair_ok [simp]: "status_ok demo_pair"
  by (simp add: demo_pair_def demo_end_def status_ok_def members_of_def)

lemma demo_no_collision [simp]: "no_collision spread_pkg demo_pair"
  by (simp add: no_collision_def demo_pair_def demo_end_def spread_pkg_def) (simp add: fnv64_def)

text \<open>C18: tunnels have two matching ends. For two members of a well-formed network whose names the hash keeps
  apart: if one of them is a router, the sidecar of each wants a tunnel to the other, with the recorded
  addresses of the two, so that each tunnel is the mirror image of the other; if neither is a router,
  neither wants a tunnel to the other.\<close>

theorem tunnel_ends_match:
  assumes T: "tunnel_pkg_ok T" and ok: "status_ok nw" and nc: "no_collision T nw"
    and a: "a \<in> set (nw_allocs nw)" "myPodName ra = PodName a" "getNetworkId ra nw = (i, ra')"
    and b: "b \<in> set (nw_allocs nw)" "myPodName rb = PodName b" "getNetworkId rb nw = (j, rb')"
    and ab: "PodName a \<noteq> PodName b"
  shows "if PodName a \<in> PodName ` set (nw_routers nw) \<or> PodName b \<in> PodName ` set (nw_routers nw)
    then \<exists>la lb. map_of (fst (target_links T ra nw)) (tunnel_name T i (PodName b)) = Some la \<and>
      map_of (fst (target_links T rb nw)) (tunnel_name T j (PodName a)) = Some lb \<and>
      LocalIP la = PodIP a \<and> RemoteIP la = PodIP b \<and> InTunnelLocalIP la = IP a \<and> InTunnelRemoteIP la = IP b \<and>
      LocalIP lb = PodIP b \<and> RemoteIP lb = PodIP a \<and> InTunnelLocalIP lb = IP b \<and> InTunnelRemoteIP lb = IP a
    else map_of (fst (target_links T ra nw)) (tunnel_name T i (PodName b)) = None \<and>
      map_of (fst (target_links T rb nw)) (tunnel_name T j (PodName a)) = None"
proof -
  let ?router = "PodName a \<in> PodName ` set (nw_routers nw) \<or> PodName b \<in> PodName ` set (nw_routers nw)"
  have pa: "PodName b \<in> PodName ` set (peers nw (PodName a)) \<longleftrightarrow> ?router"
    and pb: "PodName a \<in> PodName ` set (peers nw (PodName b)) \<longleftrightarrow> ?router"
    using peers_iff [OF ok, of "PodName a" "PodName b"] peers_iff [OF ok, of "PodName b" "PodName a"] a(1) b(1) ab by auto
  show ?thesis
  proof (cases ?router)
    case True
    with target_link_to [OF T ok nc a(1,2) b(1) _ a(3)] target_link_to [OF T ok nc b(1,2) a(1) _ b(3)] pa pb
    show ?thesis by simp
  next
    case False
    with target_link_none [OF T ok nc b(1) _ a(3)] target_link_none [OF T ok nc a(1) _ b(3)] pa pb
    show ?thesis by (simp only: a(2) b(2) if_False simp_thms)
  qed
qed

theorem tunnel_ends_match_witness:
  "\<exists>la lb. map_of (fst (target_links spread_pkg (fresh_sidecar ''a'') demo_pair)) (tunnel_name spread_pkg 65 ''b'') = Some la \<and>
     map_of (fst (target_links spread_pkg (fresh_sidecar ''b'') demo_pair)) (tunnel_name spread_pkg 65 ''a'') = Some lb \<and>
     LocalIP la = ''172.16.0.1'' \<and> RemoteIP la = ''172.16.0.2'' \<and> InTunnelLocalIP lb = ''10.0.0.2''"
proof -
  let ?a = "demo_end ''a'' ''172.16.0.1'' ''10.0.0.1''" and ?b = "demo_end ''b'' ''172.16.0.2'' ''10.0.0.2''"
  have m: "?a \<in> set (nw_allocs demo_pair)" "?b \<in> set (nw_allocs demo_pair)" by (simp_all add: demo_pair_def)
  have nm: "myPodName (fresh_sidecar ''a'') = PodName ?a" "myPodName (fresh_sidecar ''b'') = PodName ?b"
    by (simp_all add: fresh_sidecar_def demo_end_def)
  obtain ra rb where ids: "getNetworkId (fresh_sidecar ''a'') demo_pair = (65, ra)" "getNetworkId (fresh_sidecar ''b'') demo_pair = (65, rb)"
    by (simp add: getNetworkId_def fresh_sidecar_def)
  have "PodName ?a \<noteq> PodName ?b" "PodName ?a \<in> PodName ` set (nw_routers demo_pair)"
    by (simp_all add: demo_end_def demo_pair_def)
  with tunnel_ends_match [OF spread_pkg_ok demo_pair_ok demo_no_collision m(1) nm(1) ids(1) m(2) nm(2) ids(2)]
  show ?thesis by (auto simp: demo_end_def)
qed

text \<open>A successful reconciliation leaves the wanted tunnels. Of the links the kernel lists, it deletes
  exactly those with the prefix of the network that are not wanted; it creates exactly the
  wanted ones that are not listed. It touches no link of another prefix.\<close>

lemma tunnel_links_converge:
  assumes T: "tunnel_pkg_ok T" and ts: "gm_ok ts" "\<forall>k li. map_of ts k = Some li \<longrightarrow> \<not> Processed li"
    and run: "reconcileTunnelInterfaces T N r nw ts isRouter ex n = Returns (None, r', n')"
  shows "\<exists>links cs. (\<exists>n1 n2. nl_read (nl_LinkList N) n1 = (Inr links, n2)) \<and> commands n' = commands n @ cs \<and>
    set (deleted_links cs) = {l \<in> set links. strings_HasPrefix (attr_Name l) (own_prefix r nw) \<and> \<not> gm_has ts (attr_Name l)} \<and>
    set (added_names cs) = {k. gm_has ts k \<and>
      \<not> (\<exists>l \<in> set links. attr_Name l = k \<and> strings_HasPrefix k (own_prefix r nw))}"
  using run
proof (rule reconcileTunnelInterfaces_success)
  fix n1 links n2 ts' n3 n4
  assume s: "reconcileFOU T N nw (length ts > 0) n = (None, n1)"
    "nl_read (nl_LinkList N) n1 = (Inr links, n2)" "sweep_links N (own_prefix r nw) links ts n2 = (None, ts', n3)"
    "add_links N nw isRouter (range_order T 0 ts') n3 = (None, n4)"
    "reconcileRoutes T N nw isRouter (range_order T 1 ts') ex n4 = Returns (None, n')"
  let ?pre = "own_prefix r nw"
  let ?S = "{attr_Name l |l. l \<in> set links \<and> strings_HasPrefix (attr_Name l) ?pre}"
  obtain c1 where c1: "commands n1 = commands n @ c1" "added_names c1 = []" "deleted_links c1 = []"
    using reconcileFOU_commands [OF s(1)] by blast
  note sw = sweep_links_result [OF s(3) ts(1)]
  obtain c4 where c4: "commands n4 = commands n3 @ c4" "deleted_links c4 = []"
    "added_names c4 = map fst (filter (\<lambda>(_, li). \<not> Processed li) (range_order T 0 ts'))"
    using add_links_result [OF s(4)] by blast
  obtain c5 where c5: "commands n' = commands n4 @ c5" "route_only c5"
    using reconcileRoutes_only [OF T s(5)] unfolding only_routes_def by blast
  define dels where "dels = map LinkDel (filter (\<lambda>l. strings_HasPrefix (attr_Name l) ?pre \<and> \<not> gm_has ts (attr_Name l)) links)"
  have cmds: "commands n' = commands n @ c1 @ dels @ c4 @ c5"
    using c1(1) commands_nl_read [OF s(2)] sw c4(1) c5(1) by (simp add: dels_def)
  have del: "deleted_links (c1 @ dels @ c4 @ c5) = filter (\<lambda>l. strings_HasPrefix (attr_Name l) ?pre \<and> \<not> gm_has ts (attr_Name l)) links"
    using c1(3) c4(2) route_only_names [OF c5(2)] by (simp add: dels_def)
  have "set (added_names (c1 @ dels @ c4 @ c5)) = fst ` {(k, li) \<in> set ts'. \<not> Processed li}"
    using c1(2) c4(3) route_only_names [OF c5(2)] tunnel_pkg_okD(7) [OF T, of 0 ts'] by (auto simp: dels_def)
  also have "\<dots> = {k. gm_has ts k \<and> k \<notin> ?S}" using sw by (intro unprocessed_names [OF _ _ ts(2)]) simp_all
  finally have add: "set (added_names (c1 @ dels @ c4 @ c5)) = {k. gm_has ts k \<and>
      \<not> (\<exists>l \<in> set links. attr_Name l = k \<and> strings_HasPrefix k ?pre)}" by auto
  show ?thesis
    by (rule exI [of _ links], rule exI [of _ "c1 @ dels @ c4 @ c5"]) (use s(2) cmds del add in auto)
qed

end
