(* ===== verification/TunnelPorts.thy ===== *)
theory TunnelPorts
  imports Tunnels
begin

text \<open>
  The ports in the commands of a reconciliation. The port of a network is an \<open>int\<close>; the receiving
  side (\<open>reconcileFOU\<close>) takes it as it is, the tunnels (\<open>setupTunnelIface\<close>) convert it to \<open>uint16\<close>,
  which drops the upper bits of a port above 65535.
\<close>

text \<open>\<open>sends A n n'\<close>: from \<open>n\<close> to \<open>n'\<close> only commands that satisfy \<open>A\<close> were sent.\<close>

definition sends :: "(command \<Rightarrow> bool) \<Rightarrow> 'k node \<Rightarrow> 'k node \<Rightarrow> bool" where
  "sends A n n' \<longleftrightarrow> (\<exists>cs. commands n' = commands n @ cs \<and> list_all A cs)"

lemma sends_refl [simp, intro]: "sends A n n"
  by (simp add: sends_def)

lemma sends_trans [trans]: "sends A n1 n2 \<Longrightarrow> sends A n2 n3 \<Longrightarrow> sends A n1 n3"
  unfolding sends_def by (metis append.assoc list_all_append)

lemma sends_read: "nl_read f n = (a, n') \<Longrightarrow> sends A n n'"
  using commands_nl_read [of f n a n'] by (simp add: sends_def)

lemma sends_exec: "nl_exec N c n = (e, n') \<Longrightarrow> A c \<Longrightarrow> sends A n n'"
  using commands_nl_exec [of N c n e n'] by (simp add: sends_def)

lemma sends_routes: "commands n' = commands n @ cs \<Longrightarrow> route_only cs \<Longrightarrow> (\<And>r. A (RouteAdd r) \<and> A (RouteDel r)) \<Longrightarrow> sends A n n'"
  unfolding sends_def route_only_def list_all_iff by metis

definition port_command :: "int \<Rightarrow> command \<Rightarrow> bool" where
  "port_command p c = (case c of
     LinkAdd t \<Rightarrow> uint (EncapSport t) = p mod 65536 \<and> uint (EncapDport t) = p mod 65536
   | FouAdd f \<Rightarrow> f_Port f = p
   | _ \<Rightarrow> True)"

lemma port_command_simps [simp]:
  "port_command p (LinkDel l)" "port_command p (LinkSetUp l)" "port_command p (AddrAdd l a)" "port_command p (RouteAdd r)"
  "port_command p (RouteDel r)" "port_command p (FouDel f)"
  by (simp_all add: port_command_def)

lemma reconcileFOU_ports:
  assumes "reconcileFOU T N nw b n = (e, n')"
  shows "sends (port_command (Port (nw_Spec nw))) n n'"
proof -
  obtain g n1 where g: "nl_read (nl_FouList N (FAMILY_V4 N)) n = (g, n1)" by fastforce
  show ?thesis
  proof (cases g)
    case (Inl err)
    with assms g show ?thesis using sends_read [OF g] by (simp add: reconcileFOU_def)
  next
    case (Inr fous)
    have "sends (port_command (Port (nw_Spec nw))) n1 n'"
      using assms g Inr unfolding reconcileFOU_def Let_def
      by (auto simp: port_command_def split: prod.splits option.splits if_splits elim!: sends_exec)
    with sends_read [OF g] show ?thesis by (rule sends_trans)
  qed
qed

lemma configure_iface_ports:
  assumes "configure_iface N nw nm li isRouter n = (e, n')"
  shows "sends (port_command p) n n'"
  using assms unfolding configure_iface_def Let_def
  by (auto simp: sends_def dest!: commands_nl_exec commands_nl_read split: prod.splits option.splits sum.splits if_splits)

lemma setupTunnelIface_ports:
  assumes "setupTunnelIface N nw nm li isRouter n = (e, n')"
  shows "sends (port_command (Port (nw_Spec nw))) n n'"
proof -
  define t where "t = \<lparr>EncapType = 1, EncapSport = word_of_int (Port (nw_Spec nw)) :: 16 word,
    EncapDport = word_of_int (Port (nw_Spec nw)) :: 16 word, EncapFlags = 0,
    Iptun_Local = ParseIP (LocalIP li), Iptun_Remote = ParseIP (RemoteIP li), Ttl = 200, Iptun_Name = nm\<rparr>"
  have t: "port_command (Port (nw_Spec nw)) (LinkAdd t)"
    by (simp add: port_command_def t_def uint_word_of_int)
  obtain e1 n1 where ex: "nl_exec N (LinkAdd t) n = (e1, n1)" by fastforce
  have s: "sends (port_command (Port (nw_Spec nw))) n n1" using ex t by (rule sends_exec)
  show ?thesis
  proof (cases e1)
    case (Some x)
    with assms ex s show ?thesis by (simp add: setupTunnelIface_def t_def)
  next
    case None
    with assms ex have "configure_iface N nw nm li isRouter n1 = (e, n')" by (simp add: setupTunnelIface_def t_def)
    with s show ?thesis using sends_trans configure_iface_ports by blast
  qed
qed

lemma sweep_links_ports:
  "sweep_links N pre links ts n = (e, ts', n') \<Longrightarrow> sends (port_command p) n n'"
proof (induction links arbitrary: ts n)
  case (Cons l links)
  show ?case
  proof (cases "strings_HasPrefix (attr_Name l) pre \<and> map_of ts (attr_Name l) = None")
    case True
    obtain e1 n1 where ex: "nl_exec N (LinkDel l) n = (e1, n1)" by fastforce
    have s: "sends (port_command p) n n1" by (rule sends_exec [OF ex]) simp
    from True ex Cons.prems have "n' = n1 \<or> sweep_links N pre links ts n1 = (e, ts', n')"
      by (auto split: option.splits)
    with s Cons.IH sends_trans show ?thesis by blast
  next
    case False
    with Cons show ?thesis by (auto split: if_splits option.splits)
  qed
qed simp

lemma add_links_ports:
  "add_links N nw isRouter ls n = (e, n') \<Longrightarrow> sends (port_command (Port (nw_Spec nw))) n n'"
proof (induction ls arbitrary: n)
  case (Cons l ls)
  obtain nm li where l: "l = (nm, li)" by (cases l)
  show ?case
  proof (cases "Processed li")
    case False
    obtain e1 n1 where up: "setupTunnelIface N nw nm li isRouter n = (e1, n1)" by fastforce
    from False up Cons.prems l have "n' = n1 \<or> add_links N nw isRouter ls n1 = (e, n')" by (auto split: option.splits)
    with setupTunnelIface_ports [OF up] Cons.IH sends_trans show ?thesis by blast
  qed (use Cons l in simp)
qed simp

lemma reconcileTunnelInterfaces_ports:
  assumes T: "tunnel_pkg_ok T"
    and run: "reconcileTunnelInterfaces T N r nw ts isRouter ex n = Returns (e, r', n')"
  shows "sends (port_command (Port (nw_Spec nw))) n n'"
proof -
  let ?P = "port_command (Port (nw_Spec nw))"
  obtain e1 n1 where fou: "reconcileFOU T N nw (length ts > 0) n = (e1, n1)" by fastforce
  note s1 = reconcileFOU_ports [OF fou]
  obtain g n2 where g: "nl_read (nl_LinkList N) n1 = (g, n2)" by fastforce
  have s2: "sends ?P n n2" using s1 sends_read [OF g] by (rule sends_trans)
  obtain i r1 where i: "getNetworkId r nw = (i, r1)" by fastforce
  show ?thesis
  proof (cases e1)
    case (Some err)
    with run fou s1 show ?thesis by (simp add: reconcileTunnelInterfaces_def)
  next
    case None
    show ?thesis
    proof (cases g)
      case (Inl err)
      with run fou None g s2 show ?thesis by (simp add: reconcileTunnelInterfaces_def)
    next
      case (Inr links)
      obtain e3 ts' n3 where sw: "sweep_links N (''o'' @ print_rune (sint i) @ ''_'') links ts n2 = (e3, ts', n3)"
        using prod_cases3 by blast
      have s3: "sends ?P n n3" using s2 sweep_links_ports [OF sw] by (rule sends_trans)
      obtain e4 n4 where ad: "add_links N nw isRouter (range_order T 0 ts') n3 = (e4, n4)" by fastforce
      have s4: "sends ?P n n4" using s3 add_links_ports [OF ad] by (rule sends_trans)
      have "n' = n3 \<or> n' = n4 \<or> (\<exists>e5. reconcileRoutes T N nw isRouter (range_order T 1 ts') ex n4 = Returns (e5, n'))"
        using run fou None g Inr i sw ad
        by (cases e3; cases e4) (auto simp: reconcileTunnelInterfaces_def bind_outcome_eq_Returns)
      moreover have "sends ?P n4 n'" if ro: "reconcileRoutes T N nw isRouter (range_order T 1 ts') ex n4 = Returns (e5, n')" for e5
        using reconcileRoutes_only [OF T ro] sends_routes port_command_simps(4,5) unfolding only_routes_def by metis
      ultimately show ?thesis using s3 s4 sends_trans by blast
    qed
  qed
qed

text \<open>All commands of one run of the reconciler.\<close>

lemma reconcile_tunnel_ports:
  assumes T: "tunnel_pkg_ok T" and got: "read_env (kGetNetwork K ns name) w = (Inr nw, w1)"
    and run: "reconcile_tunnel T N K ns name r w n = Returns (res, r', w', n')"
  shows "sends (port_command (Port (nw_Spec nw))) n n'"
  using run got reconcileTunnelInterfaces_ports [OF T]
  by (auto simp: reconcile_tunnel_def Let_def bind_outcome_eq_Returns split: prod.splits)

text \<open>The reconciler returns if the kernel lists routes with destinations.\<close>

lemma reconcile_tunnel_returns:
  assumes "tunnel_pkg_ok T" and "dst_listed N"
  shows "\<exists>res r' w' n'. reconcile_tunnel T N K ns name r w n = Returns (res, r', w', n')"
proof -
  have ti: "\<exists>r' n' e. reconcileTunnelInterfaces T N r nw ts isRouter ex n = Returns (e, r', n')" for r nw ts isRouter ex n
  proof -
    have rt: "\<exists>n' e. reconcileRoutes T N nw isRouter ls ex n = Returns (e, n')" for ls n
      using reconcileRoutes_returns [OF assms] by blast
    show ?thesis
      unfolding reconcileTunnelInterfaces_def
      by (auto simp: bind_outcome_eq_Returns intro: rt split: prod.splits sum.splits option.splits)
  qed
  obtain g w1 where "read_env (kGetNetwork K ns name) w = (g, w1)" by fastforce
  then show ?thesis
    unfolding reconcile_tunnel_def Let_def
    by (cases g) (auto simp: bind_outcome_eq_Returns intro: ti split: prod.splits)
qed

end
