(* ===== verification/LinkState.thy ===== *)
theory LinkState
  imports TunnelPorts OverlayNetworkController "HOL-Library.AList"
begin

text \<open>
  The links that the kernel has after a reconciliation. The kernel stays a parameter;
  \<open>kernel_links_ok\<close> states what netlink documents of links: the list names all links, a link that
  was added or deleted without error is there, as it was described, or gone, a call that fails and
  every other call leave the links alone.
\<close>

section \<open>The links of the kernel\<close>

text \<open>The links by name, with the description of those that are tunnels.\<close>

type_synonym links = "string \<Rightarrow> Iptun option option"

fun link_effect :: "command \<Rightarrow> links \<Rightarrow> links" where
  "link_effect (LinkAdd t) S = S(Iptun_Name t \<mapsto> Some t)"
| "link_effect (LinkDel l) S = S(attr_Name l := None)"
| "link_effect _ S = S"

definition kernel_links_ok :: "'k netlink \<Rightarrow> ('k \<Rightarrow> links) \<Rightarrow> bool" where
  "kernel_links_ok N view \<longleftrightarrow>
     (\<forall>k a k'. nl_LinkList N k = (a, k') \<longrightarrow> view k' = view k \<and> (\<forall>ls. a = Inr ls \<longrightarrow> attr_Name ` set ls = dom (view k))) \<and>
     (\<forall>nm k. view (snd (nl_LinkByName N nm k)) = view k) \<and>
     (\<forall>l f k. view (snd (nl_RouteList N l f k)) = view k) \<and>
     (\<forall>f k. view (snd (nl_FouList N f k)) = view k) \<and>
     (\<forall>c k e k'. nl_do N c k = (e, k') \<longrightarrow> view k' = (if e = None then link_effect c (view k) else view k))"

lemma links_list:
  assumes V: "kernel_links_ok N view" and "nl_read (nl_LinkList N) n = (a, n')"
  shows "view (kernel n') = view (kernel n)" "a = Inr ls \<Longrightarrow> attr_Name ` set ls = dom (view (kernel n))"
  using V assms by (auto simp: kernel_links_ok_def nl_read_def split: prod.splits)

lemma links_by_name:
  assumes V: "kernel_links_ok N view"
  shows "nl_read (nl_LinkByName N nm) n = (a, n') \<Longrightarrow> view (kernel n') = view (kernel n)"
  using V by (auto simp: kernel_links_ok_def nl_read_def split: prod.splits) (metis snd_conv)+

lemma links_routes:
  assumes V: "kernel_links_ok N view"
  shows "nl_read (nl_RouteList N l f) n = (a, n') \<Longrightarrow> view (kernel n') = view (kernel n)"
  using V by (auto simp: kernel_links_ok_def nl_read_def split: prod.splits) (metis snd_conv)+

lemma links_fou:
  assumes V: "kernel_links_ok N view"
  shows "nl_read (nl_FouList N f) n = (a, n') \<Longrightarrow> view (kernel n') = view (kernel n)"
  using V by (auto simp: kernel_links_ok_def nl_read_def split: prod.splits) (metis snd_conv)+

lemma links_exec:
  assumes V: "kernel_links_ok N view"
  shows "nl_exec N c n = (e, n') \<Longrightarrow> view (kernel n') = (if e = None then link_effect c (view (kernel n)) else view (kernel n))"
  using V by (auto simp: kernel_links_ok_def nl_exec_def split: prod.splits)

lemma links_exec_other:
  assumes V: "kernel_links_ok N view"
  shows "nl_exec N c n = (e, n') \<Longrightarrow> (\<And>S. link_effect c S = S) \<Longrightarrow> view (kernel n') = view (kernel n)"
  using links_exec [OF V, of c n e n'] by simp

section \<open>What each operation does to the links\<close>

lemma links_reconcileFOU:
  assumes V: "kernel_links_ok N view" and "reconcileFOU T N nw b n = (e, n')"
  shows "view (kernel n') = view (kernel n)"
proof -
  obtain g n1 where g: "nl_read (nl_FouList N (FAMILY_V4 N)) n = (g, n1)" by fastforce
  show ?thesis
  proof (cases g)
    case (Inl err)
    with assms g links_fou [OF V g] show ?thesis by (simp add: reconcileFOU_def)
  next
    case (Inr fous)
    let ?found = "lo_Find (tl_fou T) fous (\<lambda>f. f_Port f = Port (nw_Spec nw))"
    have "n' = n1 \<or> (\<exists>c e1. (\<exists>f. c = FouAdd f \<or> c = FouDel f) \<and> nl_exec N c n1 = (e1, n'))"
      using assms g Inr by (cases ?found) (auto simp: reconcileFOU_def Let_def split: if_splits prod.splits option.splits)
    with links_fou [OF V g] links_exec_other [OF V] show ?thesis by auto
  qed
qed

lemma links_sweep:
  assumes V: "kernel_links_ok N view"
  shows "sweep_links N pre ls m n = (None, m', n') \<Longrightarrow> gm_ok m \<Longrightarrow>
   view (kernel n') = view (kernel n) |` (- {attr_Name l |l. l \<in> set ls \<and> strings_HasPrefix (attr_Name l) pre \<and> \<not> gm_has m (attr_Name l)})"
proof (induction ls arbitrary: m n)
  case (Cons l ls)
  let ?del = "\<lambda>m ls. {attr_Name l |l. l \<in> set ls \<and> strings_HasPrefix (attr_Name l) pre \<and> \<not> gm_has m (attr_Name l)}"
  consider (other) "\<not> strings_HasPrefix (attr_Name l) pre"
    | (kept) li where "strings_HasPrefix (attr_Name l) pre" "map_of m (attr_Name l) = Some li"
    | (deleted) "strings_HasPrefix (attr_Name l) pre" "map_of m (attr_Name l) = None" by fastforce
  then show ?case
  proof cases
    case other
    then have "?del m (l # ls) = ?del m ls" by auto
    with other Cons show ?thesis by simp
  next
    case kept
    let ?m = "gm_put m (attr_Name l) (li\<lparr>Processed := True\<rparr>)"
    have has: "gm_has ?m = gm_has m" "gm_has m (attr_Name l)" using kept(2) by (auto simp: gm_has_def fun_eq_iff)
    then have "?del m (l # ls) = ?del ?m ls" by auto
    with kept Cons gm_ok_put [OF Cons.prems(2)] show ?thesis by simp
  next
    case deleted
    then obtain n1 where ex: "nl_exec N (LinkDel l) n = (None, n1)" and go: "sweep_links N pre ls m n1 = (None, m', n')"
      using Cons.prems(1) by (auto split: prod.splits option.splits)
    have "?del m (l # ls) = insert (attr_Name l) (?del m ls)" using deleted by (auto simp: gm_has_def)
    with Cons.IH [OF go Cons.prems(2)] links_exec [OF V ex] show ?thesis by (auto simp: restrict_map_def fun_eq_iff)
  qed
qed (simp add: restrict_map_def)

lemma links_configure:
  assumes V: "kernel_links_ok N view" and "configure_iface N nw nm li isRouter n = (e, n')"
  shows "view (kernel n') = view (kernel n)"
  using assms unfolding configure_iface_def Let_def
  by (auto dest!: links_exec [OF V] links_by_name [OF V] split: prod.splits option.splits sum.splits if_splits)

text \<open>The tunnel that is created for a wanted link.\<close>

definition tunnel_device :: "OverlayNetwork \<Rightarrow> string \<Rightarrow> LinkInfo \<Rightarrow> Iptun" where
  "tunnel_device nw nm li = \<lparr>EncapType = 1, EncapSport = word_of_int (Port (nw_Spec nw)),
     EncapDport = word_of_int (Port (nw_Spec nw)), EncapFlags = 0,
     Iptun_Local = ParseIP (LocalIP li), Iptun_Remote = ParseIP (RemoteIP li), Ttl = 200, Iptun_Name = nm\<rparr>"

lemma tunnel_device_simps [simp]:
  "Iptun_Name (tunnel_device nw nm li) = nm" "Iptun_Local (tunnel_device nw nm li) = ParseIP (LocalIP li)"
  "Iptun_Remote (tunnel_device nw nm li) = ParseIP (RemoteIP li)"
  "EncapDport (tunnel_device nw nm li) = word_of_int (Port (nw_Spec nw))"
  by (simp_all add: tunnel_device_def)

lemma links_setup:
  assumes V: "kernel_links_ok N view" and "setupTunnelIface N nw nm li isRouter n = (None, n')"
  shows "view (kernel n') = (view (kernel n))(nm \<mapsto> Some (tunnel_device nw nm li))"
  using assms(2) unfolding setupTunnelIface_def tunnel_device_def [symmetric]
  by (auto dest!: links_exec [OF V] links_configure [OF V] split: prod.splits option.splits)

lemma links_add:
  assumes V: "kernel_links_ok N view"
  shows "add_links N nw isRouter ls n = (None, n') \<Longrightarrow> \<forall>(k, li) \<in> set ls. m k = Some li \<Longrightarrow>
    view (kernel n') k = (case m k of
      Some li \<Rightarrow> if (k, li) \<in> set ls \<and> \<not> Processed li then Some (Some (tunnel_device nw k li)) else view (kernel n) k
    | None \<Rightarrow> view (kernel n) k)"
proof (induction ls arbitrary: n)
  case Nil
  then show ?case by (simp split: option.splits)
next
  case (Cons l ls)
  obtain nm li where l: "l = (nm, li)" by (cases l)
  have m: "m nm = Some li" and rest: "\<forall>(k, li) \<in> set ls. m k = Some li" using Cons.prems(2) l by auto
  show ?case
  proof (cases "Processed li")
    case True
    with Cons.prems(1) l have "add_links N nw isRouter ls n = (None, n')" by simp
    from Cons.IH [OF this rest] True l m show ?thesis by (auto split: option.splits)
  next
    case False
    obtain n1 where up: "setupTunnelIface N nw nm li isRouter n = (None, n1)"
      and go: "add_links N nw isRouter ls n1 = (None, n')"
      using Cons.prems False l by (auto split: prod.splits option.splits)
    from Cons.IH [OF go rest] links_setup [OF V up] False l m show ?thesis by (auto split: option.splits)
  qed
qed

lemma links_sweep_routes:
  assumes V: "kernel_links_ok N view"
  shows "sweep_routes T N owned src ts routes f p n = Returns (e, f', p', n') \<Longrightarrow> view (kernel n') = view (kernel n)"
proof (induction routes arbitrary: f p n)
  case (Cons rt routes)
  then show ?case
    by (auto simp: sweep_routes.simps(2) bind_outcome_eq_Returns dest!: links_exec [OF V] split: if_splits option.splits prod.splits)
qed simp

lemma links_add_routes:
  assumes V: "kernel_links_ok N view"
  shows "add_routes T N link src p ts n = (e, n') \<Longrightarrow> view (kernel n') = view (kernel n)"
proof (induction ts arbitrary: n)
  case (Cons rt ts)
  then show ?case by (auto dest!: links_exec [OF V] split: if_splits option.splits prod.splits)
qed simp

lemma links_add_owned:
  assumes V: "kernel_links_ok N view"
  shows "add_owned N link net src n = (e, n') \<Longrightarrow> view (kernel n') = view (kernel n)"
  unfolding add_owned_def by (erule links_exec_other [OF V]) simp

lemma links_link_routes:
  assumes V: "kernel_links_ok N view" and "link_routes T N nw isRouter nm li ts n = Returns (e, ts', n')"
  shows "view (kernel n') = view (kernel n)"
proof -
  obtain g n1 where g: "nl_read (nl_LinkByName N nm) n = (g, n1)" by fastforce
  show ?thesis
  proof (cases g)
    case (Inl err)
    with assms g links_by_name [OF V g] show ?thesis by (auto simp: link_routes_def)
  next
    case (Inr link)
    obtain h n2 where h: "nl_read (nl_RouteList N link (FAMILY_V4 N)) n1 = (h, n2)" by fastforce
    have same: "view (kernel n2) = view (kernel n)" using links_by_name [OF V g] links_routes [OF V h] by simp
    have "view (kernel n') = view (kernel n2)"
    proof (cases h)
      case (Inr routes)
      show ?thesis
      proof (cases "ParseCIDR (AllocatableCIDR (nw_Spec nw))")
        case (Some c)
        obtain ip net where c: "c = (ip, net)" by (cases c)
        define tgt where "tgt = (if \<not> isRouter then ts @ routes_to (RoutableCIDRs (nw_Spec nw)) (Routers (nw_Status nw)) else ts)"
        define own where "own = (if \<not> isRouter then net else \<lparr>net_IP = ParseIP (InTunnelRemoteIP li), net_Mask = CIDRMask 32 32\<rparr>)"
        have body: "bind_outcome (sweep_routes T N own (InTunnelLocalIP li) tgt routes False [] n2)
            (\<lambda>(err, f, p, n). if err \<noteq> None then Returns (err, tgt, n)
              else case (if \<not> f then add_owned N link own (InTunnelLocalIP li) n else (None, n)) of
                  (Some err, n) \<Rightarrow> Returns (Some err, tgt, n)
                | (None, n) \<Rightarrow> (case add_routes T N link (InTunnelLocalIP li) p tgt n of (err, n) \<Rightarrow> Returns (err, tgt, n)))
          = Returns (e, ts', n')"
          using assms unfolding link_routes_def Let_def
          by (simp only: g h \<open>g = Inr link\<close> Inr Some c prod.case sum.case option.case flip: tgt_def own_def)
        then obtain e3 f p n3 where sw: "sweep_routes T N own (InTunnelLocalIP li) tgt routes False [] n2 = Returns (e3, f, p, n3)"
          by (auto simp: bind_outcome_eq_Returns)
        obtain e4 n4 where own: "(if \<not> f then add_owned N link own (InTunnelLocalIP li) n3 else (None, n3)) = (e4, n4)" by fastforce
        obtain e5 n5 where ad: "add_routes T N link (InTunnelLocalIP li) p tgt n4 = (e5, n5)" by fastforce
        have "n' = n3 \<or> n' = n4 \<or> n' = n5"
          using body by (cases e3; cases e4) (simp_all add: sw own ad)
        moreover have "view (kernel n4) = view (kernel n3)" 
          using own links_add_owned [OF V] by (cases f) simp_all
        ultimately show ?thesis using links_sweep_routes [OF V sw] links_add_routes [OF V ad] by auto
      qed (use assms g h \<open>g = Inr link\<close> Inr in \<open>simp add: link_routes_def\<close>)
    qed (use assms g Inr h in \<open>simp add: link_routes_def\<close>)
    with same show ?thesis by simp
  qed
qed

lemma links_reconcileRoutes:
  assumes V: "kernel_links_ok N view"
  shows "reconcileRoutes T N nw isRouter ls ts n = Returns (e, n') \<Longrightarrow> view (kernel n') = view (kernel n)"
proof (induction ls arbitrary: ts n)
  case (Cons l ls)
  obtain nm li where l: "l = (nm, li)" by (cases l)
  from Cons.prems l obtain e1 ts1 n1 where lr: "link_routes T N nw isRouter nm li ts n = Returns (e1, ts1, n1)"
    by (auto simp: bind_outcome_eq_Returns)
  with Cons.prems l have "n' = n1 \<or> reconcileRoutes T N nw isRouter ls ts1 n1 = Returns (e, n')" by (auto split: if_splits)
  with Cons.IH links_link_routes [OF V lr] show ?case by metis
qed simp

text \<open>The links after a successful reconciliation: those of the network that are wanted and were there are kept,
  the missing ones are created, the others are deleted; links of another prefix stay.\<close>

definition links_after :: "OverlayNetwork \<Rightarrow> string \<Rightarrow> (string, LinkInfo) go_map \<Rightarrow> links \<Rightarrow> links" where
  "links_after nw pre ts S k =
     (if \<not> strings_HasPrefix k pre then S k
      else case map_of ts k of None \<Rightarrow> None
        | Some li \<Rightarrow> (if S k = None then Some (Some (tunnel_device nw k li)) else S k))"

lemma links_reconcile:
  assumes V: "kernel_links_ok N view" and T: "tunnel_pkg_ok T" and ts: "gm_ok ts" "\<forall>k li. map_of ts k = Some li \<longrightarrow> \<not> Processed li"
    and pre: "\<forall>k. gm_has ts k \<longrightarrow> strings_HasPrefix k (own_prefix r nw)"
    and run: "reconcileTunnelInterfaces T N r nw ts isRouter ex n = Returns (None, r', n')"
  shows "view (kernel n') = links_after nw (own_prefix r nw) ts (view (kernel n))"
  using run
proof (rule reconcileTunnelInterfaces_success)
  fix n1 ls n2 ts' n3 n4
  assume s: "reconcileFOU T N nw (length ts > 0) n = (None, n1)"
    "nl_read (nl_LinkList N) n1 = (Inr ls, n2)" "sweep_links N (own_prefix r nw) ls ts n2 = (None, ts', n3)"
    "add_links N nw isRouter (range_order T 0 ts') n3 = (None, n4)"
    "reconcileRoutes T N nw isRouter (range_order T 1 ts') ex n4 = Returns (None, n')"
  let ?pre = "own_prefix r nw" and ?S = "view (kernel n)"
  have l2: "view (kernel n2) = ?S" using links_reconcileFOU [OF V s(1)] links_list(1) [OF V s(2)] by simp
  have ls: "attr_Name ` set ls = dom ?S" using links_list(2) [OF V s(2) refl] links_reconcileFOU [OF V s(1)] by simp
  have del: "{attr_Name l |l. l \<in> set ls \<and> strings_HasPrefix (attr_Name l) ?pre \<and> \<not> gm_has ts (attr_Name l)} =
      {k \<in> dom ?S. strings_HasPrefix k ?pre \<and> \<not> gm_has ts k}" unfolding ls [symmetric] by auto
  have n3: "view (kernel n3) = ?S |` (- {k \<in> dom ?S. strings_HasPrefix k ?pre \<and> \<not> gm_has ts k})"
    using links_sweep [OF V s(3) ts(1)] by (simp only: del l2)
  have S: "{attr_Name l |l. l \<in> set ls \<and> strings_HasPrefix (attr_Name l) ?pre} = {k \<in> dom ?S. strings_HasPrefix k ?pre}"
    unfolding ls [symmetric] by auto
  have sw: "gm_ok ts'" "map_of ts' = mark {k \<in> dom ?S. strings_HasPrefix k ?pre} ts"
    using sweep_links_result [OF s(3) ts(1)] unfolding S by blast+
  have order: "(k, li) \<in> set (range_order T 0 ts') \<longleftrightarrow> map_of ts' k = Some li" for k li
    using tunnel_pkg_okD(7) [OF T, of 0 ts'] sw(1) by (simp add: gm_ok_def)
  then have all: "\<forall>(k, li) \<in> set (range_order T 0 ts'). map_of ts' k = Some li" by blast
  have "view (kernel n') = view (kernel n4)" using s(5) by (rule links_reconcileRoutes [OF V])
  then have "view (kernel n') k = links_after nw ?pre ts ?S k" for k
    using links_add [OF V s(4) all, of k] pre ts(2) unfolding order sw(2) n3 links_after_def mark_def
    by (auto simp: restrict_map_def gm_has_def split: option.splits if_splits)
  then show ?thesis by blast
qed

section \<open>A whole reconciliation\<close>

lemma own_prefix_eq: "getNetworkId r nw = (i, r') \<Longrightarrow> own_prefix r nw = ''o'' @ print_rune (sint i) @ ''_''"
  by (simp add: own_prefix_def)

text \<open>The names of the tunnels that a pod wants in a network.\<close>

definition wanted_links :: "tunnel_pkg \<Rightarrow> 32 word \<Rightarrow> OverlayNetwork \<Rightarrow> string \<Rightarrow> string set" where
  "wanted_links T i nw me = tunnel_name T i ` PodName ` set (peers nw me)"

lemma own_entry_None: "own_entry nw me = None \<Longrightarrow> peers nw me = []"
  by (auto simp: own_entry_def peers_def find_None_iff split: option.splits)

lemma target_links_wanted:
  assumes T: "tunnel_pkg_ok T" and id: "getNetworkId r nw = (i, r')"
  obtains ts r'' where "target_links T r nw = (ts, r'')" "getNetworkId r'' nw = (i, r')" "gm_ok ts"
    "\<And>k. gm_has ts k \<longleftrightarrow> k \<in> wanted_links T i nw (myPodName r)" "\<forall>k li. map_of ts k = Some li \<longrightarrow> \<not> Processed li"
proof -
  obtain ts r'' where t: "target_links T r nw = (ts, r'')" "r'' = r \<or> r'' = r'" "gm_ok ts"
    "case own_entry nw (myPodName r) of None \<Rightarrow> ts = [] | Some me \<Rightarrow>
       map_of ts = map_of (rev (map (\<lambda>a. (tunnel_name T i (PodName a), link_to me a)) (peers nw (myPodName r))))"
    using target_links_eq [OF T id] by blast
  have id': "getNetworkId r'' nw = (i, r')" using t(2) id getNetworkId_again [OF id] by auto
  show thesis
  proof (cases "own_entry nw (myPodName r)")
    case None
    with t own_entry_None [OF None] show thesis by (intro that [OF t(1) id']) (simp_all add: wanted_links_def gm_has_def)
  next
    case (Some me)
    then have ts: "map_of ts = map_of (rev (map (\<lambda>a. (tunnel_name T i (PodName a), link_to me a)) (peers nw (myPodName r))))"
      using t(4) by simp
    have "gm_has ts k \<longleftrightarrow> k \<in> wanted_links T i nw (myPodName r)" for k
      unfolding gm_has_def ts wanted_links_def map_of_eq_None_iff by (simp add: image_image)
    moreover have "\<not> Processed li" if "map_of ts k = Some li" for k li
      using map_of_SomeD [OF that [unfolded ts]] by (auto simp: link_to_def)
    ultimately show thesis using t(3) by (intro that [OF t(1) id']) auto
  qed
qed

lemma wanted_links_prefix:
  "k \<in> wanted_links T i nw me \<Longrightarrow> strings_HasPrefix k (''o'' @ print_rune (sint i) @ ''_'')"
  by (auto simp: wanted_links_def tunnel_name_def strings_HasPrefix_def)

lemma reconcileTunnelInterfaces_id:
  assumes "reconcileTunnelInterfaces T N r nw ts isRouter ex n = Returns (None, r', n')"
  shows "r' = snd (getNetworkId r nw)"
  using assms unfolding reconcileTunnelInterfaces_def
  by (auto simp: bind_outcome_eq_Returns split: prod.splits option.splits sum.splits)

lemma reconcile_tunnel_success:
  assumes got: "read_env (kGetNetwork K ns name) w = (Inr nw, w1)"
    and run: "reconcile_tunnel T N K ns name r w n = Returns (finished, r', w', n')"
    and t: "target_links T r nw = (ts, r1)"
  obtains isRouter ex where "reconcileTunnelInterfaces T N r1 nw ts isRouter ex n = Returns (None, r', n')"
  using run that unfolding reconcile_tunnel_def Let_def
  by (auto simp: got t bind_outcome_eq_Returns split: option.splits)

lemma links_after_dom:
  assumes "\<And>k. gm_has ts k \<Longrightarrow> strings_HasPrefix k pre"
  shows "dom (links_after nw pre ts S) = {k \<in> dom S. \<not> strings_HasPrefix k pre} \<union> {k. gm_has ts k}"
  using assms by (auto simp: links_after_def gm_has_def split: if_splits option.splits)

lemma links_reconcile_tunnel:
  assumes V: "kernel_links_ok N view" and T: "tunnel_pkg_ok T" and id: "getNetworkId r nw = (i, r1)"
    and got: "read_env (kGetNetwork K ns name) w = (Inr nw, w1)"
    and run: "reconcile_tunnel T N K ns name r w n = Returns (finished, r', w', n')"
  shows "view (kernel n') = links_after nw (own_prefix r nw) (fst (target_links T r nw)) (view (kernel n))"
    "dom (view (kernel n')) = {k \<in> dom (view (kernel n)). \<not> strings_HasPrefix k (own_prefix r nw)} \<union> wanted_links T i nw (myPodName r)"
    "r' = r1"
proof -
  obtain ts r'' where t: "target_links T r nw = (ts, r'')" "getNetworkId r'' nw = (i, r1)" "gm_ok ts"
    "\<And>k. gm_has ts k \<longleftrightarrow> k \<in> wanted_links T i nw (myPodName r)" "\<forall>k li. map_of ts k = Some li \<longrightarrow> \<not> Processed li"
    using target_links_wanted [OF T id] by metis
  from reconcile_tunnel_success [OF got run t(1)] obtain isRouter ex where
    ti: "reconcileTunnelInterfaces T N r'' nw ts isRouter ex n = Returns (None, r', n')" by blast
  have pre: "own_prefix r'' nw = own_prefix r nw" using own_prefix_eq [OF t(2)] own_prefix_eq [OF id] by simp
  have has: "\<forall>k. gm_has ts k \<longrightarrow> strings_HasPrefix k (own_prefix r'' nw)"
    using wanted_links_prefix t(4) own_prefix_eq [OF t(2)] by simp
  note after = links_reconcile [OF V T t(3,5) has ti, unfolded pre]
  then show "view (kernel n') = links_after nw (own_prefix r nw) (fst (target_links T r nw)) (view (kernel n))" by (simp add: t(1))
  show "r' = r1" using reconcileTunnelInterfaces_id [OF ti] by (simp add: t(2))
  have "dom (links_after nw (own_prefix r nw) ts (view (kernel n))) =
      {k \<in> dom (view (kernel n)). \<not> strings_HasPrefix k (own_prefix r nw)} \<union> {k. gm_has ts k}"
    using has by (intro links_after_dom) (simp add: pre)
  then show "dom (view (kernel n')) = {k \<in> dom (view (kernel n)). \<not> strings_HasPrefix k (own_prefix r nw)} \<union> wanted_links T i nw (myPodName r)"
    by (simp add: after t(4))
qed

text \<open>A reconciliation that finds the wanted links in place adds and deletes none.\<close>

lemma sweep_links_idle:
  assumes "\<forall>l \<in> set ls. strings_HasPrefix (attr_Name l) pre \<longrightarrow> gm_has m (attr_Name l)"
  shows "\<exists>m'. sweep_links N pre ls m n = (None, m', n)"
  using assms
proof (induction ls arbitrary: m)
  case (Cons l ls)
  show ?case
  proof (cases "strings_HasPrefix (attr_Name l) pre")
    case True
    then obtain li where li: "map_of m (attr_Name l) = Some li" using Cons.prems by (auto simp: gm_has_def)
    have "gm_has (gm_put m (attr_Name l) (li\<lparr>Processed := True\<rparr>)) = gm_has m" using li by (auto simp: gm_has_def fun_eq_iff)
    with True li Cons.IH [of "gm_put m (attr_Name l) (li\<lparr>Processed := True\<rparr>)"] Cons.prems show ?thesis by simp
  qed (use Cons in simp)
qed simp

lemma add_links_idle: "\<forall>(k, li) \<in> set ls. Processed li \<Longrightarrow> add_links N nw isRouter ls n = (None, n)"
  by (induction ls) auto

lemma reconcile_idle:
  assumes V: "kernel_links_ok N view" and T: "tunnel_pkg_ok T"
    and ts: "gm_ok ts" "\<forall>k li. map_of ts k = Some li \<longrightarrow> \<not> Processed li"
    and there: "\<And>k. gm_has ts k \<Longrightarrow> k \<in> dom (view (kernel n))" "\<And>k. gm_has ts k \<Longrightarrow> strings_HasPrefix k (own_prefix r nw)"
    and only: "\<And>k. k \<in> dom (view (kernel n)) \<Longrightarrow> strings_HasPrefix k (own_prefix r nw) \<Longrightarrow> gm_has ts k"
    and run: "reconcileTunnelInterfaces T N r nw ts isRouter ex n = Returns (e, r', n')"
  shows "\<exists>cs. commands n' = commands n @ cs \<and> added_names cs = [] \<and> deleted_links cs = []"
proof -
  let ?quiet = "\<lambda>n n'. \<exists>cs. commands n' = commands n @ cs \<and> added_names cs = [] \<and> deleted_links cs = []"
  have quiet_trans: "?quiet a c" if "?quiet a b" "?quiet b c" for a b c :: "'a node"
    using that by (metis append.assoc names_append(1,3) append_Nil)
  obtain e1 n1 where fou: "reconcileFOU T N nw (length ts > 0) n = (e1, n1)" by fastforce
  note q1 = reconcileFOU_commands [OF fou]
  obtain g n2 where g: "nl_read (nl_LinkList N) n1 = (g, n2)" by fastforce
  have q2: "?quiet n n2" using q1 commands_nl_read [OF g] by simp
  obtain i r2 where i: "getNetworkId r nw = (i, r2)" by fastforce
  show ?thesis
  proof (cases e1)
    case (Some err)
    with run fou q1 show ?thesis by (simp add: reconcileTunnelInterfaces_def)
  next
    case None
    show ?thesis
    proof (cases g)
      case (Inl err)
      with run fou None g q2 show ?thesis by (simp add: reconcileTunnelInterfaces_def)
    next
      case (Inr ls)
      have ls: "attr_Name ` set ls = dom (view (kernel n))"
        using links_list(2) [OF V g Inr] links_reconcileFOU [OF V fou] by simp
      then have "\<forall>l \<in> set ls. strings_HasPrefix (attr_Name l) (own_prefix r nw) \<longrightarrow> gm_has ts (attr_Name l)" using only by blast
      from sweep_links_idle [OF this] obtain ts' where sw: "sweep_links N (own_prefix r nw) ls ts n2 = (None, ts', n2)" by blast
      have "{attr_Name l |l. l \<in> set ls \<and> strings_HasPrefix (attr_Name l) (own_prefix r nw)} =
          {k \<in> attr_Name ` set ls. strings_HasPrefix k (own_prefix r nw)}" by auto
      then have S: "{attr_Name l |l. l \<in> set ls \<and> strings_HasPrefix (attr_Name l) (own_prefix r nw)} = {k. gm_has ts k}"
        unfolding ls using there only by blast
      note res = sweep_links_result [OF sw ts(1), unfolded S]
      have "fst ` {(k, li) \<in> set ts'. \<not> Processed li} = {k. gm_has ts k \<and> k \<notin> {k. gm_has ts k}}"
        using res by (intro unprocessed_names [OF _ _ ts(2)]) simp_all
      then have "\<forall>(k, li) \<in> set (range_order T 0 ts'). Processed li" using tunnel_pkg_okD(7) [OF T, of 0 ts'] by auto
      note ad = add_links_idle [OF this, of N nw isRouter n2]
      have "\<exists>e5. reconcileRoutes T N nw isRouter (range_order T 1 ts') ex n2 = Returns (e5, n')"
        using run unfolding reconcileTunnelInterfaces_def own_prefix_eq [OF i, symmetric]
        by (simp only: fou None g Inr i own_prefix_eq [OF i, symmetric] sw ad prod.case sum.case option.case)
          (auto simp: bind_outcome_eq_Returns)
      then have "?quiet n2 n'" using reconcileRoutes_only [OF T] route_only_names unfolding only_routes_def by metis
      then show ?thesis using quiet_trans [OF q2] by simp
    qed
  qed
qed

lemma reconcile_tunnel_idle:
  assumes V: "kernel_links_ok N view" and T: "tunnel_pkg_ok T" and id: "getNetworkId r nw = (i, r1)"
    and got: "read_env (kGetNetwork K ns name) w = (Inr nw, w1)"
    and there: "{k \<in> dom (view (kernel n)). strings_HasPrefix k (own_prefix r nw)} = wanted_links T i nw (myPodName r)"
    and run: "reconcile_tunnel T N K ns name r w n = Returns (res, r', w', n')"
  shows "\<exists>cs. commands n' = commands n @ cs \<and> added_names cs = [] \<and> deleted_links cs = []"
proof (rule target_links_wanted [OF T id])
  fix ts r''
  assume t: "target_links T r nw = (ts, r'')" "getNetworkId r'' nw = (i, r1)" "gm_ok ts"
    "\<And>k. gm_has ts k \<longleftrightarrow> k \<in> wanted_links T i nw (myPodName r)" "\<forall>k li. map_of ts k = Some li \<longrightarrow> \<not> Processed li"
  from run obtain isRouter ex e where ti: "reconcileTunnelInterfaces T N r'' nw ts isRouter ex n = Returns (e, r', n')"
    unfolding reconcile_tunnel_def Let_def by (auto simp: got t(1) bind_outcome_eq_Returns)
  have pre: "own_prefix r'' nw = own_prefix r nw" using own_prefix_eq [OF t(2)] own_prefix_eq [OF id] by simp
  have "k \<in> dom (view (kernel n)) \<and> strings_HasPrefix k (own_prefix r nw)" if "gm_has ts k" for k
    using that there t(4) by blast
  moreover have "gm_has ts k" if "k \<in> dom (view (kernel n))" "strings_HasPrefix k (own_prefix r nw)" for k
    using that there t(4) by blast
  ultimately show ?thesis by (intro reconcile_idle [OF V T t(3,5) _ _ _ ti]) (simp_all add: pre)
qed

section \<open>Properties\<close>

text \<open>A kernel whose state are its links.\<close>

type_synonym link_list = "(string \<times> Iptun option) list"

definition list_netlink :: "link_list netlink" where
  "list_netlink = \<lparr>nl_LinkList = (\<lambda>k. (Inr (map (\<lambda>l. \<lparr>attr_Name = fst l, attr_Index = 1\<rparr>) k), k)),
     nl_LinkByName = (\<lambda>nm k. (if nm \<in> fst ` set k then Inr \<lparr>attr_Name = nm, attr_Index = 1\<rparr> else Inl ''Link not found'', k)),
     nl_RouteList = (\<lambda>_ _ k. (Inr [], k)), nl_FouList = (\<lambda>_ k. (Inr [], k)),
     nl_do = (\<lambda>c k. (None, case c of LinkAdd t \<Rightarrow> AList.update (Iptun_Name t) (Some t) k
       | LinkDel l \<Rightarrow> AList.delete (attr_Name l) k | _ \<Rightarrow> k)),
     SCOPE_LINK = 253, FAMILY_V4 = 2, FOU_ENCAP_DIRECT = 1\<rparr>"

lemma list_netlink_ok [simp]: "kernel_links_ok list_netlink map_of"
proof -
  have "map_of (case c of LinkAdd t \<Rightarrow> AList.update (Iptun_Name t) (Some t) k
       | LinkDel l \<Rightarrow> AList.delete (attr_Name l) k | _ \<Rightarrow> k) = link_effect c (map_of k)" for c k
    by (cases c) (simp_all add: update_conv' delete_conv')
  then show ?thesis by (auto simp: kernel_links_ok_def list_netlink_def image_image dom_map_of_conv_image_fst)
qed

lemma list_netlink_ops [simp]:
  "nl_read (nl_LinkList list_netlink) n = (Inr (map (\<lambda>l. \<lparr>attr_Name = fst l, attr_Index = 1\<rparr>) (kernel n)), n)"
  "nl_read (nl_LinkByName list_netlink nm) n =
     (if nm \<in> fst ` set (kernel n) then Inr \<lparr>attr_Name = nm, attr_Index = 1\<rparr> else Inl ''Link not found'', n)"
  "nl_read (nl_RouteList list_netlink l f) n = (Inr [], n)" "nl_read (nl_FouList list_netlink f) n = (Inr [], n)"
  "nl_exec list_netlink c n = (None, \<lparr>kernel = (case c of LinkAdd t \<Rightarrow> AList.update (Iptun_Name t) (Some t) (kernel n)
     | LinkDel l \<Rightarrow> AList.delete (attr_Name l) (kernel n) | _ \<Rightarrow> kernel n), commands = commands n @ [c]\<rparr>)"
  by (auto simp: nl_read_def nl_exec_def list_netlink_def)

text \<open>The pod \<open>b\<close> of \<open>demo_pair\<close>, in a kernel with a tunnel of a member that has left.\<close>

definition stale_node :: "link_list node" where
  "stale_node = \<lparr>kernel = [(''eth0'', None),
     (''oA_zzzzzzzz'', Some (tunnel_device demo_pair ''oA_zzzzzzzz'' (link_to (demo_end ''b'' ''172.16.0.2'' ''10.0.0.2'') (demo_end ''z'' ''172.16.0.9'' ''10.0.0.9''))))],
     commands = []\<rparr>"

definition pair_world :: "OverlayNetwork world" where
  "pair_world = \<lparr>env = demo_pair, requests = []\<rparr>"

lemma pair_world_read: "read_env (kGetNetwork one_network ''ns'' ''net'') pair_world = (Inr demo_pair, pair_world)"
  by (simp add: read_env_def one_network_def pair_world_def)

lemma rune_A: "print_rune 65 = ''A''"
  using print_rune_small [of 0] by (simp add: char_of_def bit_0)

definition pair_sidecar :: TunnelReconciler where
  "pair_sidecar = \<lparr>myPodName = ''b'', networkToName = [(''net'', 0)], networkIndex = 1\<rparr>"

lemma pair_id:
  "getNetworkId (fresh_sidecar ''b'') demo_pair = (65, pair_sidecar)" "getNetworkId pair_sidecar demo_pair = (65, pair_sidecar)"
  by (simp_all add: getNetworkId_def fresh_sidecar_def pair_sidecar_def gm_put_def demo_pair_def plain_network_def)

definition pair_link :: LinkInfo where
  "pair_link = link_to (demo_end ''b'' ''172.16.0.2'' ''10.0.0.2'') (demo_end ''a'' ''172.16.0.1'' ''10.0.0.1'')"

lemma pair_fields [simp]:
  "nw_allocs demo_pair = [demo_end ''a'' ''172.16.0.1'' ''10.0.0.1'', demo_end ''b'' ''172.16.0.2'' ''10.0.0.2'']"
  "nw_routers demo_pair = [demo_end ''a'' ''172.16.0.1'' ''10.0.0.1'']" "OptionalRouters (nw_Status demo_pair) = None"
  "RoutableCIDRs (nw_Spec demo_pair) = []" "\<not> Processed pair_link"
  by (simp_all add: demo_pair_def plain_network_def pair_link_def link_to_def)

lemma pair_target: "target_links spread_pkg (fresh_sidecar ''b'') demo_pair = ([(''oA_aaaaaaaa'', pair_link)], pair_sidecar)"
proof -
  have "myPodName (fresh_sidecar ''b'') = ''b''" by (simp add: fresh_sidecar_def)
  then show ?thesis
    by (simp add: target_links_def getTunnelId_def pair_id rune_A demo_end_def pair_link_def link_to_def spread_pkg_def tunnel_std_def lo_std_def gm_put_def)
qed

lemma pair_cidr: "\<exists>a an. ParseCIDR (AllocatableCIDR (nw_Spec demo_pair)) = Some (a, an)"
  using demo_cidr_parses [of "''net''"] by (simp add: demo_pair_def)

lemma pair_setup: "\<exists>n'. setupTunnelIface list_netlink demo_pair nm li False n = (None, n') \<and> nm \<in> fst ` set (kernel n')"
  using pair_cidr by (auto simp: setupTunnelIface_def configure_iface_def dom_update)

lemma pair_routes: "nm \<in> fst ` set (kernel n) \<Longrightarrow> \<exists>n'. reconcileRoutes spread_pkg list_netlink demo_pair False [(nm, li)] [] n = Returns (None, n')"
  using pair_cidr by (auto simp: link_routes_def add_owned_def)

lemma pair_sweep: "kernel n = kernel stale_node \<Longrightarrow>
  \<exists>n'. sweep_links list_netlink ''oA_'' [\<lparr>attr_Name = ''eth0'', attr_Index = 1\<rparr>, \<lparr>attr_Name = ''oA_zzzzzzzz'', attr_Index = 1\<rparr>]
    [(''oA_aaaaaaaa'', pair_link)] n = (None, [(''oA_aaaaaaaa'', pair_link)], n')"
  by (simp add: strings_HasPrefix_def)

lemma pair_interfaces:
  "\<exists>n'. reconcileTunnelInterfaces spread_pkg list_netlink pair_sidecar demo_pair [(''oA_aaaaaaaa'', pair_link)] False [] stale_node
     = Returns (None, pair_sidecar, n')"
proof -
  obtain c where fou: "reconcileFOU spread_pkg list_netlink demo_pair True stale_node = (None, \<lparr>kernel = kernel stale_node, commands = c\<rparr>)"
    by (simp add: reconcileFOU_def spread_pkg_def tunnel_std_def lo_std_def)
  let ?n = "\<lparr>kernel = kernel stale_node, commands = c\<rparr>"
  obtain n1 where sw: "sweep_links list_netlink ''oA_'' [\<lparr>attr_Name = ''eth0'', attr_Index = 1\<rparr>, \<lparr>attr_Name = ''oA_zzzzzzzz'', attr_Index = 1\<rparr>]
    [(''oA_aaaaaaaa'', pair_link)] ?n = (None, [(''oA_aaaaaaaa'', pair_link)], n1)" using pair_sweep [of ?n] by auto
  obtain n2 where up: "setupTunnelIface list_netlink demo_pair ''oA_aaaaaaaa'' pair_link False n1 = (None, n2)"
    "''oA_aaaaaaaa'' \<in> fst ` set (kernel n2)" using pair_setup by blast
  obtain n3 where rt: "reconcileRoutes spread_pkg list_netlink demo_pair False [(''oA_aaaaaaaa'', pair_link)] [] n2 = Returns (None, n3)"
    using pair_routes [OF up(2)] by blast
  have order: "range_order spread_pkg i m = m" for i m by (simp add: spread_pkg_def tunnel_std_def)
  have ls: "map (\<lambda>l. \<lparr>attr_Name = fst l, attr_Index = 1 :: int\<rparr>) (kernel stale_node) =
      [\<lparr>attr_Name = ''eth0'', attr_Index = 1\<rparr>, \<lparr>attr_Name = ''oA_zzzzzzzz'', attr_Index = 1\<rparr>]" by (simp add: stale_node_def)
  show ?thesis
    by (simp add: reconcileTunnelInterfaces_def fou ls pair_id rune_A sw up(1) rt order del: sweep_links.simps reconcileRoutes.simps)
qed

lemma pair_run:
  "\<exists>n'. reconcile_tunnel spread_pkg list_netlink one_network ''ns'' ''net'' (fresh_sidecar ''b'') pair_world stale_node
     = Returns (finished, pair_sidecar, pair_world, n')"
proof -
  have "lo_Find (tl_alloc spread_pkg) (nw_routers demo_pair) (\<lambda>t. PodName t = myPodName (fresh_sidecar ''b'')) = None"
    "lo_Find (tl_alloc spread_pkg) (nw_allocs demo_pair) (\<lambda>t. PodName t = myPodName (fresh_sidecar ''b'')) = Some (demo_end ''b'' ''172.16.0.2'' ''10.0.0.2'')"
    by (simp_all add: demo_end_def fresh_sidecar_def spread_pkg_def tunnel_std_def lo_std_def)
  moreover have "ExtraNetworks (demo_end ''b'' ''172.16.0.2'' ''10.0.0.2'') = []" by (simp add: demo_end_def)
  moreover obtain n' where "reconcileTunnelInterfaces spread_pkg list_netlink pair_sidecar demo_pair [(''oA_aaaaaaaa'', pair_link)] False [] stale_node
     = Returns (None, pair_sidecar, n')" using pair_interfaces by blast
  ultimately show ?thesis
    unfolding reconcile_tunnel_def
    by (simp add: pair_world_read pair_target del: pair_fields)
qed

text \<open>C8: the kernel ends up with the wanted tunnels. After a successful reconciliation of a network, the
  links with the prefix of the network bear exactly the names of the tunnels to the peers of the pod, one
  name per peer: to all other members if the pod is a router, to the routers if it is a plain member,
  and none if it is not in the network. A link that was there before and is still there is
  untouched, whatever its ends (see the FIXME in the code); a link that was not is a tunnel from the
  address of the pod to that of the peer it is named after, over the port of the network. Links
  with other prefixes are neither added nor deleted.\<close>

theorem tunnel_links_exact:
  assumes V: "kernel_links_ok N view" and T: "tunnel_pkg_ok T" and id: "getNetworkId r nw = (i, r1)"
    and got: "read_env (kGetNetwork K ns name) w = (Inr nw, w1)"
    and run: "reconcile_tunnel T N K ns name r w n = Returns (finished, r', w', n')"
  shows "dom (view (kernel n')) = {k \<in> dom (view (kernel n)). \<not> strings_HasPrefix k (own_prefix r nw)} \<union>
      tunnel_name T i ` PodName ` set (peers nw (myPodName r)) \<and>
    (\<forall>k \<in> dom (view (kernel n)) \<inter> dom (view (kernel n')). view (kernel n') k = view (kernel n) k) \<and>
    (\<forall>k \<in> dom (view (kernel n')) - dom (view (kernel n)). \<exists>me b t. own_entry nw (myPodName r) = Some me \<and>
       b \<in> set (peers nw (myPodName r)) \<and> k = tunnel_name T i (PodName b) \<and> view (kernel n') k = Some (Some t) \<and>
       Iptun_Local t = ParseIP (PodIP me) \<and> Iptun_Remote t = ParseIP (PodIP b) \<and>
       EncapSport t = word_of_int (Port (nw_Spec nw)) \<and> EncapDport t = word_of_int (Port (nw_Spec nw)))"
proof (intro conjI ballI)
  note after = links_reconcile_tunnel [OF V T id got run]
  show "dom (view (kernel n')) = {k \<in> dom (view (kernel n)). \<not> strings_HasPrefix k (own_prefix r nw)} \<union>
      tunnel_name T i ` PodName ` set (peers nw (myPodName r))"
    using after(2) by (simp add: wanted_links_def)
  show "view (kernel n') k = view (kernel n) k" if "k \<in> dom (view (kernel n)) \<inter> dom (view (kernel n'))" for k
    using that unfolding after(1) links_after_def by (auto split: if_splits option.splits)
  fix k
  assume k: "k \<in> dom (view (kernel n')) - dom (view (kernel n))"
  then obtain li where li: "map_of (fst (target_links T r nw)) k = Some li" "view (kernel n') k = Some (Some (tunnel_device nw k li))"
    unfolding after(1) links_after_def by (auto split: if_splits option.splits)
  from target_links_eq [OF T id] li(1) obtain me where me: "own_entry nw (myPodName r) = Some me"
    and m: "map_of (rev (map (\<lambda>a. (tunnel_name T i (PodName a), link_to me a)) (peers nw (myPodName r)))) k = Some li"
    by (auto split: option.splits)
  from map_of_SomeD [OF m] obtain b where "b \<in> set (peers nw (myPodName r))" "k = tunnel_name T i (PodName b)" "li = link_to me b"
    by auto
  with me li(2) show "\<exists>me b t. own_entry nw (myPodName r) = Some me \<and>
       b \<in> set (peers nw (myPodName r)) \<and> k = tunnel_name T i (PodName b) \<and> view (kernel n') k = Some (Some t) \<and>
       Iptun_Local t = ParseIP (PodIP me) \<and> Iptun_Remote t = ParseIP (PodIP b) \<and>
       EncapSport t = word_of_int (Port (nw_Spec nw)) \<and> EncapDport t = word_of_int (Port (nw_Spec nw))"
    by (intro exI [of _ me] exI [of _ b] exI [of _ "tunnel_device nw k li"]) (simp add: link_to_def tunnel_device_def)
qed

text \<open>The stale tunnel is gone, the one to the router is there with its ends.\<close>

theorem tunnel_links_exact_witness:
  "\<exists>n' t. reconcile_tunnel spread_pkg list_netlink one_network ''ns'' ''net'' (fresh_sidecar ''b'') pair_world stale_node
       = Returns (finished, pair_sidecar, pair_world, n') \<and>
     dom (map_of (kernel n')) = {''eth0'', ''oA_aaaaaaaa''} \<and> map_of (kernel n') ''oA_aaaaaaaa'' = Some (Some t) \<and>
     Iptun_Local t = ParseIP ''172.16.0.2'' \<and> Iptun_Remote t = ParseIP ''172.16.0.1''"
proof -
  obtain n' where run: "reconcile_tunnel spread_pkg list_netlink one_network ''ns'' ''net'' (fresh_sidecar ''b'') pair_world stale_node
     = Returns (finished, pair_sidecar, pair_world, n')" using pair_run by blast
  have pre: "own_prefix (fresh_sidecar ''b'') demo_pair = ''oA_''" using rune_A by (simp add: own_prefix_def pair_id)
  have me: "own_entry demo_pair (myPodName (fresh_sidecar ''b'')) = Some (demo_end ''b'' ''172.16.0.2'' ''10.0.0.2'')"
    "peers demo_pair (myPodName (fresh_sidecar ''b'')) = [demo_end ''a'' ''172.16.0.1'' ''10.0.0.1'']"
    by (simp_all add: own_entry_def peers_def demo_end_def fresh_sidecar_def)
  have nm: "tunnel_name spread_pkg 65 ''a'' = ''oA_aaaaaaaa''"
    using rune_A by (simp add: tunnel_name_def spread_pkg_def)
  have old: "dom (map_of (kernel stale_node)) = {''eth0'', ''oA_zzzzzzzz''}" by (auto simp: stale_node_def)
  note all = tunnel_links_exact [OF list_netlink_ok spread_pkg_ok pair_id(1) pair_world_read run, unfolded pre me old]
  have "{k \<in> {''eth0'', ''oA_zzzzzzzz''}. \<not> strings_HasPrefix k ''oA_''} = {''eth0''}" by (auto simp: strings_HasPrefix_def)
  then have dom: "dom (map_of (kernel n')) = {''eth0'', ''oA_aaaaaaaa''}"
    unfolding conjunct1 [OF all] by (auto simp: demo_end_def nm)
  have new: "''oA_aaaaaaaa'' \<in> dom (map_of (kernel n')) - {''eth0'', ''oA_zzzzzzzz''}" using dom by simp
  from bspec [OF conjunct2 [OF conjunct2 [OF all]] this] have "\<exists>t. map_of (kernel n') ''oA_aaaaaaaa'' = Some (Some t) \<and>
     Iptun_Local t = ParseIP ''172.16.0.2'' \<and> Iptun_Remote t = ParseIP ''172.16.0.1''"
    by (auto simp: demo_end_def)
  with run dom show ?thesis by blast
qed

text \<open>Reconciling tunnels is idempotent. When a successful reconciliation is followed by another one
  of the same network, with the kernel as the first left it, the second one adds no link and deletes
  none, whatever else happens to it.\<close>

lemma tunnel_links_stable:
  assumes V: "kernel_links_ok N view" and T: "tunnel_pkg_ok T"
    and got: "read_env (kGetNetwork K ns name) w = (Inr nw, w1)"
    and run: "reconcile_tunnel T N K ns name r w n = Returns (finished, r', w', n')"
    and got2: "read_env (kGetNetwork K ns name) w2 = (Inr nw, w3)"
    and run2: "reconcile_tunnel T N K ns name r' w2 n' = Returns (res, r2, w4, n2)"
  shows "\<exists>cs. commands n2 = commands n' @ cs \<and> added_names cs = [] \<and> deleted_links cs = []"
proof -
  obtain i r1 where id: "getNetworkId r nw = (i, r1)" by fastforce
  note first = links_reconcile_tunnel(2,3) [OF V T id got run]
  have id': "getNetworkId r' nw = (i, r1)" using first getNetworkId_again [OF id] by simp
  have "myPodName r' = myPodName r" using first id by (auto elim: getNetworkId_cases)
  moreover have "own_prefix r' nw = own_prefix r nw" using own_prefix_eq [OF id] own_prefix_eq [OF id'] by simp
  moreover have "strings_HasPrefix k (own_prefix r nw)" if "k \<in> wanted_links T i nw (myPodName r)" for k
    using wanted_links_prefix [OF that] own_prefix_eq [OF id] by simp
  ultimately show ?thesis
    using first(1) by (intro reconcile_tunnel_idle [OF V T id' got2 _ run2]) auto
qed

end
