(* ===== verification/RouteState.thy ===== *)
theory RouteState
  imports LinkState
begin

text \<open>
  The routes in the kernel after a reconciliation. \<open>TunnelRoutes\<close> states which commands are sent; here the
  kernel's part is a hypothesis, \<open>kernel_routes_ok\<close>: what it lists for a link and what adding and
  deleting a route does to that list. Only IPv4 routes are listed, so the networks have to be IPv4.
\<close>

section \<open>What the kernel promises\<close>

text \<open>The kernel lists an added route with the same data, an address possibly in its other length.\<close>

definition like :: "Route \<Rightarrow> Route \<Rightarrow> bool" where
  "like r q \<longleftrightarrow> rt_LinkIndex q = rt_LinkIndex r \<and> rt_Scope q = rt_Scope r \<and>
     (\<exists>d e. rt_Dst r = Some d \<and> rt_Dst q = Some e \<and> netEqual e d \<and> IP_Equal (net_IP d) (net_IP e)) \<and>
     IP_Equal (rt_Src q) (rt_Src r) \<and> IP_Equal (rt_Gw r) (rt_Gw q)"

definition v4_net :: "ipnet \<Rightarrow> bool" where
  "v4_net d \<longleftrightarrow> snd (Mask_Size (net_Mask d)) = 32"

definition v4_route :: "Route \<Rightarrow> bool" where
  "v4_route r \<longleftrightarrow> (\<exists>d. rt_Dst r = Some d \<and> v4_net d)"

text \<open>
  \<open>idx\<close> gives the indices of the links by name, \<open>rts\<close> the IPv4 routes of a link by index. Reading
  changes neither; a route that could not be added or deleted leaves the routes as they were. The
  list may contain default routes, which have no destination.
\<close>

definition keeps :: "('k \<Rightarrow> 'x) \<Rightarrow> ('k \<Rightarrow> 'a \<times> 'k) \<Rightarrow> bool" where
  "keeps g f \<longleftrightarrow> (\<forall>k. g (snd (f k)) = g k)"

definition kernel_routes_ok :: "'k netlink \<Rightarrow> ('k \<Rightarrow> string \<Rightarrow> int option) \<Rightarrow> ('k \<Rightarrow> int \<Rightarrow> Route set) \<Rightarrow> bool" where
  "kernel_routes_ok N idx rts \<longleftrightarrow> SCOPE_LINK N \<noteq> 0 \<and>
     (\<forall>k a b i. idx k a = Some i \<longrightarrow> idx k b = Some i \<longrightarrow> a = b) \<and>
     keeps (\<lambda>k. (idx k, rts k)) (nl_LinkList N) \<and> (\<forall>f. keeps (\<lambda>k. (idx k, rts k)) (nl_FouList N f)) \<and>
     (\<forall>nm. keeps (\<lambda>k. (idx k, rts k)) (nl_LinkByName N nm)) \<and> (\<forall>l f. keeps (\<lambda>k. (idx k, rts k)) (nl_RouteList N l f)) \<and>
     (\<forall>nm k l k'. nl_LinkByName N nm k = (Inr l, k') \<longrightarrow> idx k nm = Some (attr_Index l)) \<and>
     (\<forall>l k rs k'. nl_RouteList N l (FAMILY_V4 N) k = (Inr rs, k') \<longrightarrow>
        set rs = rts k (attr_Index l) \<and> (\<forall>r \<in> set rs. rt_LinkIndex r = attr_Index l)) \<and>
     (\<forall>r k e k'. nl_do N (RouteAdd r) k = (e, k') \<longrightarrow> idx k' = idx k \<and>
        (e \<noteq> None \<longrightarrow> rts k' = rts k) \<and> (e = None \<longrightarrow> v4_route r \<longrightarrow>
           (\<exists>q. like r q \<and> rts k' = (rts k)(rt_LinkIndex r := insert q (rts k (rt_LinkIndex r)))))) \<and>
     (\<forall>r k e k'. nl_do N (RouteDel r) k = (e, k') \<longrightarrow> idx k' = idx k \<and>
        rts k' = (if e = None then (rts k)(rt_LinkIndex r := rts k (rt_LinkIndex r) - {r}) else rts k))"

lemma kernel_routes_okD:
  assumes "kernel_routes_ok N idx rts"
  shows "SCOPE_LINK N \<noteq> 0" "idx k a = Some i \<Longrightarrow> idx k b = Some i \<Longrightarrow> a = b"
    "nl_LinkByName N nm k = (Inr l, k') \<Longrightarrow> idx k nm = Some (attr_Index l)"
    "nl_RouteList N l (FAMILY_V4 N) k = (Inr rs, k') \<Longrightarrow> set rs = rts k (attr_Index l)"
    "nl_RouteList N l (FAMILY_V4 N) k = (Inr rs, k') \<Longrightarrow> r \<in> set rs \<Longrightarrow> rt_LinkIndex r = attr_Index l"
proof -
  note law = assms [unfolded kernel_routes_ok_def]
  show "SCOPE_LINK N \<noteq> 0" using law by simp
  show "idx k a = Some i \<Longrightarrow> idx k b = Some i \<Longrightarrow> a = b" using law by metis
  show "nl_LinkByName N nm k = (Inr l, k') \<Longrightarrow> idx k nm = Some (attr_Index l)" using law by metis
  show "nl_RouteList N l (FAMILY_V4 N) k = (Inr rs, k') \<Longrightarrow> set rs = rts k (attr_Index l)" using law by metis
  show "nl_RouteList N l (FAMILY_V4 N) k = (Inr rs, k') \<Longrightarrow> r \<in> set rs \<Longrightarrow> rt_LinkIndex r = attr_Index l"
    using law by metis
qed

lemma keeps_read:
  assumes "keeps (\<lambda>k. (idx k, rts k)) f" and "nl_read f n = (a, n')"
  shows "idx (kernel n') = idx (kernel n)" "rts (kernel n') = rts (kernel n)"
proof -
  have "(idx (snd (f (kernel n))), rts (snd (f (kernel n)))) = (idx (kernel n), rts (kernel n))"
    using assms(1) unfolding keeps_def by blast
  with assms(2) show "idx (kernel n') = idx (kernel n)" "rts (kernel n') = rts (kernel n)"
    by (auto simp: nl_read_def split: prod.splits)
qed

lemma routes_reads:
  assumes "kernel_routes_ok N idx rts"
  shows "keeps (\<lambda>k. (idx k, rts k)) (nl_LinkList N)" "keeps (\<lambda>k. (idx k, rts k)) (nl_FouList N f)"
    "keeps (\<lambda>k. (idx k, rts k)) (nl_LinkByName N nm)" "keeps (\<lambda>k. (idx k, rts k)) (nl_RouteList N l f)"
  using assms unfolding kernel_routes_ok_def by simp_all

lemmas routes_read = keeps_read [OF routes_reads(1)] keeps_read [OF routes_reads(2)]
  keeps_read [OF routes_reads(3)] keeps_read [OF routes_reads(4)]

lemma routes_del:
  assumes "kernel_routes_ok N idx rts" and "nl_exec N (RouteDel r) n = (None, n')"
  shows "idx (kernel n') = idx (kernel n)"
    "rts (kernel n') = (rts (kernel n))(rt_LinkIndex r := rts (kernel n) (rt_LinkIndex r) - {r})"
proof -
  obtain k' where "nl_do N (RouteDel r) (kernel n) = (None, k')" "kernel n' = k'"
    using assms(2) by (auto simp: nl_exec_def split: prod.splits)
  then show "idx (kernel n') = idx (kernel n)"
    "rts (kernel n') = (rts (kernel n))(rt_LinkIndex r := rts (kernel n) (rt_LinkIndex r) - {r})"
    using assms(1) unfolding kernel_routes_ok_def by auto
qed

lemma routes_add_one:
  assumes "kernel_routes_ok N idx rts" and "nl_exec N (RouteAdd r) n = (None, n')" and "v4_route r"
  obtains q where "idx (kernel n') = idx (kernel n)" "like r q"
    "rts (kernel n') = (rts (kernel n))(rt_LinkIndex r := insert q (rts (kernel n) (rt_LinkIndex r)))"
proof -
  obtain k' where k: "nl_do N (RouteAdd r) (kernel n) = (None, k')" "kernel n' = k'"
    using assms(2) by (auto simp: nl_exec_def split: prod.splits)
  have "\<forall>r k e k'. nl_do N (RouteAdd r) k = (e, k') \<longrightarrow> idx k' = idx k \<and>
        (e \<noteq> None \<longrightarrow> rts k' = rts k) \<and> (e = None \<longrightarrow> v4_route r \<longrightarrow>
           (\<exists>q. like r q \<and> rts k' = (rts k)(rt_LinkIndex r := insert q (rts k (rt_LinkIndex r)))))"
    using assms(1) unfolding kernel_routes_ok_def by blast
  with k assms(3) that show thesis by metis
qed

section \<open>One link\<close>

text \<open>
  The routes a link is to have: one to its own network or peer (\<open>own\<close>), for every target one that counts
  as it, and no others. What counts as a target is decided by \<open>matches\<close>: same gateway, mask of the same size.
\<close>

definition routed :: "'k netlink \<Rightarrow> ipnet \<Rightarrow> string \<Rightarrow> routeState set \<Rightarrow> Route set \<Rightarrow> bool" where
  "routed N own src TS R \<longleftrightarrow> (\<exists>q \<in> R. owned_route N q own src) \<and>
     (\<forall>q \<in> R. owned_route N q own src \<or> (\<exists>t \<in> TS. matches q t)) \<and>
     (\<forall>t \<in> TS. \<exists>q \<in> R. \<not> owned_route N q own src \<and> matches q t)"

lemma routes_sweep:
  assumes V: "kernel_routes_ok N idx rts" and T: "tunnel_pkg_ok T"
  shows "sweep_routes T N own src ts routes f0 p0 n = Returns (None, f, p, n') \<Longrightarrow>
    \<forall>r \<in> set routes. rt_LinkIndex r = i \<Longrightarrow>
    idx (kernel n') = idx (kernel n) \<and>
    rts (kernel n') = (rts (kernel n))(i := {r \<in> rts (kernel n) i. r \<in> set routes \<longrightarrow>
      owned_route N r own src \<or> (\<exists>t \<in> set ts. matches r t)}) \<and>
    (f \<longleftrightarrow> f0 \<or> (\<exists>r \<in> set routes. owned_route N r own src)) \<and>
    set p = set p0 \<union> {t. \<exists>r \<in> set routes. \<not> owned_route N r own src \<and> find (matches r) ts = Some t}"
proof (induction routes arbitrary: f0 p0 n)
  case Nil
  then show ?case by simp
next
  case (Cons r routes)
  then have d: "rt_LinkIndex r = i" and rest: "\<forall>r \<in> set routes. rt_LinkIndex r = i" by simp_all
  have np: "\<not> panics_on N ts r" using Cons.prems(1) by (auto simp: sweep_routes_Cons [OF T])
  let ?run = "sweep_routes T N own src ts"
  consider (owned) "owned_route N r own src" | (gone) "\<not> owned_route N r own src" "find (matches r) ts = None"
    | (kept) t where "\<not> owned_route N r own src" "find (matches r) ts = Some t" by fastforce
  then show ?case
  proof cases
    case owned
    with np Cons.prems(1) have "?run routes True p0 n = Returns (None, f, p, n')" by (simp add: sweep_routes_Cons [OF T])
    from Cons.IH [OF this rest] owned show ?thesis by (auto simp: fun_upd_def fun_eq_iff)
  next
    case gone
    then obtain n1 where ex: "nl_exec N (RouteDel r) n = (None, n1)" and go: "?run routes f0 p0 n1 = Returns (None, f, p, n')"
      using np Cons.prems(1) by (auto simp: sweep_routes_Cons [OF T] split: prod.splits option.splits)
    have no: "\<not> (\<exists>t \<in> set ts. matches r t)" using gone(2) by (simp add: find_None_iff)
    from Cons.IH [OF go rest] routes_del [OF V ex] gone no d show ?thesis
      by (auto simp: fun_upd_def fun_eq_iff)
  next
    case (kept t)
    have m: "\<exists>t \<in> set ts. matches r t" using kept(2) by (auto simp: find_Some_iff)
    from kept np Cons.prems(1) have "?run routes f0 (p0 @ [t]) n = Returns (None, f, p, n')"
      by (simp add: sweep_routes_Cons [OF T])
    from Cons.IH [OF this rest] kept m show ?thesis by (auto simp: fun_upd_def fun_eq_iff)
  qed
qed

lemma route_for_simps [simp]:
  "rt_LinkIndex (route_for N link src t) = attr_Index link" "v4_route (route_for N link src t) \<longleftrightarrow> v4_net (rs_net t)"
  by (simp_all add: route_for_def v4_route_def)

lemma owned_add_simps [simp]:
  "rt_LinkIndex (owned_add N link net src) = attr_Index link" "v4_route (owned_add N link net src) \<longleftrightarrow> v4_net net"
  by (simp_all add: owned_add_def v4_route_def)

lemma like_route_for:
  assumes "SCOPE_LINK N \<noteq> 0" and "like (route_for N link src t) q"
  shows "matches q t" "\<not> owned_route N q own src'"
  using assms by (auto simp: like_def route_for_def matches_def owned_route_def)

lemma like_owned_add: "like (owned_add N link net src) q \<Longrightarrow> owned_route N q net src"
  by (auto simp: like_def owned_add_def owned_route_def)

text \<open>The routes added for the targets that are not covered yet.\<close>

lemma routes_add:
  assumes V: "kernel_routes_ok N idx rts" and T: "tunnel_pkg_ok T"
  shows "add_routes T N link src p ts n = (None, n') \<Longrightarrow> \<forall>t \<in> set ts. v4_net (rs_net t) \<Longrightarrow>
    idx (kernel n') = idx (kernel n) \<and>
    (\<exists>A. rts (kernel n') = (rts (kernel n))(attr_Index link := rts (kernel n) (attr_Index link) \<union> A) \<and>
       (\<forall>q \<in> A. \<exists>t \<in> set ts. like (route_for N link src t) q) \<and>
       (\<forall>t \<in> set ts. covered p t \<or> (\<exists>q \<in> A. like (route_for N link src t) q)))"
proof (induction ts arbitrary: n)
  case Nil
  then show ?case by (intro conjI exI [of _ "{}"]) (auto simp: fun_eq_iff)
next
  case (Cons t ts)
  have c: "lo_ContainsBy (tl_route T) p (\<lambda>p. netEqual (rs_net p) (rs_net t) \<and> IP_Equal (rs_router t) (rs_router p)) = covered p t"
    by (simp add: lo_slice_okD(3) [OF tunnel_pkg_okD(3) [OF T]] covered_def)
  have v4: "\<forall>t \<in> set ts. v4_net (rs_net t)" "v4_net (rs_net t)" using Cons.prems(2) by simp_all
  show ?case
  proof (cases "covered p t")
    case True
    with Cons.prems c have "add_routes T N link src p ts n = (None, n')" by simp
    from Cons.IH [OF this v4(1)] True show ?thesis by fastforce
  next
    case False
    then obtain n1 where ex: "nl_exec N (RouteAdd (route_for N link src t)) n = (None, n1)"
      and go: "add_routes T N link src p ts n1 = (None, n')"
      using Cons.prems(1) c by (auto simp: route_for_def split: prod.splits option.splits)
    obtain q where q: "idx (kernel n1) = idx (kernel n)" "like (route_for N link src t) q"
      "rts (kernel n1) = (rts (kernel n))(attr_Index link := insert q (rts (kernel n) (attr_Index link)))"
      using routes_add_one [OF V ex] v4(2) by auto
    obtain A where A: "idx (kernel n') = idx (kernel n1)"
      "rts (kernel n') = (rts (kernel n1))(attr_Index link := rts (kernel n1) (attr_Index link) \<union> A)"
      "\<forall>q \<in> A. \<exists>t \<in> set ts. like (route_for N link src t) q"
      "\<forall>t \<in> set ts. covered p t \<or> (\<exists>q \<in> A. like (route_for N link src t) q)"
      using Cons.IH [OF go v4(1)] by blast
    show ?thesis using q A by (intro conjI exI [of _ "insert q A"]) auto
  qed
qed

lemma covered_match:
  assumes "covered p t" and "length (rs_router t) = 16" and "\<forall>s \<in> set p. length (rs_router s) = 16"
  shows "\<exists>s \<in> set p. \<forall>q. matches q s \<longrightarrow> matches q t"
proof -
  obtain s where s: "s \<in> set p" "netEqual (rs_net s) (rs_net t)" "IP_Equal (rs_router t) (rs_router s)"
    using assms(1) by (auto simp: covered_def)
  with assms(2,3) have "rs_router t = rs_router s" by (simp add: IP_Equal_def)
  with s show ?thesis by (auto simp: matches_def netEqual_iff)
qed

lemma owned_net_v4: "isRouter \<or> v4_net net \<Longrightarrow> v4_net (owned_net isRouter net li)"
  by (cases isRouter) (simp_all add: owned_net_def v4_net_def Mask_Size_def CIDRMask_def mask_bytes_numeral)

text \<open>The body of the loop over the links, once link, routes and network have been read.\<close>

lemma link_routes_success:
  assumes cidr: "ParseCIDR (AllocatableCIDR (nw_Spec nw)) = Some (a, net)"
    and run: "link_routes T N nw isRouter nm li ts n = Returns (None, ts', n')"
  obtains link n1 routes n2 f p n3 n4 where
    "nl_read (nl_LinkByName N nm) n = (Inr link, n1)" "nl_read (nl_RouteList N link (FAMILY_V4 N)) n1 = (Inr routes, n2)"
    "sweep_routes T N (owned_net isRouter net li) (InTunnelLocalIP li) (grown_routes nw isRouter ts) routes False [] n2
       = Returns (None, f, p, n3)"
    "if f then n4 = n3 else nl_exec N (RouteAdd (owned_add N link (owned_net isRouter net li) (InTunnelLocalIP li))) n3 = (None, n4)"
    "add_routes T N link (InTunnelLocalIP li) p (grown_routes nw isRouter ts) n4 = (None, n')"
    "ts' = grown_routes nw isRouter ts"
proof -
  obtain l n1 where l: "nl_read (nl_LinkByName N nm) n = (l, n1)" by fastforce
  then obtain link where link: "l = Inr link" using run by (cases l) (auto simp: link_routes_def)
  obtain g n2 where g: "nl_read (nl_RouteList N link (FAMILY_V4 N)) n1 = (g, n2)" by fastforce
  then obtain routes where routes: "g = Inr routes" using run l link by (cases g) (auto simp: link_routes_def)
  note body = link_routes_run [OF cidr l [unfolded link] g [unfolded routes], of T isRouter li ts, unfolded run]
  obtain e3 f p n3 where sw: "sweep_routes T N (owned_net isRouter net li) (InTunnelLocalIP li) (grown_routes nw isRouter ts) routes False [] n2
       = Returns (e3, f, p, n3)" using body [symmetric] by (auto simp: bind_outcome_eq_Returns)
  have e3: "e3 = None" using body sw by (cases e3) auto
  obtain e4 n4 where ow: "(if \<not> f then add_owned N link (owned_net isRouter net li) (InTunnelLocalIP li) n3 else (None, n3)) = (e4, n4)"
    by fastforce
  have e4: "e4 = None" using body sw e3 ow by (cases e4) auto
  obtain e5 n5 where ad: "add_routes T N link (InTunnelLocalIP li) p (grown_routes nw isRouter ts) n4 = (e5, n5)" by fastforce
  have "e5 = None" "n5 = n'" "ts' = grown_routes nw isRouter ts" using body sw e3 ow e4 ad by simp_all
  moreover have "if f then n4 = n3
      else nl_exec N (RouteAdd (owned_add N link (owned_net isRouter net li) (InTunnelLocalIP li))) n3 = (None, n4)"
    using ow e4 by (cases f) (simp_all add: add_owned_def owned_add_def)
  ultimately show thesis using that l link g routes sw e3 ad by blast
qed

lemma routes_link_routes:
  assumes V: "kernel_routes_ok N idx rts" and T: "tunnel_pkg_ok T"
    and cidr: "ParseCIDR (AllocatableCIDR (nw_Spec nw)) = Some (a, net)" "isRouter \<or> v4_net net"
    and ts: "\<forall>t \<in> set (grown_routes nw isRouter ts). v4_net (rs_net t) \<and> length (rs_router t) = 16"
    and run: "link_routes T N nw isRouter nm li ts n = Returns (None, ts', n')"
  obtains i where "idx (kernel n) nm = Some i" "idx (kernel n') = idx (kernel n)"
    "\<And>j. j \<noteq> i \<Longrightarrow> rts (kernel n') j = rts (kernel n) j" "ts' = grown_routes nw isRouter ts"
    "routed N (owned_net isRouter net li) (InTunnelLocalIP li) (set (grown_routes nw isRouter ts)) (rts (kernel n') i)"
  using cidr(1) run
proof (rule link_routes_success)
  let ?ts = "grown_routes nw isRouter ts" and ?own = "owned_net isRouter net li" and ?src = "InTunnelLocalIP li"
  fix link n1 routes n2 f p n3 n4
  assume s: "nl_read (nl_LinkByName N nm) n = (Inr link, n1)" "nl_read (nl_RouteList N link (FAMILY_V4 N)) n1 = (Inr routes, n2)"
    "sweep_routes T N ?own ?src ?ts routes False [] n2 = Returns (None, f, p, n3)"
    "if f then n4 = n3 else nl_exec N (RouteAdd (owned_add N link ?own ?src)) n3 = (None, n4)"
    "add_routes T N link ?src p ?ts n4 = (None, n')" "ts' = ?ts"
  let ?i = "attr_Index link" and ?R = "rts (kernel n) (attr_Index link)"
  have n2: "idx (kernel n2) = idx (kernel n)" "rts (kernel n2) = rts (kernel n)"
    using routes_read(5,6) [OF V s(1)] routes_read(7,8) [OF V s(2)] by simp_all
  have nm: "idx (kernel n) nm = Some ?i"
    using s(1) kernel_routes_okD(3) [OF V] by (auto simp: nl_read_def split: prod.splits)
  obtain k' where list: "nl_RouteList N link (FAMILY_V4 N) (kernel n1) = (Inr routes, k')"
    using s(2) by (auto simp: nl_read_def split: prod.splits)
  have R: "set routes = ?R" using kernel_routes_okD(4) [OF V list] routes_read(6) [OF V s(1)] by simp
  have ok: "\<forall>r \<in> set routes. rt_LinkIndex r = ?i" using kernel_routes_okD(5) [OF V list] by blast
  note sw = routes_sweep [OF V T s(3) ok, unfolded n2 R]
  let ?kept = "{r \<in> ?R. owned_route N r ?own ?src \<or> (\<exists>t \<in> set ?ts. matches r t)}"
  have n3: "idx (kernel n3) = idx (kernel n)" "rts (kernel n3) = (rts (kernel n))(?i := ?kept)"
    "f \<longleftrightarrow> (\<exists>r \<in> ?R. owned_route N r ?own ?src)" "set p = {t. \<exists>r \<in> ?R. \<not> owned_route N r ?own ?src \<and> find (matches r) ?ts = Some t}"
    using sw by (auto simp: fun_upd_def fun_eq_iff)
  obtain B where n4: "idx (kernel n4) = idx (kernel n)" "rts (kernel n4) = (rts (kernel n))(?i := ?kept \<union> B)"
    "\<forall>q \<in> B. owned_route N q ?own ?src" "\<exists>q \<in> ?kept \<union> B. owned_route N q ?own ?src"
  proof (cases f)
    case True
    with s(4) n3 show thesis by (intro that [of "{}"]) auto
  next
    case False
    with s(4) have "nl_exec N (RouteAdd (owned_add N link ?own ?src)) n3 = (None, n4)" by simp
    moreover have "v4_route (owned_add N link ?own ?src)" using owned_net_v4 [OF cidr(2)] by simp
    ultimately obtain q where q: "idx (kernel n4) = idx (kernel n3)" "like (owned_add N link ?own ?src) q"
      "rts (kernel n4) = (rts (kernel n3))(?i := insert q (rts (kernel n3) ?i))"
      by (rule routes_add_one [OF V]) simp
    show thesis by (rule that [of "{q}"]) (use q n3 like_owned_add [OF q(2)] in auto)
  qed
  have v4: "\<forall>t \<in> set ?ts. v4_net (rs_net t)" using ts by blast
  obtain A where A: "idx (kernel n') = idx (kernel n)" "rts (kernel n') = (rts (kernel n))(?i := ?kept \<union> B \<union> A)"
    "\<forall>q \<in> A. \<exists>t \<in> set ?ts. like (route_for N link ?src t) q" "\<forall>t \<in> set ?ts. covered p t \<or> (\<exists>q \<in> A. like (route_for N link ?src t) q)"
    using routes_add [OF V T s(5) v4] n4(1,2) by auto
  note like = like_route_for [OF kernel_routes_okD(1) [OF V]]
  have p: "t \<in> set ?ts \<and> (\<exists>q \<in> ?kept. \<not> owned_route N q ?own ?src \<and> matches q t)" if "t \<in> set p" for t
    using that unfolding n3(4) by (auto simp: find_Some_iff)
  have "\<exists>q \<in> ?kept \<union> B \<union> A. \<not> owned_route N q ?own ?src \<and> matches q t" if t: "t \<in> set ?ts" for t
  proof (cases "covered p t")
    case True
    have "\<forall>s \<in> set p. length (rs_router s) = 16" using p ts by blast
    with covered_match [OF True] ts t obtain s where "s \<in> set p" "\<forall>q. matches q s \<longrightarrow> matches q t" by blast
    with p show ?thesis by blast
  next
    case False
    with A(4) t like show ?thesis by blast
  qed
  moreover have "owned_route N q ?own ?src \<or> (\<exists>t \<in> set ?ts. matches q t)" if "q \<in> ?kept \<union> B \<union> A" for q
    using that n4(3) A(3) like by blast
  ultimately have "routed N ?own ?src (set ?ts) (?kept \<union> B \<union> A)" using n4(4) unfolding routed_def by blast
  with nm A(1,2) s(6) show thesis by (intro that [of ?i]) simp_all
qed

text \<open>A link that has its routes is left alone.\<close>

lemma sweep_routes_idle:
  assumes T: "tunnel_pkg_ok T"
  shows "\<forall>r \<in> set routes. owned_route N r own src \<or> (\<exists>t \<in> set ts. matches r t) \<Longrightarrow>
    \<exists>p. sweep_routes T N own src ts routes f0 p0 n = Returns (None, f0 \<or> (\<exists>r \<in> set routes. owned_route N r own src), p0 @ p, n) \<and>
      set p = {t. \<exists>r \<in> set routes. \<not> owned_route N r own src \<and> find (matches r) ts = Some t}"
proof (induction routes arbitrary: f0 p0)
  case (Cons r routes)
  then have rest: "\<forall>r \<in> set routes. owned_route N r own src \<or> (\<exists>t \<in> set ts. matches r t)"
    by simp_all
  have np: "\<not> panics_on N ts r" using Cons.prems by (auto simp: panics_on_def owned_route_def matches_def)
  show ?case
  proof (cases "owned_route N r own src")
    case True
    with np Cons.IH [OF rest, of True p0] show ?thesis by (auto simp: sweep_routes_Cons [OF T])
  next
    case False
    then obtain t where t: "find (matches r) ts = Some t"
      using Cons.prems by (cases "find (matches r) ts") (auto simp: find_None_iff)
    obtain p where "sweep_routes T N own src ts routes f0 (p0 @ [t]) n
        = Returns (None, f0 \<or> (\<exists>r \<in> set routes. owned_route N r own src), (p0 @ [t]) @ p, n)"
      "set p = {t. \<exists>r \<in> set routes. \<not> owned_route N r own src \<and> find (matches r) ts = Some t}"
      using Cons.IH [OF rest, of f0 "p0 @ [t]"] by blast
    with False np t show ?thesis
      by (intro exI [of _ "t # p"]) (auto simp: sweep_routes_Cons [OF T])
  qed
qed simp

lemma add_routes_idle: "tunnel_pkg_ok T \<Longrightarrow> \<forall>t \<in> set ts. covered p t \<Longrightarrow> add_routes T N link src p ts n = (None, n)"
  by (induction ts) (auto simp: lo_slice_okD(3) [OF tunnel_pkg_okD(3)] covered_def)

lemma link_routes_idle:
  assumes V: "kernel_routes_ok N idx rts" and T: "tunnel_pkg_ok T" and cidr: "ParseCIDR (AllocatableCIDR (nw_Spec nw)) = Some (a, net)"
    and len: "\<forall>t \<in> set (grown_routes nw isRouter ts). length (rs_router t) = 16"
    and i: "idx (kernel n) nm = Some i"
    and R: "routed N (owned_net isRouter net li) (InTunnelLocalIP li) (set (grown_routes nw isRouter ts)) (rts (kernel n) i)"
  obtains e ts' n' where "link_routes T N nw isRouter nm li ts n = Returns (e, ts', n')" "commands n' = commands n"
    "idx (kernel n') = idx (kernel n)" "rts (kernel n') = rts (kernel n)" "e = None \<Longrightarrow> ts' = grown_routes nw isRouter ts"
proof -
  let ?ts = "grown_routes nw isRouter ts" and ?own = "owned_net isRouter net li" and ?src = "InTunnelLocalIP li"
  obtain l n1 where l: "nl_read (nl_LinkByName N nm) n = (l, n1)" by fastforce
  note k1 = routes_read(5,6) [OF V l] commands_nl_read [OF l]
  show thesis
  proof (cases l)
    case (Inl err)
    with l k1 show thesis by (intro that [of "Some err" ts n1]) (simp_all add: link_routes_def)
  next
    case link: (Inr link)
    obtain g n2 where g: "nl_read (nl_RouteList N link (FAMILY_V4 N)) n1 = (g, n2)" by fastforce
    note k2 = routes_read(7,8) [OF V g] commands_nl_read [OF g]
    show thesis
    proof (cases g)
      case (Inl err)
      with l link g k1 k2 show thesis by (intro that [of "Some err" ts n2]) (simp_all add: link_routes_def)
    next
      case routes: (Inr routes)
      obtain k' where "nl_LinkByName N nm (kernel n) = (Inr link, k')"
        using l link by (auto simp: nl_read_def split: prod.splits)
      then have idx: "attr_Index link = i" using kernel_routes_okD(3) [OF V] i by fastforce
      obtain k'' where list: "nl_RouteList N link (FAMILY_V4 N) (kernel n1) = (Inr routes, k'')"
        using g routes by (auto simp: nl_read_def split: prod.splits)
      have RR: "set routes = rts (kernel n) i" using kernel_routes_okD(4) [OF V list] k1(2) idx by simp
      have "\<forall>r \<in> set routes. owned_route N r ?own ?src \<or> (\<exists>t \<in> set ?ts. matches r t)"
        using R RR unfolding routed_def by blast
      from sweep_routes_idle [OF T this, of False "[]" n2] obtain p where
        sw: "sweep_routes T N ?own ?src ?ts routes False [] n2 = Returns (None, \<exists>r \<in> set routes. owned_route N r ?own ?src, p, n2)"
        and p: "set p = {t. \<exists>r \<in> set routes. \<not> owned_route N r ?own ?src \<and> find (matches r) ?ts = Some t}" by auto
      have own: "\<exists>r \<in> set routes. owned_route N r ?own ?src" using R RR unfolding routed_def by blast
      have "covered p t" if t: "t \<in> set ?ts" for t
      proof -
        obtain q where q: "q \<in> set routes" "\<not> owned_route N q ?own ?src" "matches q t"
          using R RR t unfolding routed_def by blast
        then obtain s where s: "find (matches q) ?ts = Some s" using t by (cases "find (matches q) ?ts") (auto simp: find_None_iff)
        then have "s \<in> set ?ts" "matches q s" by (auto simp: find_Some_iff)
        then have "rs_router t = rs_router s" "netEqual (rs_net s) (rs_net t)"
          using q(3) len t IP_Equal_16 by (auto simp: matches_def netEqual_iff)
        then show ?thesis using q s p unfolding covered_def by auto
      qed
      then have ad: "add_routes T N link ?src p ?ts n2 = (None, n2)" using T by (intro add_routes_idle) simp_all
      show thesis
        using k1 k2 by (intro that [of None ?ts n2])
          (simp_all add: link_routes_run [OF cidr l [unfolded link] g [unfolded routes]] sw own ad)
    qed
  qed
qed

section \<open>All links of a network\<close>

text \<open>The targets of every link, in spite of the list growing from link to link.\<close>

definition all_targets :: "OverlayNetwork \<Rightarrow> bool \<Rightarrow> routeState list \<Rightarrow> routeState set" where
  "all_targets nw isRouter ts = set (grown_routes nw isRouter ts)"

lemma all_targets_grown: "all_targets nw isRouter (grown_routes nw isRouter ts) = all_targets nw isRouter ts"
  by (auto simp: all_targets_def grown_routes_def)

definition links_routed :: "'k netlink \<Rightarrow> ('k \<Rightarrow> string \<Rightarrow> int option) \<Rightarrow> ('k \<Rightarrow> int \<Rightarrow> Route set) \<Rightarrow> bool \<Rightarrow> ipnet \<Rightarrow>
    routeState set \<Rightarrow> (string \<times> LinkInfo) set \<Rightarrow> 'k \<Rightarrow> bool" where
  "links_routed N idx rts isRouter net TS ls k \<longleftrightarrow> (\<forall>(nm, li) \<in> ls. \<exists>i. idx k nm = Some i \<and>
     routed N (owned_net isRouter net li) (InTunnelLocalIP li) TS (rts k i))"

lemma routes_reconcileRoutes:
  assumes V: "kernel_routes_ok N idx rts" and T: "tunnel_pkg_ok T"
    and cidr: "ParseCIDR (AllocatableCIDR (nw_Spec nw)) = Some (a, net)" "isRouter \<or> v4_net net"
  shows "reconcileRoutes T N nw isRouter ls ts n = Returns (None, n') \<Longrightarrow>
    \<forall>t \<in> all_targets nw isRouter ts. v4_net (rs_net t) \<and> length (rs_router t) = 16 \<Longrightarrow>
    \<forall>nm li li'. (nm, li) \<in> set ls \<longrightarrow> (nm, li') \<in> set ls \<longrightarrow> li = li' \<Longrightarrow>
    idx (kernel n') = idx (kernel n) \<and> links_routed N idx rts isRouter net (all_targets nw isRouter ts) (set ls) (kernel n') \<and>
    (\<forall>j. (\<forall>nm \<in> fst ` set ls. idx (kernel n) nm \<noteq> Some j) \<longrightarrow> rts (kernel n') j = rts (kernel n) j)"
proof (induction ls arbitrary: ts n)
  case Nil
  then show ?case by (simp add: links_routed_def)
next
  case (Cons l ls)
  obtain nm li where l: "l = (nm, li)" by (cases l)
  from Cons.prems(1) l obtain ts1 n1 where lr: "link_routes T N nw isRouter nm li ts n = Returns (None, ts1, n1)"
    and rest: "reconcileRoutes T N nw isRouter ls ts1 n1 = Returns (None, n')"
    by (auto simp: bind_outcome_eq_Returns split: if_splits)
  have tgt: "\<forall>t \<in> set (grown_routes nw isRouter ts). v4_net (rs_net t) \<and> length (rs_router t) = 16"
    using Cons.prems(2) by (simp add: all_targets_def)
  obtain i where i: "idx (kernel n) nm = Some i" "idx (kernel n1) = idx (kernel n)"
    "\<And>j. j \<noteq> i \<Longrightarrow> rts (kernel n1) j = rts (kernel n) j" "ts1 = grown_routes nw isRouter ts"
    "routed N (owned_net isRouter net li) (InTunnelLocalIP li) (set (grown_routes nw isRouter ts)) (rts (kernel n1) i)"
    using routes_link_routes [OF V T cidr tgt lr] by metis
  have T1: "all_targets nw isRouter ts1 = all_targets nw isRouter ts" by (simp add: i(4) all_targets_grown)
  have fn: "\<forall>nm li li'. (nm, li) \<in> set ls \<longrightarrow> (nm, li') \<in> set ls \<longrightarrow> li = li'" using Cons.prems(3) by auto
  have IH: "idx (kernel n') = idx (kernel n1)" "links_routed N idx rts isRouter net (all_targets nw isRouter ts) (set ls) (kernel n')"
    "\<forall>j. (\<forall>nm \<in> fst ` set ls. idx (kernel n1) nm \<noteq> Some j) \<longrightarrow> rts (kernel n') j = rts (kernel n1) j"
    using Cons.IH [OF rest _ fn] Cons.prems(2) unfolding T1 by blast+
  have "\<exists>i. idx (kernel n') nm = Some i \<and>
      routed N (owned_net isRouter net li) (InTunnelLocalIP li) (all_targets nw isRouter ts) (rts (kernel n') i)"
  proof (cases "nm \<in> fst ` set ls")
    case True
    then obtain li' where li': "(nm, li') \<in> set ls" by auto
    then have "li' = li" using Cons.prems(3) l by auto
    with IH(2) li' show ?thesis unfolding links_routed_def by blast
  next
    case False
    then have "\<forall>m \<in> fst ` set ls. idx (kernel n1) m \<noteq> Some i"
      using i(1,2) kernel_routes_okD(2) [OF V] by metis
    then have "rts (kernel n') i = rts (kernel n1) i" using IH(3) by blast
    with i IH(1) show ?thesis by (simp add: all_targets_def)
  qed
  moreover have "rts (kernel n') j = rts (kernel n) j" if "\<forall>m \<in> fst ` set (l # ls). idx (kernel n) m \<noteq> Some j" for j
    using that IH(3) i l by auto
  ultimately show ?case using IH(1,2) i(2) l unfolding links_routed_def by auto
qed

lemma reconcileRoutes_idle:
  assumes V: "kernel_routes_ok N idx rts" and T: "tunnel_pkg_ok T" and cidr: "ParseCIDR (AllocatableCIDR (nw_Spec nw)) = Some (a, net)"
  shows "\<forall>t \<in> all_targets nw isRouter ts. length (rs_router t) = 16 \<Longrightarrow>
    links_routed N idx rts isRouter net (all_targets nw isRouter ts) (set ls) (kernel n) \<Longrightarrow>
    \<exists>e n'. reconcileRoutes T N nw isRouter ls ts n = Returns (e, n') \<and> commands n' = commands n"
proof (induction ls arbitrary: ts n)
  case (Cons l ls)
  obtain nm li where l: "l = (nm, li)" by (cases l)
  have tgt: "\<forall>t \<in> set (grown_routes nw isRouter ts). length (rs_router t) = 16"
    using Cons.prems(1) by (simp add: all_targets_def)
  obtain i where i: "idx (kernel n) nm = Some i"
    "routed N (owned_net isRouter net li) (InTunnelLocalIP li) (set (grown_routes nw isRouter ts)) (rts (kernel n) i)"
    using Cons.prems(2) l by (auto simp: links_routed_def all_targets_def)
  obtain e1 ts1 n1 where idle: "link_routes T N nw isRouter nm li ts n = Returns (e1, ts1, n1)" "commands n1 = commands n"
    "idx (kernel n1) = idx (kernel n)" "rts (kernel n1) = rts (kernel n)" "e1 = None \<Longrightarrow> ts1 = grown_routes nw isRouter ts"
    using link_routes_idle [OF V T cidr tgt i] by metis
  show ?case
  proof (cases e1)
    case None
    have "links_routed N idx rts isRouter net (all_targets nw isRouter ts) (set ls) (kernel n1)"
      using Cons.prems(2) idle(3,4) by (simp add: links_routed_def)
    with Cons.IH [of ts1 n1] None idle Cons.prems(1) l show ?thesis by (simp add: all_targets_grown)
  next
    case (Some err)
    with idle l show ?thesis by simp
  qed
qed simp

end
