(* ===== verification/Settled.thy ===== *)
theory Settled
  imports RouteState
begin

text \<open>
  The tunneler settles: after a successful reconciliation the routes of every tunnel are the wanted ones, and
  another reconciliation of the same network sends the kernel nothing. The receivers of the
  tunnels are the third view of the kernel, beside its links and its routes.
\<close>

section \<open>Runs\<close>

text \<open>\<open>runs N A n n'\<close>: from \<open>n\<close> to \<open>n'\<close> the kernel was only read and sent commands that satisfy \<open>A\<close>.\<close>

inductive runs :: "'k netlink \<Rightarrow> (command \<Rightarrow> bool) \<Rightarrow> 'k node \<Rightarrow> 'k node \<Rightarrow> bool" for N A where
  stop: "runs N A n n"
| link_list: "nl_read (nl_LinkList N) n = (ls, n1) \<Longrightarrow> runs N A n1 n' \<Longrightarrow> runs N A n n'"
| by_name: "nl_read (nl_LinkByName N nm) n = (l, n1) \<Longrightarrow> runs N A n1 n' \<Longrightarrow> runs N A n n'"
| route_list: "nl_read (nl_RouteList N link f) n = (rs, n1) \<Longrightarrow> runs N A n1 n' \<Longrightarrow> runs N A n n'"
| fou_list: "nl_read (nl_FouList N f) n = (fs, n1) \<Longrightarrow> runs N A n1 n' \<Longrightarrow> runs N A n n'"
| exec: "nl_exec N c n = (e, n1) \<Longrightarrow> A c \<Longrightarrow> runs N A n1 n' \<Longrightarrow> runs N A n n'"

lemma runs_trans [trans]: "runs N A n1 n2 \<Longrightarrow> runs N A n2 n3 \<Longrightarrow> runs N A n1 n3"
  by (induction rule: runs.induct) (auto intro: runs.intros)

lemmas runs_one = runs.by_name [OF _ runs.stop] runs.route_list [OF _ runs.stop] runs.exec [OF _ _ runs.stop]

fun tunnel_command :: "command \<Rightarrow> bool" where
  "tunnel_command (FouAdd f) = False"
| "tunnel_command (FouDel f) = False"
| "tunnel_command c = True"

lemma tunnel_commands [intro]:
  "tunnel_command (LinkAdd t)" "tunnel_command (LinkDel l)" "tunnel_command (LinkSetUp l)" "tunnel_command (AddrAdd l a)"
  "tunnel_command (RouteAdd r)" "tunnel_command (RouteDel r)"
  by simp_all

lemma runs_configure: "configure_iface N nw nm li isRouter n = (e, n') \<Longrightarrow> runs N tunnel_command n n'"
  unfolding configure_iface_def Let_def
  by (auto split: prod.splits option.splits sum.splits if_splits) (blast intro: runs.stop runs.by_name runs.exec)+

lemma runs_setup: "setupTunnelIface N nw nm li isRouter n = (e, n') \<Longrightarrow> runs N tunnel_command n n'"
  unfolding setupTunnelIface_def
  by (auto split: prod.splits option.splits intro!: runs.stop intro: runs.exec dest: runs_configure)

lemma runs_sweep_links: "sweep_links N pre ls m n = (e, m', n') \<Longrightarrow> runs N tunnel_command n n'"
proof (induction ls arbitrary: m n)
  case (Cons l ls)
  then show ?case
    by (auto split: prod.splits option.splits if_splits intro: runs.stop runs.exec)
qed (simp add: runs.stop)

lemma runs_add_links: "add_links N nw isRouter ls n = (e, n') \<Longrightarrow> runs N tunnel_command n n'"
proof (induction ls arbitrary: n)
  case (Cons l ls)
  obtain nm li where l: "l = (nm, li)" by (cases l)
  obtain e1 n1 where up: "setupTunnelIface N nw nm li isRouter n = (e1, n1)" by fastforce
  with Cons.prems l have "n' = n1 \<or> add_links N nw isRouter ls n1 = (e, n') \<or> add_links N nw isRouter ls n = (e, n')"
    by (auto split: if_splits option.splits)
  with runs_setup [OF up] Cons.IH show ?case by (blast intro: runs_trans)
qed (simp add: runs.stop)

lemma runs_sweep_routes:
  "sweep_routes T N own src ts routes f p n = Returns (e, f', p', n') \<Longrightarrow> runs N tunnel_command n n'"
proof (induction routes arbitrary: f p n)
  case (Cons rt routes)
  then show ?case
    by (auto simp: sweep_routes.simps(2) bind_outcome_eq_Returns split: if_splits option.splits prod.splits intro: runs.stop runs.exec)
qed (simp add: runs.stop)

lemma runs_add_routes: "add_routes T N link src p ts n = (e, n') \<Longrightarrow> runs N tunnel_command n n'"
proof (induction ts arbitrary: n)
  case (Cons t ts)
  then show ?case by (auto split: if_splits option.splits prod.splits intro: runs.stop runs.exec)
qed (simp add: runs.stop)

lemma runs_link_routes:
  assumes "ParseCIDR (AllocatableCIDR (nw_Spec nw)) = Some (a, net)"
    and "link_routes T N nw isRouter nm li ts n = Returns (None, ts', n')"
  shows "runs N tunnel_command n n'"
  using assms
proof (rule link_routes_success)
  fix link n1 routes n2 f p n3 n4
  assume s: "nl_read (nl_LinkByName N nm) n = (Inr link, n1)" "nl_read (nl_RouteList N link (FAMILY_V4 N)) n1 = (Inr routes, n2)"
    "sweep_routes T N (owned_net isRouter net li) (InTunnelLocalIP li) (grown_routes nw isRouter ts) routes False [] n2
       = Returns (None, f, p, n3)"
    "if f then n4 = n3 else nl_exec N (RouteAdd (owned_add N link (owned_net isRouter net li) (InTunnelLocalIP li))) n3 = (None, n4)"
    "add_routes T N link (InTunnelLocalIP li) p (grown_routes nw isRouter ts) n4 = (None, n')"
  have "runs N tunnel_command n n2" using runs.by_name [OF s(1) runs_one(2) [OF s(2)]] .
  also have "runs N tunnel_command n2 n3" using s(3) by (rule runs_sweep_routes)
  also have "runs N tunnel_command n3 n4" using s(4) by (cases f) (auto intro: runs.stop runs_one(3))
  also have "runs N tunnel_command n4 n'" using s(5) by (rule runs_add_routes)
  finally show ?thesis .
qed

lemma runs_reconcileRoutes:
  assumes cidr: "ParseCIDR (AllocatableCIDR (nw_Spec nw)) = Some (a, net)"
  shows "reconcileRoutes T N nw isRouter ls ts n = Returns (None, n') \<Longrightarrow> runs N tunnel_command n n'"
proof (induction ls arbitrary: ts n)
  case (Cons l ls)
  obtain nm li where l: "l = (nm, li)" by (cases l)
  from Cons.prems l obtain ts1 n1 where lr: "link_routes T N nw isRouter nm li ts n = Returns (None, ts1, n1)"
    and rest: "reconcileRoutes T N nw isRouter ls ts1 n1 = Returns (None, n')"
    by (auto simp: bind_outcome_eq_Returns split: if_splits)
  from runs_link_routes [OF cidr lr] Cons.IH [OF rest] show ?case by (rule runs_trans)
qed (simp add: runs.stop)

section \<open>The receivers\<close>

text \<open>\<open>ports\<close> gives the ports on which the kernel receives tunnelled packets.\<close>

fun fou_effect :: "command \<Rightarrow> int set \<Rightarrow> int set" where
  "fou_effect (FouAdd f) P = insert (f_Port f) P"
| "fou_effect (FouDel f) P = P - {f_Port f}"
| "fou_effect c P = P"

definition kernel_fou_ok :: "'k netlink \<Rightarrow> ('k \<Rightarrow> int set) \<Rightarrow> bool" where
  "kernel_fou_ok N ports \<longleftrightarrow> keeps ports (nl_LinkList N) \<and> (\<forall>f. keeps ports (nl_FouList N f)) \<and>
     (\<forall>nm. keeps ports (nl_LinkByName N nm)) \<and> (\<forall>l f. keeps ports (nl_RouteList N l f)) \<and>
     (\<forall>k fs k'. nl_FouList N (FAMILY_V4 N) k = (Inr fs, k') \<longrightarrow> f_Port ` set fs = ports k) \<and>
     (\<forall>c k e k'. nl_do N c k = (e, k') \<longrightarrow> ports k' = (if e = None then fou_effect c (ports k) else ports k))"

lemma kept: "keeps g f \<Longrightarrow> nl_read f n = (a, n') \<Longrightarrow> g (kernel n') = g (kernel n)"
  unfolding keeps_def by (auto simp: nl_read_def split: prod.splits dest: spec [of _ "kernel n"])

lemma fou_kept:
  assumes "kernel_fou_ok N ports"
  shows "keeps ports (nl_LinkList N)" "keeps ports (nl_FouList N f)" "keeps ports (nl_LinkByName N nm)"
    "keeps ports (nl_RouteList N l f)"
  using assms by (simp_all add: kernel_fou_ok_def)

lemma fou_exec:
  assumes "kernel_fou_ok N ports" and "nl_exec N c n = (e, n')"
  shows "ports (kernel n') = (if e = None then fou_effect c (ports (kernel n)) else ports (kernel n))"
  using assms unfolding kernel_fou_ok_def nl_exec_def by (auto split: prod.splits)

lemma ports_runs:
  assumes "kernel_fou_ok N ports"
  shows "runs N tunnel_command n n' \<Longrightarrow> ports (kernel n') = ports (kernel n)"
proof (induction rule: runs.induct)
  case (exec c n e n1 n')
  from exec(2) have "fou_effect c P = P" for P by (cases c) simp_all
  with exec(4) fou_exec [OF assms exec(1)] show ?case by simp
qed (simp_all add: kept [OF fou_kept(1) [OF assms]] kept [OF fou_kept(2) [OF assms]] kept [OF fou_kept(3) [OF assms]]
    kept [OF fou_kept(4) [OF assms]])

text \<open>The receiver is there afterwards exactly if it is to be, and if it is so already nothing is sent.\<close>

lemma reconcileFOU_ports_after:
  assumes V: "kernel_fou_ok N ports" and T: "tunnel_pkg_ok T" and run: "reconcileFOU T N nw b n = (None, n')"
  shows "Port (nw_Spec nw) \<in> ports (kernel n') \<longleftrightarrow> b"
proof -
  let ?p = "Port (nw_Spec nw)"
  obtain g n1 where g: "nl_read (nl_FouList N (FAMILY_V4 N)) n = (g, n1)" by fastforce
  then obtain fs where fs: "g = Inr fs" using run by (cases g) (auto simp: reconcileFOU_def)
  then have ports: "f_Port ` set fs = ports (kernel n1)"
    using V g kept [OF fou_kept(2) [OF V] g] by (auto simp: kernel_fou_ok_def nl_read_def split: prod.splits)
  note lo = lo_slice_okD(2) [OF tunnel_pkg_okD(4) [OF T]]
  show ?thesis
  proof (cases "find (\<lambda>f. f_Port f = ?p) fs")
    case None
    then have no: "?p \<notin> ports (kernel n1)" unfolding ports [symmetric] by (auto simp: find_None_iff)
    show ?thesis
    proof (cases b)
      case True
      obtain e n2 where ex: "nl_exec N (FouAdd \<lparr>f_Family = FAMILY_V4 N, f_Port = ?p, f_Protocol = 4, f_EncapType = FOU_ENCAP_DIRECT N\<rparr>) n1
          = (e, n2)" by fastforce
      with run g fs None True have "e = None" "n2 = n'" by (cases e; simp add: reconcileFOU_def lo)+
      with fou_exec [OF V ex] True show ?thesis by simp
    next
      case False
      with run g fs None no show ?thesis by (simp add: reconcileFOU_def lo)
    qed
  next
    case (Some f)
    then have f: "f_Port f = ?p" "?p \<in> ports (kernel n1)" unfolding ports [symmetric] by (auto simp: find_Some_iff intro!: rev_image_eqI nth_mem)
    show ?thesis
    proof (cases b)
      case True
      with run g fs Some f show ?thesis by (simp add: reconcileFOU_def lo)
    next
      case False
      obtain e n2 where ex: "nl_exec N (FouDel f) n1 = (e, n2)" by fastforce
      with run g fs Some False have "e = None" "n2 = n'" by (cases e; simp add: reconcileFOU_def lo)+
      with fou_exec [OF V ex] False f show ?thesis by simp
    qed
  qed
qed


section \<open>A whole reconciliation\<close>

text \<open>All CIDRs of the network are IPv4, as far as they parse; the pool's parses.\<close>

definition ipv4_network :: "OverlayNetwork \<Rightarrow> ipnet \<Rightarrow> bool" where
  "ipv4_network nw net \<longleftrightarrow> (\<exists>a. ParseCIDR (AllocatableCIDR (nw_Spec nw)) = Some (a, net)) \<and> v4_net net \<and>
     (\<forall>s \<in> set (RoutableCIDRs (nw_Spec nw)) \<union> (\<Union>e \<in> set (OptionalRoutes (nw_Spec nw)). set (er_RoutableCIDRs e)).
        \<forall>a c. ParseCIDR s = Some (a, c) \<longrightarrow> v4_net c)"

definition acts_as_router :: "tunnel_pkg \<Rightarrow> OverlayNetwork \<Rightarrow> string \<Rightarrow> bool" where
  "acts_as_router T nw me \<longleftrightarrow> lo_Find (tl_alloc T) (Routers (nw_Status nw)) (\<lambda>t. PodName t = me) \<noteq> None"

definition own_extra_routes :: "tunnel_pkg \<Rightarrow> OverlayNetwork \<Rightarrow> string \<Rightarrow> routeState list" where
  "own_extra_routes T nw me = (case lo_Find (tl_alloc T) (Allocations (nw_Status nw)) (\<lambda>t. PodName t = me) of
     None \<Rightarrow> [] | Some m \<Rightarrow> extra_routes T nw (ExtraNetworks m))"

lemma reconcile_tunnel_eq:
  assumes "read_env (kGetNetwork K ns name) w = (Inr nw, w1)" and "target_links T r nw = (ts, r1)"
  shows "reconcile_tunnel T N K ns name r w n =
    bind_outcome (reconcileTunnelInterfaces T N r1 nw ts (acts_as_router T nw (myPodName r)) (own_extra_routes T nw (myPodName r)) n)
      (\<lambda>(err, r, n). Returns (case err of None \<Rightarrow> finished
        | Some e \<Rightarrow> Failed (OtherError (''failed to reconcile network: '' @ e)), r, w1, n))"
  by (simp add: reconcile_tunnel_def assms acts_as_router_def own_extra_routes_def Let_def)






lemma reconcile_tunnel_finished:
  assumes "read_env (kGetNetwork K ns name) w = (Inr nw, w1)" and "target_links T r nw = (ts, r1)"
    and "reconcile_tunnel T N K ns name r w n = Returns (finished, r', w', n')"
  shows "reconcileTunnelInterfaces T N r1 nw ts (acts_as_router T nw (myPodName r)) (own_extra_routes T nw (myPodName r)) n
    = Returns (None, r', n')"
  using assms(3) unfolding reconcile_tunnel_eq [OF assms(1,2)] by (auto simp: bind_outcome_eq_Returns split: option.splits)

lemma ports_reconcile:
  assumes F: "kernel_fou_ok N ports" and T: "tunnel_pkg_ok T" and nw: "ipv4_network nw net"
    and run: "reconcileTunnelInterfaces T N r nw ts isRouter ex n = Returns (None, r', n')"
  shows "Port (nw_Spec nw) \<in> ports (kernel n') \<longleftrightarrow> length ts > 0"
  using run
proof (rule reconcileTunnelInterfaces_success)
  fix n1 ls n2 ts' n3 n4
  assume s: "reconcileFOU T N nw (length ts > 0) n = (None, n1)" "nl_read (nl_LinkList N) n1 = (Inr ls, n2)"
    "sweep_links N (own_prefix r nw) ls ts n2 = (None, ts', n3)" "add_links N nw isRouter (range_order T 0 ts') n3 = (None, n4)"
    "reconcileRoutes T N nw isRouter (range_order T 1 ts') ex n4 = Returns (None, n')"
  obtain a where cidr: "ParseCIDR (AllocatableCIDR (nw_Spec nw)) = Some (a, net)" using nw by (auto simp: ipv4_network_def)
  have "runs N tunnel_command n2 n3" using s(3) by (rule runs_sweep_links)
  also have "runs N tunnel_command n3 n4" using s(4) by (rule runs_add_links)
  also have "runs N tunnel_command n4 n'" using runs_reconcileRoutes [OF cidr s(5)] .
  finally have "runs N tunnel_command n1 n'" by (rule runs.link_list [OF s(2)])
  with ports_runs [OF F] reconcileFOU_ports_after [OF F T s(1)] show ?thesis by simp
qed

section \<open>A kernel in memory\<close>

record mini =
  mk_links :: link_list
  mk_routes :: "Route list"
  mk_ports :: "int list"

fun position :: "link_list \<Rightarrow> string \<Rightarrow> int option" where
  "position [] x = None"
| "position (y # ys) x = (if x = fst y then Some 0 else map_option (\<lambda>i. i + 1) (position ys x))"



fun mini_do :: "command \<Rightarrow> mini \<Rightarrow> mini" where
  "mini_do (LinkAdd t) k = k\<lparr>mk_links := AList.update (Iptun_Name t) (Some t) (mk_links k)\<rparr>"
| "mini_do (LinkDel l) k = k\<lparr>mk_links := AList.delete (attr_Name l) (mk_links k)\<rparr>"
| "mini_do (RouteAdd r) k = k\<lparr>mk_routes := mk_routes k @ [r]\<rparr>"
| "mini_do (RouteDel r) k = k\<lparr>mk_routes := filter (\<lambda>q. q \<noteq> r) (mk_routes k)\<rparr>"
| "mini_do (FouAdd f) k = k\<lparr>mk_ports := f_Port f # mk_ports k\<rparr>"
| "mini_do (FouDel f) k = k\<lparr>mk_ports := filter (\<lambda>p. p \<noteq> f_Port f) (mk_ports k)\<rparr>"
| "mini_do c k = k"

definition is_v4 :: "Route \<Rightarrow> bool" where
  "is_v4 r \<longleftrightarrow> (case rt_Dst r of None \<Rightarrow> True | Some d \<Rightarrow> v4_net d)"

definition mini_netlink :: "mini netlink" where
  "mini_netlink = \<lparr>
     nl_LinkList = (\<lambda>k. (Inr (map (\<lambda>l. \<lparr>attr_Name = fst l, attr_Index = the (position (mk_links k) (fst l))\<rparr>) (mk_links k)), k)),
     nl_LinkByName = (\<lambda>nm k. (case position (mk_links k) nm of None \<Rightarrow> Inl ''Link not found''
        | Some i \<Rightarrow> Inr \<lparr>attr_Name = nm, attr_Index = i\<rparr>, k)),
     nl_RouteList = (\<lambda>l _ k. (Inr (filter (\<lambda>r. rt_LinkIndex r = attr_Index l \<and> is_v4 r) (mk_routes k)), k)),
     nl_FouList = (\<lambda>_ k. (Inr (map (\<lambda>p. \<lparr>f_Family = 2, f_Port = p, f_Protocol = 4, f_EncapType = 1\<rparr>) (mk_ports k)), k)),
     nl_do = (\<lambda>c k. (None, mini_do c k)), SCOPE_LINK = 253, FAMILY_V4 = 2, FOU_ENCAP_DIRECT = 1\<rparr>"





section \<open>Two networks on one port\<close>

text \<open>
  A receiver belongs to a port, and nothing keeps two networks from using the same one. The
  reconciliation of a network in which the pod has no tunnels takes down the receiver that its
  other network needs.
\<close>

lemma shared_port_loses_receiver:
  assumes F: "kernel_fou_ok N ports" and T: "tunnel_pkg_ok T" and nw: "ipv4_network b net"
    and same: "Port (nw_Spec a) = Port (nw_Spec b)" and none: "peers b (myPodName r) = []"
    and got: "read_env (kGetNetwork K ns name) w = (Inr b, w1)"
    and run: "reconcile_tunnel T N K ns name r w n = Returns (finished, r', w', n')"
  shows "Port (nw_Spec a) \<notin> ports (kernel n')"
proof -
  obtain i r1 where id: "getNetworkId r b = (i, r1)" by fastforce
  obtain ts q where ts: "target_links T r b = (ts, q)" by fastforce
  have "ts = []"
    using target_links_eq [OF T id] ts none by (cases "own_entry b (myPodName r)") auto
  with ports_reconcile [OF F T nw reconcile_tunnel_finished [OF got ts run]] same show ?thesis by simp
qed

section \<open>Properties\<close>

text \<open>The pod \<open>b\<close> of a network with the router \<open>a\<close> and one routable network.\<close>

definition demo_routed :: OverlayNetwork where
  "demo_routed = demo_pair\<lparr>nw_Spec := (nw_Spec demo_pair)\<lparr>RoutableCIDRs := [''192.168.0.0/16'']\<rparr>\<rparr>"





lemma demo_routed_fields [simp]:
  "nw_allocs demo_routed = [demo_end ''a'' ''172.16.0.1'' ''10.0.0.1'', demo_end ''b'' ''172.16.0.2'' ''10.0.0.2'']"
  "nw_routers demo_routed = [demo_end ''a'' ''172.16.0.1'' ''10.0.0.1'']" "OptionalRouters (nw_Status demo_routed) = None"
  "AllocatableCIDR (nw_Spec demo_routed) = ''10.0.0.0/24''" "Port (nw_Spec demo_routed) = 5555"
  "RoutableCIDRs (nw_Spec demo_routed) = [''192.168.0.0/16'']" "OptionalRoutes (nw_Spec demo_routed) = []"
  by (simp_all add: demo_routed_def demo_pair_def plain_network_def)




lemma mini_ops [simp]:
  "nl_read (nl_LinkList mini_netlink) n =
     (Inr (map (\<lambda>l. \<lparr>attr_Name = fst l, attr_Index = the (position (mk_links (kernel n)) (fst l))\<rparr>) (mk_links (kernel n))), n)"
  "nl_read (nl_LinkByName mini_netlink nm) n = (case position (mk_links (kernel n)) nm of None \<Rightarrow> Inl ''Link not found''
     | Some i \<Rightarrow> Inr \<lparr>attr_Name = nm, attr_Index = i\<rparr>, n)"
  "nl_read (nl_RouteList mini_netlink l f) n = (Inr (filter (\<lambda>r. rt_LinkIndex r = attr_Index l \<and> is_v4 r) (mk_routes (kernel n))), n)"
  "nl_exec mini_netlink c n = (None, \<lparr>kernel = mini_do c (kernel n), commands = commands n @ [c]\<rparr>)"
  "SCOPE_LINK mini_netlink = 253"
  by (simp_all add: nl_read_def nl_exec_def mini_netlink_def)

lemma spread_ops [simp]: "tl_route spread_pkg = lo_std" "range_order spread_pkg i m = m"
  by (simp_all add: spread_pkg_def tunnel_std_def)

















end
