(* ===== verification/KernelModules.thy ===== *)
theory KernelModules
  imports Prelude
begin

text \<open>
  The loader of kernel modules in \<open>cmd/sidecar/main.go\<close> (\<open>cmd/dns/main.go\<close> holds an unused copy of
  it): \<open>modInitFunc\<close> opens a module file, decompresses it by the extension of its name and passes it
  to the kernel. The operating system, the decompressors and package \<open>golang.org/x/sys/unix\<close> are
  parameters; \<open>'o\<close> is the state of the operating system. What is opened, closed and passed to the
  kernel is also recorded in the ghost field \<open>calls\<close>, and deferred calls run in reverse order.
\<close>

section \<open>The operating system\<close>

datatype sys_error = Errno nat | SysError string

text \<open>An \<open>io.Reader\<close>: the chunks that successive reads return, then the end of the file or an error.\<close>

record reader =
  rd_chunks :: "string list"
  rd_error :: "sys_error option"

record os_file =
  f_Fd :: int
  f_content :: reader

datatype mod_call =
    Opened os_file
  | Started_gzip
  | Started_zstd
  | Closed_gzip
  | Closed_zstd
  | Closed os_file
  | Finit int string int
  | Init string string

record 'o machine =
  opsys :: 'o
  calls :: "mod_call list"

record 'o module_os =
  os_Open :: "string \<Rightarrow> 'o \<Rightarrow> (sys_error + os_file) \<times> 'o"
  gzip_NewReader :: "reader \<Rightarrow> sys_error + reader"
  xz_NewReader :: "reader \<Rightarrow> sys_error + reader"
  zstd_NewReader :: "reader \<Rightarrow> sys_error + reader"
  FinitModule :: "int \<Rightarrow> string \<Rightarrow> int \<Rightarrow> 'o \<Rightarrow> sys_error option \<times> 'o"
  InitModule :: "string \<Rightarrow> string \<Rightarrow> 'o \<Rightarrow> sys_error option \<times> 'o"
  ENOSYS :: sys_error

definition log_call :: "mod_call \<Rightarrow> 'o machine \<Rightarrow> 'o machine" where
  "log_call c m = m\<lparr>calls := calls m @ [c]\<rparr>"

definition sys_call :: "mod_call \<Rightarrow> ('o \<Rightarrow> sys_error option \<times> 'o) \<Rightarrow> 'o machine \<Rightarrow> sys_error option \<times> 'o machine" where
  "sys_call c f m = (case f (opsys m) of (e, o') \<Rightarrow> (e, \<lparr>opsys = o', calls = calls m @ [c]\<rparr>))"

text \<open>\<open>defer\<close>: the body runs, then the deferred call.\<close>

definition deferring :: "('m \<Rightarrow> 'm) \<Rightarrow> ('m \<Rightarrow> 'a \<times> 'm) \<Rightarrow> 'm \<Rightarrow> 'a \<times> 'm" where
  "deferring d body m = (case body m of (a, m) \<Rightarrow> (a, d m))"

text \<open>\<open>filepath.Ext\<close>: the suffix from the last dot of the last path element.\<close>

fun ext_scan :: "string \<Rightarrow> string \<Rightarrow> string" where
  "ext_scan [] acc = []"
| "ext_scan (c # cs) acc =
     (if c = CHR ''/'' then [] else if c = CHR ''.'' then c # acc else ext_scan cs (c # acc))"

definition filepath_Ext :: "string \<Rightarrow> string" where
  "filepath_Ext path = ext_scan (rev path) []"

text \<open>\<open>io.ReadAll\<close>: reads until the end and drops what it has if a read fails.\<close>

fun read_chunks :: "string list \<Rightarrow> sys_error option \<Rightarrow> string \<Rightarrow> sys_error + string" where
  "read_chunks [] None b = Inr b"
| "read_chunks [] (Some e) b = Inl e"
| "read_chunks (c # cs) e b = read_chunks cs e (b @ c)"

definition io_ReadAll :: "reader \<Rightarrow> sys_error + string" where
  "io_ReadAll rd = read_chunks (rd_chunks rd) (rd_error rd) []"

section \<open>The loader\<close>

definition finitModule :: "'o module_os \<Rightarrow> int \<Rightarrow> string \<Rightarrow> 'o machine \<Rightarrow> sys_error option \<times> 'o machine" where
  "finitModule S fd params = sys_call (Finit fd params 0) (FinitModule S fd params 0)"

definition initModule :: "'o module_os \<Rightarrow> reader \<Rightarrow> string \<Rightarrow> 'o machine \<Rightarrow> sys_error option \<times> 'o machine" where
  "initModule S rd params m =
     (case io_ReadAll rd of
       Inl err \<Rightarrow> (Some err, m)
     | Inr buf \<Rightarrow> sys_call (Init buf params) (InitModule S buf params) m)"

definition load_by_ext ::
  "'o module_os \<Rightarrow> string \<Rightarrow> os_file \<Rightarrow> string \<Rightarrow> 'o machine \<Rightarrow> sys_error option \<times> 'o machine" where
  "load_by_ext S ext f params m =
     (if ext = ''.gz'' then
        (case gzip_NewReader S (f_content f) of
          Inl err \<Rightarrow> (Some err, m)
        | Inr rd \<Rightarrow> deferring (log_call Closed_gzip) (initModule S rd params) (log_call Started_gzip m))
      else if ext = ''.xz'' then
        (case xz_NewReader S (f_content f) of
          Inl err \<Rightarrow> (Some err, m)
        | Inr rd \<Rightarrow> initModule S rd params m)
      else if ext = ''.zst'' then
        (case zstd_NewReader S (f_content f) of
          Inl err \<Rightarrow> (Some err, m)
        | Inr rd \<Rightarrow> deferring (log_call Closed_zstd) (initModule S rd params) (log_call Started_zstd m))
      else
        (case finitModule S (f_Fd f) params m of
          (Some err, m) \<Rightarrow> if err = ENOSYS S then initModule S (f_content f) params m else (None, m)
        | (None, m) \<Rightarrow> (None, m)))"

definition modInitFunc ::
  "'o module_os \<Rightarrow> string \<Rightarrow> string \<Rightarrow> int \<Rightarrow> 'o machine \<Rightarrow> sys_error option \<times> 'o machine" where
  "modInitFunc S path params flags m =
     (case os_Open S path (opsys m) of
       (Inl err, o') \<Rightarrow> (Some err, m\<lparr>opsys := o'\<rparr>)
     | (Inr f, o') \<Rightarrow>
         deferring (log_call (Closed f)) (load_by_ext S (filepath_Ext path) f params)
           (log_call (Opened f) (m\<lparr>opsys := o'\<rparr>)))"

text \<open>The program of the DNS server contains a copy of the loader that it does not call.\<close>

definition dns_finitModule :: "'o module_os \<Rightarrow> int \<Rightarrow> string \<Rightarrow> 'o machine \<Rightarrow> sys_error option \<times> 'o machine" where
  "dns_finitModule S fd params = sys_call (Finit fd params 0) (FinitModule S fd params 0)"

definition dns_initModule :: "'o module_os \<Rightarrow> reader \<Rightarrow> string \<Rightarrow> 'o machine \<Rightarrow> sys_error option \<times> 'o machine" where
  "dns_initModule S rd params m =
     (case io_ReadAll rd of
       Inl err \<Rightarrow> (Some err, m)
     | Inr buf \<Rightarrow> sys_call (Init buf params) (InitModule S buf params) m)"

definition dns_modInitFunc ::
  "'o module_os \<Rightarrow> string \<Rightarrow> string \<Rightarrow> int \<Rightarrow> 'o machine \<Rightarrow> sys_error option \<times> 'o machine" where
  "dns_modInitFunc S path params flags m =
     (case os_Open S path (opsys m) of
       (Inl err, o') \<Rightarrow> (Some err, m\<lparr>opsys := o'\<rparr>)
     | (Inr f, o') \<Rightarrow>
         deferring (log_call (Closed f))
           (\<lambda>m. let ext = filepath_Ext path in
             if ext = ''.gz'' then
               (case gzip_NewReader S (f_content f) of
                 Inl err \<Rightarrow> (Some err, m)
               | Inr rd \<Rightarrow> deferring (log_call Closed_gzip) (dns_initModule S rd params) (log_call Started_gzip m))
             else if ext = ''.xz'' then
               (case xz_NewReader S (f_content f) of
                 Inl err \<Rightarrow> (Some err, m)
               | Inr rd \<Rightarrow> dns_initModule S rd params m)
             else if ext = ''.zst'' then
               (case zstd_NewReader S (f_content f) of
                 Inl err \<Rightarrow> (Some err, m)
               | Inr rd \<Rightarrow> deferring (log_call Closed_zstd) (dns_initModule S rd params) (log_call Started_zstd m))
             else
               (case dns_finitModule S (f_Fd f) params m of
                 (Some err, m) \<Rightarrow> if err = ENOSYS S then dns_initModule S (f_content f) params m else (None, m)
               | (None, m) \<Rightarrow> (None, m)))
           (log_call (Opened f) (m\<lparr>opsys := o'\<rparr>)))"

lemma dns_init_eq: "dns_finitModule = finitModule" "dns_initModule = initModule"
  by (intro ext, simp add: dns_finitModule_def finitModule_def dns_initModule_def initModule_def)+

lemma dns_modInitFunc_eq: "dns_modInitFunc = modInitFunc"
  unfolding dns_modInitFunc_def [abs_def] modInitFunc_def [abs_def] load_by_ext_def [abs_def] Let_def dns_init_eq ..

section \<open>What is read\<close>

lemma read_chunks_eq:
  "read_chunks cs e b = (case e of None \<Rightarrow> Inr (b @ concat cs) | Some err \<Rightarrow> Inl err)"
  by (induction cs e b rule: read_chunks.induct) (auto split: option.splits)

lemma io_ReadAll_eq:
  "io_ReadAll rd = (case rd_error rd of None \<Rightarrow> Inr (concat (rd_chunks rd)) | Some err \<Rightarrow> Inl err)"
  by (simp add: io_ReadAll_def read_chunks_eq split: option.splits)

section \<open>What is called\<close>

definition kernel_calls :: "mod_call list \<Rightarrow> mod_call list" where
  "kernel_calls cs = filter (\<lambda>c. case c of Finit _ _ _ \<Rightarrow> True | Init _ _ \<Rightarrow> True | _ \<Rightarrow> False) cs"

text \<open>The handles that are open after a list of calls, the last one opened first; \<open>None\<close> if a close
  does not match the last one.\<close>

fun open_handles :: "mod_call list \<Rightarrow> mod_call list \<Rightarrow> mod_call list option" where
  "open_handles [] st = Some st"
| "open_handles (c # cs) st =
     (case c of
       Closed f \<Rightarrow> (case st of Opened g # st \<Rightarrow> if g = f then open_handles cs st else None | _ \<Rightarrow> None)
     | Closed_gzip \<Rightarrow> (case st of Started_gzip # st \<Rightarrow> open_handles cs st | _ \<Rightarrow> None)
     | Closed_zstd \<Rightarrow> (case st of Started_zstd # st \<Rightarrow> open_handles cs st | _ \<Rightarrow> None)
     | Finit _ _ _ \<Rightarrow> open_handles cs st
     | Init _ _ \<Rightarrow> open_handles cs st
     | _ \<Rightarrow> open_handles cs (c # st))"

lemma open_handles_append:
  "open_handles (cs @ ds) st = (case open_handles cs st of None \<Rightarrow> None | Some st \<Rightarrow> open_handles ds st)"
  by (induction cs st rule: open_handles.induct) (auto split: mod_call.splits list.splits)

definition balanced :: "mod_call list \<Rightarrow> bool" where
  "balanced cs \<longleftrightarrow> (\<forall>st. open_handles cs st = Some st)"

lemma balanced_simps [simp]:
  "balanced []" "balanced [Finit a b c]" "balanced [Init d b]" "balanced cs \<Longrightarrow> balanced ds \<Longrightarrow> balanced (cs @ ds)"
  "balanced cs \<Longrightarrow> balanced (Opened f # cs @ [Closed f])" "balanced cs \<Longrightarrow> balanced (Started_gzip # cs @ [Closed_gzip])"
  "balanced cs \<Longrightarrow> balanced (Started_zstd # cs @ [Closed_zstd])"
  by (simp_all add: balanced_def open_handles_append)

lemma finitModule_calls: "finitModule S fd params m = (e, m') \<Longrightarrow> calls m' = calls m @ [Finit fd params 0]"
  by (auto simp: finitModule_def sys_call_def split: prod.splits)

lemma initModule_calls:
  "initModule S rd params m = (e, m') \<Longrightarrow>
     calls m' = calls m @ (case io_ReadAll rd of Inl _ \<Rightarrow> [] | Inr buf \<Rightarrow> [Init buf params])"
  by (auto simp: initModule_def sys_call_def split: prod.splits sum.splits)

lemma initModule_balanced: "initModule S rd params m = (e, m') \<Longrightarrow> \<exists>cs. calls m' = calls m @ cs \<and> balanced cs"
  using initModule_calls [of S rd params m e m'] by (auto split: sum.splits)

lemma deferring_balanced:
  assumes "deferring (log_call c') body (log_call c m) = (e, m')"
    and "\<And>m1 e m2. body m1 = (e, m2) \<Longrightarrow> \<exists>cs. calls m2 = calls m1 @ cs \<and> balanced cs"
    and "\<And>cs. balanced cs \<Longrightarrow> balanced (c # cs @ [c'])"
  shows "\<exists>cs. calls m' = calls m @ cs \<and> balanced cs"
proof -
  obtain m2 where b: "body (log_call c m) = (e, m2)" and m': "m' = log_call c' m2"
    using assms(1) by (auto simp: deferring_def split: prod.splits)
  obtain cs where "calls m2 = calls (log_call c m) @ cs" "balanced cs" using assms(2) [OF b] by blast
  then show ?thesis using assms(3) by (intro exI [of _ "c # cs @ [c']"]) (simp add: m' log_call_def)
qed

lemma load_by_ext_balanced:
  assumes "load_by_ext S ext f params m = (e, m')"
  shows "\<exists>cs. calls m' = calls m @ cs \<and> balanced cs"
proof -
  note init = initModule_balanced [of S _ params]
  consider (gz) "ext = ''.gz''" | (xz) "ext = ''.xz''" | (zst) "ext = ''.zst''"
    | (plain) "ext \<notin> {''.gz'', ''.xz'', ''.zst''}" by auto
  then show ?thesis
  proof cases
    case gz
    with assms show ?thesis
    proof (cases "gzip_NewReader S (f_content f)")
      case (Inr rd)
      with gz assms have "deferring (log_call Closed_gzip) (initModule S rd params) (log_call Started_gzip m) = (e, m')"
        by (simp add: load_by_ext_def)
      then show ?thesis by (rule deferring_balanced) (erule init, simp)
    qed (auto simp: load_by_ext_def intro: exI [of _ "[]"])
  next
    case xz
    with assms init show ?thesis by (auto simp: load_by_ext_def split: sum.splits intro: exI [of _ "[]"])
  next
    case zst
    with assms show ?thesis
    proof (cases "zstd_NewReader S (f_content f)")
      case (Inr rd)
      with zst assms have "deferring (log_call Closed_zstd) (initModule S rd params) (log_call Started_zstd m) = (e, m')"
        by (simp add: load_by_ext_def)
      then show ?thesis by (rule deferring_balanced) (erule init, simp)
    qed (auto simp: load_by_ext_def intro: exI [of _ "[]"])
  next
    case plain
    obtain e1 m1 where fi: "finitModule S (f_Fd f) params m = (e1, m1)" by fastforce
    then have c1: "calls m1 = calls m @ [Finit (f_Fd f) params 0]" by (rule finitModule_calls)
    from fi plain assms consider "m' = m1" | "initModule S (f_content f) params m1 = (e, m')"
      by (auto simp: load_by_ext_def split: option.splits if_splits)
    then show ?thesis
    proof cases
      case 1
      with c1 show ?thesis by (intro exI [of _ "[Finit (f_Fd f) params 0]"]) simp
    next
      case 2
      from init [OF this] obtain cs where "calls m' = calls m1 @ cs" "balanced cs" by blast
      then show ?thesis using c1 balanced_simps(4) [of "[Finit (f_Fd f) params 0]" cs]
        by (intro exI [of _ "Finit (f_Fd f) params 0 # cs"]) simp
    qed
  qed
qed

lemma modInitFunc_balanced: "\<exists>cs. calls (snd (modInitFunc S path params flags m)) = calls m @ cs \<and> balanced cs"
proof (cases "os_Open S path (opsys m)")
  case (Pair r o')
  obtain e m' where run: "modInitFunc S path params flags m = (e, m')" by fastforce
  show ?thesis
  proof (cases r)
    case (Inl err)
    with Pair run show ?thesis by (auto simp: modInitFunc_def intro: exI [of _ "[]"])
  next
    case (Inr f)
    with Pair run have "deferring (log_call (Closed f)) (load_by_ext S (filepath_Ext path) f params)
        (log_call (Opened f) (m\<lparr>opsys := o'\<rparr>)) = (e, m')" by (simp add: modInitFunc_def)
    then have "\<exists>cs. calls m' = calls (m\<lparr>opsys := o'\<rparr>) @ cs \<and> balanced cs"
      by (rule deferring_balanced) (erule load_by_ext_balanced, simp)
    with run show ?thesis by simp
  qed
qed

section \<open>Properties\<close>

text \<open>The decompressor that the extension selects.\<close>

definition decoder_of :: "'o module_os \<Rightarrow> string \<Rightarrow> (reader \<Rightarrow> sys_error + reader) option" where
  "decoder_of S ext =
     (if ext = ''.gz'' then Some (gzip_NewReader S) else if ext = ''.xz'' then Some (xz_NewReader S)
      else if ext = ''.zst'' then Some (zstd_NewReader S) else None)"

text \<open>An operating system with one module file, whose kernel answers every call with \<open>e\<close>.\<close>

definition demo_os :: "sys_error option \<Rightarrow> unit module_os" where
  "demo_os e = \<lparr>os_Open = (\<lambda>_ k. (Inr \<lparr>f_Fd = 3, f_content = \<lparr>rd_chunks = [''ab'', ''c''], rd_error = None\<rparr>\<rparr>, k)),
     gzip_NewReader = Inr, xz_NewReader = Inr, zstd_NewReader = Inr, FinitModule = (\<lambda>_ _ _ k. (e, k)),
     InitModule = (\<lambda>_ _ k. (e, k)), ENOSYS = Errno 38\<rparr>"

text \<open>C39: no run of \<open>modInitFunc\<close>, failed or not, leaks a handle: the module file and the decompressor
  it opens are closed again, each once and the last one opened first.\<close>

theorem modInitFunc_releases:
  "\<exists>cs. calls (snd (modInitFunc S path params flags m)) = calls m @ cs \<and> open_handles cs [] = Some []"
  using modInitFunc_balanced [of S path params flags m] unfolding balanced_def by blast

text \<open>A compressed module is loaded from its decompressed image. If the file opens and its
  decompressor starts, the result is the error that ends the decompressed stream, or else the
  answer of the kernel to one \<open>init_module\<close> call with the whole image and the given parameters.\<close>

lemma modInitFunc_compressed:
  assumes opened: "os_Open S path (opsys m) = (Inr f, o')"
    and D: "decoder_of S (filepath_Ext path) = Some D" "D (f_content f) = Inr rd"
  shows "fst (modInitFunc S path params flags m) =
      (case rd_error rd of Some e \<Rightarrow> Some e | None \<Rightarrow> fst (InitModule S (concat (rd_chunks rd)) params o')) \<and>
    kernel_calls (calls (snd (modInitFunc S path params flags m))) = kernel_calls (calls m) @
      (case rd_error rd of Some e \<Rightarrow> [] | None \<Rightarrow> [Init (concat (rd_chunks rd)) params])"
proof (cases "rd_error rd")
  case None
  obtain e k where "InitModule S (concat (rd_chunks rd)) params o' = (e, k)" by fastforce
  with None D opened show ?thesis
    by (auto simp: modInitFunc_def load_by_ext_def decoder_of_def deferring_def initModule_def sys_call_def log_call_def
        io_ReadAll_eq kernel_calls_def split: if_splits)
next
  case (Some e)
  with D opened show ?thesis
    by (auto simp: modInitFunc_def load_by_ext_def decoder_of_def deferring_def initModule_def log_call_def
        io_ReadAll_eq kernel_calls_def split: if_splits)
qed

text \<open>For an uncompressed module an error of \<open>finit_module\<close> other than \<open>ENOSYS\<close> is lost. The loader
  reports success although the kernel took no module: the rejected call is the only one made.\<close>

lemma finit_error_is_lost:
  assumes opened: "os_Open S path (opsys m) = (Inr f, o')" and plain: "decoder_of S (filepath_Ext path) = None"
    and rejected: "FinitModule S (f_Fd f) params 0 o' = (Some e, o'')" "e \<noteq> ENOSYS S"
  shows "fst (modInitFunc S path params flags m) = None \<and>
    kernel_calls (calls (snd (modInitFunc S path params flags m))) = kernel_calls (calls m) @ [Finit (f_Fd f) params 0]"
  using assms
  by (auto simp: modInitFunc_def load_by_ext_def decoder_of_def deferring_def finitModule_def sys_call_def log_call_def
      kernel_calls_def split: if_splits)

lemma finit_error_is_lost_witness:
  "fst (modInitFunc (demo_os (Some (Errno 1))) ''/lib/modules/fou.ko'' '''' 0 \<lparr>opsys = (), calls = []\<rparr>) = None"
proof -
  have "filepath_Ext ''/lib/modules/fou.ko'' = ''.ko''" by (simp add: filepath_Ext_def)
  then have "decoder_of (demo_os (Some (Errno 1))) (filepath_Ext ''/lib/modules/fou.ko'') = None"
    by (simp add: decoder_of_def)
  then show ?thesis
    using finit_error_is_lost [of "demo_os (Some (Errno 1))" "''/lib/modules/fou.ko''" "\<lparr>opsys = (), calls = []\<rparr>"
        "\<lparr>f_Fd = 3, f_content = \<lparr>rd_chunks = [''ab'', ''c''], rd_error = None\<rparr>\<rparr>" "()" "''''" "Errno 1" "()" 0]
    by (simp add: demo_os_def)
qed

end
