(* ===== verification/Resolver.thy ===== *)
theory Resolver
  imports GoNet External
begin

unbundle bit_operations_syntax

text \<open>
  The DNS server of an overlay (\<open>resolver/dns_controller.go\<close>): a reconciler that caches, per
  network, the allowed services and the overlay address of every pod address, and the handler
  that answers queries for \<open>service.network.zone\<close> with the overlay addresses of the pods
  behind the service. Package \<open>github.com/miekg/dns\<close> and the lookup of the cluster's resolver
  (\<open>net.LookupIP\<close>) are parameters.
\<close>

section \<open>The reconciler and its cache\<close>

text \<open>\<open>binary.BigEndian.Uint32\<close> panics on fewer than four bytes.\<close>

definition big_endian :: "ip \<Rightarrow> 32 word" where
  "big_endian b = ucast (b ! 3) OR push_bit 8 (ucast (b ! 2)) OR push_bit 16 (ucast (b ! 1))
     OR push_bit 24 (ucast (b ! 0))"

definition ip2int :: "ip \<Rightarrow> 32 word outcome" where
  "ip2int ip = (if length ip = 16 then Panics
     else if length ip < 4 then Panics else Returns (big_endian ip))"

record NetworkCache =
  services :: "(string, bool) go_map"
  ipCache :: "(32 word, ip) go_map"

record DNSReconciler =
  cache :: "(string, NetworkCache) go_map"
  dns_namespace :: string
  zone :: string
  clusterDomain :: string

definition NewDNSReconciler :: "string \<Rightarrow> string \<Rightarrow> string \<Rightarrow> DNSReconciler" where
  "NewDNSReconciler ns zn domain =
     \<lparr>cache = [], dns_namespace = ns, zone = zn,
      clusterDomain = (if domain = '''' then ''cluster.local'' else domain)\<rparr>"

fun fill_ips :: "OverlayNetworkIPAllocation list \<Rightarrow> (32 word, ip) go_map \<Rightarrow> (32 word, ip) go_map outcome" where
  "fill_ips [] m = Returns m"
| "fill_ips (al # als) m =
     (let podIp = To4 (ParseIP (PodIP al)); tunnelIp = To4 (ParseIP (IP al))
      in if podIp \<noteq> [] \<and> tunnelIp \<noteq> []
         then bind_outcome (ip2int podIp) (\<lambda>k. fill_ips als (gm_put m k tunnelIp))
         else fill_ips als m)"

definition cache_entry :: "OverlayNetwork \<Rightarrow> NetworkCache outcome" where
  "cache_entry nw = bind_outcome (fill_ips (Allocations (nw_Status nw)) [])
     (\<lambda>ips. Returns \<lparr>services = fold (\<lambda>svc m. gm_put m svc True) (ServiceNames (nw_Spec nw)) [], ipCache = ips\<rparr>)"

definition reconcile_dns ::
  "'s kube \<Rightarrow> string \<Rightarrow> string \<Rightarrow> DNSReconciler \<Rightarrow> 's world \<Rightarrow> (ctrl_result \<times> DNSReconciler \<times> 's world) outcome" where
  "reconcile_dns K ns name r w =
     (case read_env (kGetNetwork K ns name) w of
       (Inl err, w) \<Rightarrow>
         if IsNotFound err then Returns (finished, r\<lparr>cache := AList.delete name (cache r)\<rparr>, w)
         else Returns (Failed err, r, w)
     | (Inr nw, w) \<Rightarrow>
         bind_outcome (cache_entry nw)
           (\<lambda>nc. Returns (finished, r\<lparr>cache := gm_put (cache r) (Name (nw_meta nw)) nc\<rparr>, w)))"

section \<open>The handler\<close>

record Question =
  q_Name :: string
  q_Qtype :: nat

record 'rr Msg =
  Opcode :: nat
  Rcode :: nat
  Questions :: "Question list"
  Answer :: "'rr list"
  Compress :: bool

record 'rr dns_pkg =
  SetReply :: "'rr Msg \<Rightarrow> 'rr Msg \<Rightarrow> 'rr Msg"
  SetRcode :: "'rr Msg \<Rightarrow> 'rr Msg \<Rightarrow> nat \<Rightarrow> 'rr Msg"
  NewRR :: "string \<Rightarrow> string + 'rr"
  TypeA :: nat
  OpcodeQuery :: nat
  RcodeSuccess :: nat
  RcodeNameError :: nat
  RcodeServerFailure :: nat
  RcodeNotImplemented :: nat

fun answer_loop :: "'rr dns_pkg \<Rightarrow> string \<Rightarrow> NetworkCache \<Rightarrow> ip list \<Rightarrow> 'rr list \<Rightarrow> 'rr list outcome" where
  "answer_loop P name nw [] answers = Returns answers"
| "answer_loop P name nw (ip # ips) answers =
     (let v4 = To4 ip in
      if v4 = [] then answer_loop P name nw ips answers
      else bind_outcome (ip2int v4) (\<lambda>k.
        case map_of (ipCache nw) k of
          None \<Rightarrow> answer_loop P name nw ips answers
        | Some target \<Rightarrow>
            (case NewRR P (name @ '' 60 A '' @ IP_String target) of
              Inl _ \<Rightarrow> answer_loop P name nw ips answers
            | Inr rr \<Rightarrow> answer_loop P name nw ips (answers @ [rr]))))"

definition processDnsRequest ::
  "'rr dns_pkg \<Rightarrow> (string \<Rightarrow> string + ip list) \<Rightarrow> DNSReconciler \<Rightarrow> string \<Rightarrow> 'rr Msg \<Rightarrow> 'rr Msg \<Rightarrow> 'rr Msg outcome" where
  "processDnsRequest P LookupIP r name reply q =
     (case strings_Split (strings_TrimSuffix name (''.'' @ zone r)) CHR ''.'' of
       [svcName, nwName] \<Rightarrow>
         (case map_of (cache r) nwName of
           None \<Rightarrow> Returns (SetRcode P reply q (RcodeNameError P))
         | Some nw \<Rightarrow>
             if \<not> gm_has (services nw) svcName \<or> \<not> gm_get (services nw) svcName False
             then Returns (SetRcode P reply q (RcodeNameError P))
             else (case LookupIP (svcName @ ''.'' @ dns_namespace r @ ''.svc.'' @ clusterDomain r) of
                 Inl _ \<Rightarrow> Returns (SetRcode P reply q (RcodeServerFailure P))
               | Inr res \<Rightarrow>
                   bind_outcome (answer_loop P name nw res (Answer reply))
                     (\<lambda>answers. let reply = reply\<lparr>Answer := answers\<rparr> in
                        if length answers > 0 then Returns (SetRcode P reply q (RcodeSuccess P))
                        else Returns (SetRcode P reply q (RcodeNameError P)))))
     | _ \<Rightarrow> Returns (SetRcode P reply q (RcodeNameError P)))"

text \<open>The message passed to \<open>WriteMsg\<close>.\<close>

definition new_Msg :: "'rr Msg" where
  "new_Msg = \<lparr>Opcode = 0, Rcode = 0, Questions = [], Answer = [], Compress = False\<rparr>"

definition handleDnsRequest ::
  "'rr dns_pkg \<Rightarrow> (string \<Rightarrow> string + ip list) \<Rightarrow> DNSReconciler \<Rightarrow> 'rr Msg \<Rightarrow> 'rr Msg outcome" where
  "handleDnsRequest P LookupIP r q =
     (let reply = (SetReply P new_Msg q)\<lparr>Compress := False\<rparr>
      in if Opcode q \<noteq> OpcodeQuery P then Returns (SetRcode P reply q (RcodeNotImplemented P))
         else (case Questions reply of
             [q0] \<Rightarrow>
               if q_Qtype q0 = TypeA P then processDnsRequest P LookupIP r (q_Name q0) reply q
               else Returns (SetRcode P reply q (RcodeNameError P))
           | _ \<Rightarrow> Returns (SetRcode P reply q (RcodeNotImplemented P))))"

section \<open>What package dns promises\<close>

definition dns_pkg_ok :: "'rr dns_pkg \<Rightarrow> bool" where
  "dns_pkg_ok P \<longleftrightarrow>
     (\<forall>m q. Questions (SetReply P m q) = (if Questions q = [] then Questions m else [hd (Questions q)]) \<and>
        Answer (SetReply P m q) = Answer m) \<and>
     (\<forall>m q rc. Rcode (SetRcode P m q rc) = rc \<and> Answer (SetRcode P m q rc) = Answer m) \<and>
     distinct [RcodeSuccess P, RcodeNameError P, RcodeServerFailure P, RcodeNotImplemented P]"

definition dns_std :: "string dns_pkg" where
  "dns_std = \<lparr>SetReply = (\<lambda>m q. m\<lparr>Opcode := Opcode q, Rcode := 0,
        Questions := (if Questions q = [] then Questions m else [hd (Questions q)])\<rparr>),
     SetRcode = (\<lambda>m q rc. m\<lparr>Opcode := Opcode q, Rcode := rc,
        Questions := (if Questions q = [] then Questions m else [hd (Questions q)])\<rparr>),
     NewRR = Inr, TypeA = 1, OpcodeQuery = 0, RcodeSuccess = 0, RcodeNameError = 3,
     RcodeServerFailure = 2, RcodeNotImplemented = 4\<rparr>"

lemma dns_std_ok [simp]: "dns_pkg_ok dns_std"
  by (simp add: dns_pkg_ok_def dns_std_def)

section \<open>The keys of the cache\<close>

lemma big_endian_bytes:
  "ucast (big_endian b) = b ! 3" "ucast (drop_bit 8 (big_endian b)) = b ! 2"
  "ucast (drop_bit 16 (big_endian b)) = b ! 1" "ucast (drop_bit 24 (big_endian b)) = b ! 0"
  unfolding big_endian_def
  by (rule bit_word_eqI; simp add: bit_simps; auto dest: bit_imp_le_length)+

lemma big_endian_inj:
  assumes "length a = 4" "length b = 4" "big_endian a = big_endian b"
  shows "a = b"
proof (rule nth_equalityI)
  fix i
  assume "i < length a"
  with assms(1) have "i = 0 \<or> i = 1 \<or> i = 2 \<or> i = 3" by auto
  then show "a ! i = b ! i"
    using big_endian_bytes [of a] big_endian_bytes [of b] assms(3) by metis
qed (use assms in simp)

lemma To4_length: "To4 ip = [] \<or> length (To4 ip) = 4"
  by (auto simp: To4_def)

lemma ip2int_v4: "length v4 = 4 \<Longrightarrow> ip2int v4 = Returns (big_endian v4)"
  by (simp add: ip2int_def)

section \<open>What the cache says\<close>

text \<open>The overlay address of a pod address: that of the last allocation with this pod address.\<close>

definition address_book :: "OverlayNetworkIPAllocation list \<Rightarrow> (ip \<times> ip) list" where
  "address_book als = rev (filter (\<lambda>(p, t). p \<noteq> [] \<and> t \<noteq> [])
     (map (\<lambda>al. (To4 (ParseIP (PodIP al)), To4 (ParseIP (IP al)))) als))"

definition overlay_of :: "OverlayNetwork \<Rightarrow> ip \<Rightarrow> ip option" where
  "overlay_of nw v4 = map_of (address_book (Allocations (nw_Status nw))) v4"

lemma overlay_of_length: "overlay_of nw v4 = Some t \<Longrightarrow> length t = 4"
  using To4_length by (auto simp: overlay_of_def address_book_def dest!: map_of_SomeD; blast)

lemma fill_ips_result:
  "\<exists>m. fill_ips als m0 = Returns m \<and>
     (\<forall>v4. length v4 = 4 \<longrightarrow> map_of m (big_endian v4) =
        (case map_of (address_book als) v4 of None \<Rightarrow> map_of m0 (big_endian v4) | Some t \<Rightarrow> Some t))"
proof (induction als arbitrary: m0)
  case Nil
  show ?case by (simp add: address_book_def)
next
  case (Cons al als)
  let ?p = "To4 (ParseIP (PodIP al))" and ?t = "To4 (ParseIP (IP al))"
  show ?case
  proof (cases "?p \<noteq> [] \<and> ?t \<noteq> []")
    case True
    then have len: "length ?p = 4" using To4_length by blast
    obtain m where m: "fill_ips als (gm_put m0 (big_endian ?p) ?t) = Returns m"
      "\<And>v4. length v4 = 4 \<Longrightarrow> map_of m (big_endian v4) = (case map_of (address_book als) v4 of
         None \<Rightarrow> map_of (gm_put m0 (big_endian ?p) ?t) (big_endian v4) | Some t \<Rightarrow> Some t)"
      using Cons.IH by blast
    have book: "address_book (al # als) = address_book als @ [(?p, ?t)]"
      using True by (simp add: address_book_def)
    have "map_of m (big_endian v4) = (case map_of (address_book (al # als)) v4 of
        None \<Rightarrow> map_of m0 (big_endian v4) | Some t \<Rightarrow> Some t)" if "length v4 = 4" for v4
      using m(2) [OF that] big_endian_inj [OF that len]
      by (auto simp: book map_add_def split: option.splits)
    with m(1) True len show ?thesis by (simp add: ip2int_v4)
  next
    case False
    then have "address_book (al # als) = address_book als" by (auto simp: address_book_def)
    with False Cons.IH [of m0] show ?thesis by (auto simp: Let_def)
  qed
qed

definition caches :: "NetworkCache \<Rightarrow> OverlayNetwork \<Rightarrow> bool" where
  "caches nc nw \<longleftrightarrow>
     (\<forall>svc. gm_get (services nc) svc False \<longleftrightarrow> svc \<in> set (ServiceNames (nw_Spec nw))) \<and>
     (\<forall>v4. length v4 = 4 \<longrightarrow> map_of (ipCache nc) (big_endian v4) = overlay_of nw v4)"

lemma cache_entry_result: "\<exists>nc. cache_entry nw = Returns nc \<and> caches nc nw"
proof -
  obtain m where m: "fill_ips (Allocations (nw_Status nw)) [] = Returns m"
    "\<forall>v4. length v4 = 4 \<longrightarrow> map_of m (big_endian v4) = overlay_of nw v4"
    using fill_ips_result [of "Allocations (nw_Status nw)" "[]"] unfolding overlay_of_def
    by (force split: option.splits)
  have "gm_get (fold (\<lambda>svc m. gm_put m svc True) xs m) svc False \<longleftrightarrow> svc \<in> set xs \<or> gm_get m svc False"
    for xs m and svc :: string
    by (induction xs arbitrary: m) auto
  with m show ?thesis by (simp add: cache_entry_def caches_def)
qed

lemma reconcile_dns_found:
  assumes "read_env (kGetNetwork K ns name) w = (Inr nw, w1)"
  shows "\<exists>nc. caches nc nw \<and>
    reconcile_dns K ns name r w = Returns (finished, r\<lparr>cache := gm_put (cache r) (Name (nw_meta nw)) nc\<rparr>, w1)"
  using cache_entry_result [of nw] assms by (auto simp: reconcile_dns_def)

section \<open>What the handler answers\<close>

lemma answer_loop_result:
  assumes "caches nc nw"
  shows "\<exists>rrs. answer_loop P name nc ips answers = Returns (answers @ rrs) \<and>
    (\<forall>rr \<in> set rrs. \<exists>ip \<in> set ips. \<exists>t. overlay_of nw (To4 ip) = Some t \<and>
       NewRR P (name @ '' 60 A '' @ IP_String t) = Inr rr) \<and>
    ((\<forall>t. length t = 4 \<longrightarrow> NewRR P (name @ '' 60 A '' @ IP_String t) = Inr (mk t)) \<longrightarrow> rrs = map mk
       (List.map_filter (\<lambda>ip. if To4 ip = [] then None else overlay_of nw (To4 ip)) ips))"
proof (induction ips arbitrary: answers)
  case Nil
  show ?case by (simp add: List.map_filter_def)
next
  case (Cons ip ips)
  have skip: ?case if "answer_loop P name nc (ip # ips) answers = answer_loop P name nc ips answers"
    "(\<forall>t. length t = 4 \<longrightarrow> NewRR P (name @ '' 60 A '' @ IP_String t) = Inr (mk t)) \<Longrightarrow> (if To4 ip = [] then None else overlay_of nw (To4 ip)) = None"
    using Cons.IH [of answers] that by (fastforce simp: List.map_filter_simps)
  show ?case
  proof (cases "To4 ip = []")
    case True
    then show ?thesis by (intro skip) simp_all
  next
    case False
    then have len: "length (To4 ip) = 4" using To4_length by blast
    then have look: "map_of (ipCache nc) (big_endian (To4 ip)) = overlay_of nw (To4 ip)"
      using assms by (simp add: caches_def)
    show ?thesis
    proof (cases "overlay_of nw (To4 ip)")
      case None
      with False len look show ?thesis by (intro skip) (simp_all add: ip2int_v4 Let_def)
    next
      case (Some t)
      then have t: "length t = 4" by (rule overlay_of_length)
      show ?thesis
      proof (cases "NewRR P (name @ '' 60 A '' @ IP_String t)")
        case (Inl e)
        with False len look Some t show ?thesis by (intro skip) (simp_all add: ip2int_v4 Let_def)
      next
        case (Inr rr)
        obtain rrs where rrs: "answer_loop P name nc ips (answers @ [rr]) = Returns ((answers @ [rr]) @ rrs)"
          "\<forall>rr \<in> set rrs. \<exists>ip \<in> set ips. \<exists>t. overlay_of nw (To4 ip) = Some t \<and>
             NewRR P (name @ '' 60 A '' @ IP_String t) = Inr rr"
          "(\<forall>t. length t = 4 \<longrightarrow> NewRR P (name @ '' 60 A '' @ IP_String t) = Inr (mk t)) \<Longrightarrow> rrs = map mk
             (List.map_filter (\<lambda>ip. if To4 ip = [] then None else overlay_of nw (To4 ip)) ips)"
          using Cons.IH [of "answers @ [rr]"] by blast
        show ?thesis
          by (rule exI [of _ "rr # rrs"])
            (use False len look Some t Inr rrs in \<open>auto simp: ip2int_v4 Let_def List.map_filter_simps\<close>)
      qed
    qed
  qed
qed

definition cache_ok :: "DNSReconciler \<Rightarrow> (string \<rightharpoonup> OverlayNetwork) \<Rightarrow> bool" where
  "cache_ok r nws \<longleftrightarrow> (\<forall>n. rel_option caches (map_of (cache r) n) (nws n))"

lemma cache_ok_Some: "cache_ok r nws \<Longrightarrow> map_of (cache r) n = Some nc \<Longrightarrow> \<exists>nw. nws n = Some nw \<and> caches nc nw"
  unfolding cache_ok_def by (drule spec [of _ n]) (simp add: option_rel_Some1)

lemma dns_pkg_okD:
  assumes "dns_pkg_ok P"
  shows "Rcode (SetRcode P m q rc) = rc" "Answer (SetRcode P m q rc) = Answer m"
    "Questions (SetReply P new_Msg q) = (if Questions q = [] then [] else [hd (Questions q)])"
    "Answer (SetReply P new_Msg q) = []"
    "RcodeNameError P \<noteq> RcodeSuccess P" "RcodeServerFailure P \<noteq> RcodeSuccess P"
    "RcodeNotImplemented P \<noteq> RcodeSuccess P"
  using assms by (auto simp: dns_pkg_ok_def new_Msg_def)

lemma processDnsRequest_result:
  assumes P: "dns_pkg_ok P" and c: "cache_ok r nws" and empty: "Answer reply = []"
  shows "\<exists>m. processDnsRequest P LookupIP r name reply q = Returns m \<and>
    (Rcode m = RcodeSuccess P \<longleftrightarrow> Answer m \<noteq> []) \<and>
    (\<forall>rr \<in> set (Answer m). \<exists>svc n nw res ip t.
       strings_Split (strings_TrimSuffix name (''.'' @ zone r)) CHR ''.'' = [svc, n] \<and> nws n = Some nw \<and>
       svc \<in> set (ServiceNames (nw_Spec nw)) \<and>
       LookupIP (svc @ ''.'' @ dns_namespace r @ ''.svc.'' @ clusterDomain r) = Inr res \<and> ip \<in> set res \<and>
       overlay_of nw (To4 ip) = Some t \<and> NewRR P (name @ '' 60 A '' @ IP_String t) = Inr rr)"
    (is "\<exists>m. _ = Returns m \<and> ?good m")
proof -
  note [simp] = dns_pkg_okD [OF P]
  have bad: "?good (SetRcode P reply q rc)" if "rc \<noteq> RcodeSuccess P" for rc using that empty by simp
  show ?thesis
  proof (cases "\<exists>svc n. strings_Split (strings_TrimSuffix name (''.'' @ zone r)) CHR ''.'' = [svc, n]")
    case False
    then have run: "processDnsRequest P LookupIP r name reply q = Returns (SetRcode P reply q (RcodeNameError P))"
      by (auto simp: processDnsRequest_def split: list.splits)
    show ?thesis by (rule exI, rule conjI [OF run bad [OF dns_pkg_okD(5) [OF P]]])
  next
    case True
    then obtain svc n where parts: "strings_Split (strings_TrimSuffix name (''.'' @ zone r)) CHR ''.'' = [svc, n]"
      by blast
    show ?thesis
    proof (cases "\<exists>nc res. map_of (cache r) n = Some nc \<and> gm_get (services nc) svc False \<and>
        LookupIP (svc @ ''.'' @ dns_namespace r @ ''.svc.'' @ clusterDomain r) = Inr res")
      case False
      with parts have "processDnsRequest P LookupIP r name reply q \<in>
          (\<lambda>rc. Returns (SetRcode P reply q rc)) ` {RcodeNameError P, RcodeServerFailure P}"
        by (auto simp: processDnsRequest_def gm_has_def split: option.splits sum.splits)
      then obtain rc where run: "processDnsRequest P LookupIP r name reply q = Returns (SetRcode P reply q rc)"
        and rc: "rc \<noteq> RcodeSuccess P" using dns_pkg_okD(5,6) [OF P] by fast
      show ?thesis by (rule exI, rule conjI [OF run bad [OF rc]])
    next
      case True
      then obtain nc res where nc: "map_of (cache r) n = Some nc" "gm_get (services nc) svc False"
        and res: "LookupIP (svc @ ''.'' @ dns_namespace r @ ''.svc.'' @ clusterDomain r) = Inr res" by blast
      from c nc(1) obtain nw where nw: "nws n = Some nw" "caches nc nw"
        by (auto dest: cache_ok_Some)
      obtain rrs where rrs: "answer_loop P name nc res [] = Returns rrs"
        "\<forall>rr \<in> set rrs. \<exists>ip \<in> set res. \<exists>t. overlay_of nw (To4 ip) = Some t \<and>
           NewRR P (name @ '' 60 A '' @ IP_String t) = Inr rr"
        using answer_loop_result [OF nw(2), of P name res "[]" undefined] by auto
      have svc: "gm_has (services nc) svc" "svc \<in> set (ServiceNames (nw_Spec nw))"
        using nc(2) nw(2) by (auto simp: gm_has_def gm_get_def caches_def split: option.splits)
      have run: "processDnsRequest P LookupIP r name reply q = Returns (SetRcode P (reply\<lparr>Answer := rrs\<rparr>) q
          (if rrs = [] then RcodeNameError P else RcodeSuccess P))"
        using parts nc svc(1) res rrs(1) empty by (simp add: processDnsRequest_def)
      show ?thesis
        by (rule exI, rule conjI [OF run])
          (use parts svc(2) res rrs(2) nw(1) dns_pkg_okD(5) [OF P] in \<open>auto, blast\<close>)
    qed
  qed
qed

lemma handleDnsRequest_result:
  assumes P: "dns_pkg_ok P" and c: "cache_ok r nws"
  shows "\<exists>m. handleDnsRequest P LookupIP r q = Returns m \<and>
    (Rcode m = RcodeSuccess P \<longleftrightarrow> Answer m \<noteq> []) \<and>
    (\<forall>rr \<in> set (Answer m). \<exists>q0 qs svc n nw res ip t. Questions q = q0 # qs \<and> q_Qtype q0 = TypeA P \<and>
       strings_Split (strings_TrimSuffix (q_Name q0) (''.'' @ zone r)) CHR ''.'' = [svc, n] \<and> nws n = Some nw \<and>
       svc \<in> set (ServiceNames (nw_Spec nw)) \<and>
       LookupIP (svc @ ''.'' @ dns_namespace r @ ''.svc.'' @ clusterDomain r) = Inr res \<and> ip \<in> set res \<and>
       overlay_of nw (To4 ip) = Some t \<and> NewRR P (q_Name q0 @ '' 60 A '' @ IP_String t) = Inr rr)"
proof -
  note [simp] = dns_pkg_okD [OF P]
  define reply where "reply = (SetReply P new_Msg q)\<lparr>Compress := False\<rparr>"
  have reply: "Answer reply = []" "Questions reply = (if Questions q = [] then [] else [hd (Questions q)])"
    by (simp_all add: reply_def)
  show ?thesis
  proof (cases "Opcode q = OpcodeQuery P \<and> Questions q \<noteq> [] \<and> q_Qtype (hd (Questions q)) = TypeA P")
    case True
    then obtain q0 qs where q: "Questions q = q0 # qs" by (cases "Questions q") auto
    with True reply(2) have run: "handleDnsRequest P LookupIP r q = processDnsRequest P LookupIP r (q_Name q0) reply q"
      by (simp add: handleDnsRequest_def reply_def Let_def)
    show ?thesis
      unfolding run using processDnsRequest_result [OF P c reply(1), of LookupIP "q_Name q0" q] True q
      by (elim exE conjE) (intro exI conjI, assumption+, fastforce)
  next
    case False
    with reply have "handleDnsRequest P LookupIP r q \<in>
        (\<lambda>rc. Returns (SetRcode P reply q rc)) ` {RcodeNameError P, RcodeNotImplemented P}"
      by (auto simp: handleDnsRequest_def reply_def [symmetric] Let_def)
    then obtain rc where "handleDnsRequest P LookupIP r q = Returns (SetRcode P reply q rc)"
      and "rc \<noteq> RcodeSuccess P" using dns_pkg_okD(5,7) [OF P] by fast
    with reply(1) show ?thesis by simp
  qed
qed

section \<open>Names\<close>

lemma service_name_parts:
  assumes "CHR ''.'' \<notin> set svc" and "CHR ''.'' \<notin> set n"
  shows "strings_Split (strings_TrimSuffix (svc @ ''.'' @ n @ ''.'' @ zn) (''.'' @ zn)) CHR ''.'' = [svc, n]"
proof -
  have "strings_TrimSuffix ((svc @ ''.'' @ n) @ (''.'' @ zn)) (''.'' @ zn) = svc @ ''.'' @ n"
    by (rule strings_TrimSuffix_append)
  then show ?thesis
    using assms by (simp add: strings_Split_sep_append strings_Split_no_sep)
qed

lemma length_strings_Split: "length (strings_Split s c) = Suc (count_list s c)"
  by (induction s) (auto split: list.splits)

lemma strings_HasSuffix_last: "strings_HasSuffix s p \<Longrightarrow> p \<noteq> [] \<Longrightarrow> last s = last p"
  unfolding strings_HasSuffix_def by (metis append_take_drop_id last_appendR)

section \<open>Properties\<close>

definition demo_service_network :: OverlayNetwork where
  "demo_service_network = \<lparr>nw_meta = \<lparr>Name = ''net'', Namespace = ''ns'', ResourceVersion = ''1'',
       DeletionTimestamp = None, Finalizers = [], Labels = [], Annotations = []\<rparr>,
     nw_Spec = \<lparr>AllocatableCIDR = ''10.0.0.0/24'', Port = 5555, RoutableCIDRs = [], OptionalRoutes = [],
       ServiceNames = [''db'']\<rparr>,
     nw_Status = \<lparr>Allocations = [\<lparr>PodName = ''p'', PodIP = ''172.16.0.9'', IP = ''10.0.0.1'', ExtraNetworks = []\<rparr>],
       Routers = [], OptionalRouters = None\<rparr>\<rparr>"

definition service_kube :: "OverlayNetwork option kube" where
  "service_kube = \<lparr>kGetPod = (\<lambda>_ _ s. (Inl NotFound, s)),
     kGetNetwork = (\<lambda>_ _ s. (case s of None \<Rightarrow> Inl NotFound | Some nw \<Rightarrow> Inr nw, s)),
     kGetServiceAccount = (\<lambda>_ _ s. (Inl NotFound, s)), kGetSecret = (\<lambda>_ _ s. (Inl NotFound, s)),
     kGetRoleBinding = (\<lambda>_ _ s. (Inl NotFound, s)), kListNetworks = (\<lambda>_ s. (Inr [], s)),
     kWrite = (\<lambda>_ s. (None, s))\<rparr>"

definition demo_query :: "string \<Rightarrow> string Msg" where
  "demo_query name = \<lparr>Opcode = 0, Rcode = 0, Questions = [\<lparr>q_Name = name, q_Qtype = 1\<rparr>], Answer = [], Compress = False\<rparr>"

lemma cache_ok_new: "cache_ok (NewDNSReconciler ns zn d) Map.empty"
  by (simp add: cache_ok_def NewDNSReconciler_def)

lemma cache_ok_put: "cache_ok r nws \<Longrightarrow> caches nc nw \<Longrightarrow> cache_ok (r\<lparr>cache := gm_put (cache r) n nc\<rparr>) (nws(n \<mapsto> nw))"
  by (auto simp: cache_ok_def)

lemma demo_cache:
  obtains r where "cache_ok r [''net'' \<mapsto> demo_service_network]" "zone r = ''example.org.''"
    "dns_namespace r = ''ns''" "clusterDomain r = ''cluster.local''"
proof -
  let ?r = "NewDNSReconciler ''ns'' ''example.org.'' ''cluster.local''"
  obtain nc where "caches nc demo_service_network" using cache_entry_result by blast
  from that [OF cache_ok_put [OF cache_ok_new [of "''ns''" "''example.org.''" "''cluster.local''"] this]] show thesis
    by (simp add: NewDNSReconciler_def)
qed

text \<open>C30: the cache follows the networks. \<open>Reconcile\<close> never panics on the conversion of addresses; when
  it reads a network, the cache then represents that version of it (its services, and for every
  IPv4 pod address the overlay address allocated to it) and all other networks as before; when
  the network is gone its entry is gone; on another error nothing changes and it is retried.\<close>

theorem dns_cache_follows_networks:
  assumes "cache_ok r nws"
  shows "\<exists>res r' w'. reconcile_dns K ns name r w = Returns (res, r', w') \<and>
    (case kGetNetwork K ns name (env w) of
       (Inr nw, _) \<Rightarrow> res = finished \<and> cache_ok r' (nws(Name (nw_meta nw) \<mapsto> nw))
     | (Inl e, _) \<Rightarrow> if e = NotFound then res = finished \<and> cache_ok r' (nws(name := None))
                    else res = Failed e \<and> r' = r)"
proof (cases "kGetNetwork K ns name (env w)")
  case (Pair g s)
  then have rd: "read_env (kGetNetwork K ns name) w = (g, w\<lparr>env := s\<rparr>)" by (simp add: read_env_def)
  show ?thesis
  proof (cases g)
    case (Inl e)
    have "cache_ok (r\<lparr>cache := AList.delete name (cache r)\<rparr>) (nws(name := None))"
      using assms by (auto simp: cache_ok_def delete_conv')
    with rd Inl Pair show ?thesis by (simp add: reconcile_dns_def IsNotFound_def)
  next
    case (Inr nw)
    obtain nc where "caches nc nw"
      "reconcile_dns K ns name r w = Returns (finished, r\<lparr>cache := gm_put (cache r) (Name (nw_meta nw)) nc\<rparr>, w\<lparr>env := s\<rparr>)"
      using reconcile_dns_found [OF rd [unfolded Inr]] by blast
    with cache_ok_put [OF assms] Inr Pair show ?thesis by simp
  qed
qed

theorem dns_cache_follows_networks_witness:
  "\<exists>r' w'. reconcile_dns service_kube ''ns'' ''net'' (NewDNSReconciler ''ns'' ''example.org.'' '''')
     \<lparr>env = Some demo_service_network, requests = []\<rparr> = Returns (finished, r', w') \<and>
     cache_ok r' [''net'' \<mapsto> demo_service_network]"
  using dns_cache_follows_networks [OF cache_ok_new, of service_kube "''ns''" "''net''" "''ns''" "''example.org.''" "''''"
      "\<lparr>env = Some demo_service_network, requests = []\<rparr>"]
  by (auto simp: service_kube_def demo_service_network_def)

lemma service_resolved:
  assumes P: "dns_pkg_ok P" and c: "cache_ok r nws"
    and rr: "\<And>t. length t = 4 \<Longrightarrow> NewRR P ((svc @ ''.'' @ n @ ''.'' @ zone r) @ '' 60 A '' @ IP_String t) = Inr (mk t)"
    and nw: "nws n = Some nw" "svc \<in> set (ServiceNames (nw_Spec nw))"
    and dots: "CHR ''.'' \<notin> set svc" "CHR ''.'' \<notin> set n"
    and res: "LookupIP (svc @ ''.'' @ dns_namespace r @ ''.svc.'' @ clusterDomain r) = Inr res"
    and q: "Opcode q = OpcodeQuery P" "Questions q = \<lparr>q_Name = svc @ ''.'' @ n @ ''.'' @ zone r, q_Qtype = TypeA P\<rparr> # qs"
  shows "\<exists>m. handleDnsRequest P LookupIP r q = Returns m \<and>
    Answer m = map mk
      (List.map_filter (\<lambda>ip. if To4 ip = [] then None else overlay_of nw (To4 ip)) res)"
proof -
  note [simp] = dns_pkg_okD [OF P]
  let ?name = "svc @ ''.'' @ n @ ''.'' @ zone r"
  from c nw(1) obtain nc where nc: "map_of (cache r) n = Some nc" "caches nc nw"
    unfolding cache_ok_def by (metis option_rel_Some2)
  then have svc: "gm_get (services nc) svc False" "gm_has (services nc) svc"
    using nw(2) by (auto simp: caches_def gm_has_def gm_get_def split: option.splits)
  obtain rrs where loop: "answer_loop P ?name nc res [] = Returns ([] @ rrs)"
    "rrs = map mk
       (List.map_filter (\<lambda>ip. if To4 ip = [] then None else overlay_of nw (To4 ip)) res)"
    using answer_loop_result [OF nc(2), of P ?name res "[]" mk] rr by blast
  have "handleDnsRequest P LookupIP r q =
      processDnsRequest P LookupIP r ?name ((SetReply P new_Msg q)\<lparr>Compress := False\<rparr>) q"
    using q by (simp add: handleDnsRequest_def Let_def)
  also have "\<exists>m. \<dots> = Returns m \<and> Answer m = rrs"
    unfolding processDnsRequest_def service_name_parts [OF dots]
    using nc(1) svc res loop(1) by (simp add: Let_def)
  finally show ?thesis using loop(2) by simp
qed

lemma demo_service_overlay: "overlay_of demo_service_network [172, 16, 0, 9] = Some [10, 0, 0, 1]"
  by (simp add: overlay_of_def address_book_def demo_service_network_def go_parse_eval To4_def v4InV6Prefix_def)

lemma demo_service_unknown: "overlay_of demo_service_network [172, 16, 0, 8] = None"
  by (simp add: overlay_of_def address_book_def demo_service_network_def go_parse_eval To4_def v4InV6Prefix_def)

text \<open>The resolver of the cluster knows two pods behind the service; one of them is a member.\<close>

definition demo_lookup :: "string \<Rightarrow> string + ip list" where
  "demo_lookup host = (if host = ''db.ns.svc.cluster.local'' then Inr [[172, 16, 0, 8], [172, 16, 0, 9]] else Inl ''no such host'')"

lemma demo_members:
  "List.map_filter (\<lambda>ip. if To4 ip = [] then None else overlay_of demo_service_network (To4 ip)) [[172, 16, 0, 8], [172, 16, 0, 9]]
    = [[10, 0, 0, 1]]"
  using demo_service_overlay demo_service_unknown by (simp add: List.map_filter_def To4_def)

lemma demo_record: "''db'' @ ''.'' @ ''net'' @ ''.'' @ ''example.org.'' @ '' 60 A '' @ IP_String [10, 0, 0, 1] = ''db.net.example.org. 60 A 10.0.0.1''"
  by (simp add: go_print_eval)

lemma demo_resolved:
  obtains r m where "cache_ok r [''net'' \<mapsto> demo_service_network]"
    "handleDnsRequest dns_std demo_lookup r (demo_query ''db.net.example.org.'') = Returns m"
    "Answer m = [''db.net.example.org. 60 A 10.0.0.1'']"
proof -
  obtain r where r: "cache_ok r [''net'' \<mapsto> demo_service_network]" "zone r = ''example.org.''"
    "dns_namespace r = ''ns''" "clusterDomain r = ''cluster.local''" by (rule demo_cache)
  have std: "NewRR dns_std ((''db'' @ ''.'' @ ''net'' @ ''.'' @ zone r) @ '' 60 A '' @ IP_String t) =
      Inr (''db.net.example.org. 60 A '' @ IP_String t)" for t by (simp add: dns_std_def r(2))
  have "\<exists>m. handleDnsRequest dns_std demo_lookup r (demo_query ''db.net.example.org.'') = Returns m \<and>
    Answer m = map (\<lambda>t. ''db.net.example.org. 60 A '' @ IP_String t) (List.map_filter
      (\<lambda>ip. if To4 ip = [] then None else overlay_of demo_service_network (To4 ip)) [[172, 16, 0, 8], [172, 16, 0, 9]])"
    by (rule service_resolved [OF dns_std_ok r(1) std, where qs = "[]"])
      (simp_all add: r demo_service_network_def demo_query_def dns_std_def demo_lookup_def)
  with demo_record that [OF r(1)] show thesis unfolding demo_members by auto
qed

text \<open>C21: the DNS server gives away nothing else. Every query gets an answer without a panic; every
  record in it answers an A query for a service that the network lists, and carries the overlay
  address which that network has allocated to an address the cluster's resolver gave for the
  service. The code is success exactly if there is a record.\<close>

theorem dns_answers_are_allowed:
  assumes "dns_pkg_ok P" and "cache_ok r nws"
  shows "\<exists>m. handleDnsRequest P LookupIP r q = Returns m \<and>
    (Rcode m = RcodeSuccess P \<longleftrightarrow> Answer m \<noteq> []) \<and>
    (\<forall>rr \<in> set (Answer m). \<exists>q0 qs svc n nw res ip t. Questions q = q0 # qs \<and> q_Qtype q0 = TypeA P \<and>
       strings_Split (strings_TrimSuffix (q_Name q0) (''.'' @ zone r)) CHR ''.'' = [svc, n] \<and> nws n = Some nw \<and>
       svc \<in> set (ServiceNames (nw_Spec nw)) \<and>
       LookupIP (svc @ ''.'' @ dns_namespace r @ ''.svc.'' @ clusterDomain r) = Inr res \<and> ip \<in> set res \<and>
       overlay_of nw (To4 ip) = Some t \<and> NewRR P (q_Name q0 @ '' 60 A '' @ IP_String t) = Inr rr)"
  using assms by (rule handleDnsRequest_result)

theorem dns_answers_are_allowed_witness:
  "\<exists>r m. cache_ok r [''net'' \<mapsto> demo_service_network] \<and>
     handleDnsRequest dns_std demo_lookup r (demo_query ''db.net.example.org.'') = Returns m \<and> Rcode m = RcodeSuccess dns_std \<and>
     (\<exists>rr \<in> set (Answer m). \<exists>ip t. overlay_of demo_service_network (To4 ip) = Some t \<and> rr = ''db.net.example.org. 60 A '' @ IP_String t)"
proof -
  obtain r m where r: "cache_ok r [''net'' \<mapsto> demo_service_network]"
    and m: "handleDnsRequest dns_std demo_lookup r (demo_query ''db.net.example.org.'') = Returns m"
      "Answer m = [''db.net.example.org. 60 A 10.0.0.1'']" using demo_resolved by blast
  let ?rr = "''db.net.example.org. 60 A 10.0.0.1''" and ?q = "demo_query ''db.net.example.org.''"
  from dns_answers_are_allowed [OF dns_std_ok r, of demo_lookup ?q, unfolded m(1) outcome.inject] m(2)
  have success: "Rcode m = RcodeSuccess dns_std" and "\<exists>q0 qs n nw ip t. Questions ?q = q0 # qs \<and> [''net'' \<mapsto> demo_service_network] n = Some nw \<and>
      overlay_of nw (To4 ip) = Some t \<and> NewRR dns_std (q_Name q0 @ '' 60 A '' @ IP_String t) = Inr ?rr"
    by (simp_all only: ex_simps simp_thms list.set list.simps) blast+
  then obtain q0 qs n nw ip t where t: "Questions ?q = q0 # qs" "[''net'' \<mapsto> demo_service_network] n = Some nw"
    "overlay_of nw (To4 ip) = Some t" "NewRR dns_std (q_Name q0 @ '' 60 A '' @ IP_String t) = Inr ?rr" by blast
  from t(1,2,4) have "nw = demo_service_network" "?rr = ''db.net.example.org. 60 A '' @ IP_String t"
    by (auto simp: demo_query_def dns_std_def split: if_splits)
  with r m success t(3) show ?thesis by (intro exI [of _ r] exI [of _ m]) auto
qed



text \<open>A zone must end with a dot. Query names always do; if the configured zone does not, every name
  \<open>service.network.zone.\<close> below it is answered as unknown, whatever the cache holds.\<close>

lemma dns_zone_needs_final_dot:
  assumes "zone r = zn @ [c]" and "c \<noteq> CHR ''.''"
  shows "processDnsRequest P LookupIP r (svc @ ''.'' @ n @ ''.'' @ zone r @ ''.'') reply q
    = Returns (SetRcode P reply q (RcodeNameError P))"
proof -
  let ?name = "svc @ ''.'' @ n @ ''.'' @ zone r @ ''.''"
  have "\<not> strings_HasSuffix ?name (''.'' @ zone r)"
    using strings_HasSuffix_last [of ?name "''.'' @ zone r"] assms by auto
  then have "strings_TrimSuffix ?name (''.'' @ zone r) = ?name" by (simp add: strings_TrimSuffix_def)
  moreover have "3 \<le> length (strings_Split ?name CHR ''.'')" by (simp add: length_strings_Split)
  ultimately show ?thesis by (auto simp: processDnsRequest_def split: list.splits)
qed

lemma dns_zone_needs_final_dot_witness:
  "processDnsRequest dns_std (\<lambda>_. Inr []) (NewDNSReconciler ''ns'' ''example.org'' '''')
     (''db'' @ ''.'' @ ''net'' @ ''.'' @ zone (NewDNSReconciler ''ns'' ''example.org'' '''') @ ''.'') new_Msg (demo_query ''x'')
    = Returns (SetRcode dns_std new_Msg (demo_query ''x'') (RcodeNameError dns_std))"
  by (rule dns_zone_needs_final_dot [of _ "''example.or''" "CHR ''g''"]) (simp_all add: NewDNSReconciler_def)

end
