(* ===== verification/Startup.thy ===== *)
theory Startup
  imports TunnelLinks KernelModules Resolver
begin

text \<open>
  The four programs of \<open>cmd/\<close>: operator, webhook, sidecar and DNS server. Each registers the API
  types, reads its flags and environment, creates a manager of controller-runtime, registers what
  it runs there, starts the manager and exits with code 1 at the first error.

  controller-runtime, kmod and the DNS server are parameters: \<open>perform\<close> executes one of the calls
  listed in \<open>boot_step\<close> on the state \<open>'o\<close> of the outside world and tells its error, if any. The calls made are
  recorded in the ghost field \<open>trace\<close>. The environment maps the variables that are set to their
  values; a command line is what \<open>flag.Parse\<close> makes of it, the flags that are given with their values.
\<close>

section \<open>Processes\<close>

datatype kind = Kind_OverlayNetwork | Kind_Pod | Kind_Namespace

datatype reconciler =
    OverlayNetworkReconciler
  | PodReconciler
  | NamespaceReconciler
  | Tunnel_Reconciler TunnelReconciler
  | DNS_Reconciler DNSReconciler

datatype handler = Handler_PodInjector | Handler_OverlayNetworkValidator

record Options =
  MetricsBindAddress :: string
  opt_Port :: int
  HealthProbeBindAddress :: string
  LeaderElection :: bool
  LeaderElectionID :: string
  opt_Namespace :: string

datatype boot_step =
    AddToScheme string
  | GetConfigOrDie
  | NewManager Options
  | Kmod_New
  | Kmod_Load string string int
  | Complete kind reconciler
  | WebhookComplete kind
  | Register string handler
  | AddHealthzCheck string
  | AddReadyzCheck string
  | Go_ServeDNS DNSReconciler
  | Start
  | Dns_HandleFunc string
  | Dns_ListenAndServe string string
  | Await_Done
  | Dns_Shutdown
  | Netlink command

record 'o process =
  world_state :: 'o
  trace :: "boot_step list"

type_synonym 'o runtime = "boot_step \<Rightarrow> 'o \<Rightarrow> string option \<times> 'o"

datatype exit = Exited nat | Panicked

definition perform :: "'o runtime \<Rightarrow> boot_step \<Rightarrow> 'o process \<Rightarrow> string option \<times> 'o process" where
  "perform P s p = (case P s (world_state p) of (e, o') \<Rightarrow> (e, \<lparr>world_state = o', trace = trace p @ [s]\<rparr>))"

text \<open>Calls in sequence: the first one that fails ends the process with \<open>x\<close>; \<open>k\<close> is the rest of the
  program. \<open>checked\<close> is the idiom \<open>if err := f(); err != nil { log; os.Exit(1) }\<close>, and \<open>must\<close> is
  \<open>utilruntime.Must\<close>, which panics.\<close>

fun run_calls ::
  "exit \<Rightarrow> 'o runtime \<Rightarrow> boot_step list \<Rightarrow> ('o process \<Rightarrow> exit \<times> 'o process) \<Rightarrow> 'o process \<Rightarrow> exit \<times> 'o process" where
  "run_calls x P [] k p = k p"
| "run_calls x P (s # ss) k p =
     (case perform P s p of
       (Some err, p) \<Rightarrow> (x, p)
     | (None, p) \<Rightarrow> run_calls x P ss k p)"

abbreviation checked :: "'o runtime \<Rightarrow> boot_step list \<Rightarrow> ('o process \<Rightarrow> exit \<times> 'o process) \<Rightarrow> 'o process \<Rightarrow> exit \<times> 'o process" where
  "checked \<equiv> run_calls (Exited 1)"

abbreviation must :: "'o runtime \<Rightarrow> boot_step list \<Rightarrow> ('o process \<Rightarrow> exit \<times> 'o process) \<Rightarrow> 'o process \<Rightarrow> exit \<times> 'o process" where
  "must \<equiv> run_calls Panicked"

text \<open>Each program has an \<open>init\<close> of its own, which runs before \<open>main\<close>; \<open>init_scheme\<close> is that of the sidecar.\<close>

definition init_scheme :: "boot_step list" where
  "init_scheme = [AddToScheme ''clientgoscheme'', AddToScheme ''networkv1alpha1'']"

definition operator_init :: "boot_step list" where
  "operator_init = [AddToScheme ''clientgoscheme'', AddToScheme ''networkv1alpha1'']"

definition webhook_init :: "boot_step list" where
  "webhook_init = [AddToScheme ''clientgoscheme'', AddToScheme ''networkv1alpha1'']"

definition dns_init :: "boot_step list" where
  "dns_init = [AddToScheme ''clientgoscheme'', AddToScheme ''networkv1alpha1'']"

lemma same_init: "operator_init = init_scheme" "webhook_init = init_scheme" "dns_init = init_scheme"
  by (simp_all add: operator_init_def webhook_init_def dns_init_def init_scheme_def)

type_synonym flags = "string \<Rightarrow> string option"

definition StringVar :: "flags \<Rightarrow> string \<Rightarrow> string \<Rightarrow> string" where
  "StringVar fl name value = (case fl name of None \<Rightarrow> value | Some v \<Rightarrow> v)"

text \<open>\<open>flag.BoolVar\<close>: the values \<open>strconv.ParseBool\<close> takes for true; the parser has rejected all but
  those and the ones for false.\<close>

definition BoolVar :: "flags \<Rightarrow> string \<Rightarrow> bool \<Rightarrow> bool" where
  "BoolVar fl name value = (case fl name of None \<Rightarrow> value
     | Some v \<Rightarrow> v \<in> {''1'', ''t'', ''T'', ''TRUE'', ''true'', ''True''})"

section \<open>Registration of the controllers\<close>

definition OverlayNetworkReconciler_SetupWithManager :: boot_step where
  "OverlayNetworkReconciler_SetupWithManager = Complete Kind_OverlayNetwork OverlayNetworkReconciler"

definition PodReconciler_SetupWithManager :: boot_step where
  "PodReconciler_SetupWithManager = Complete Kind_Pod PodReconciler"

definition NamespaceReconciler_SetupWithManager :: boot_step where
  "NamespaceReconciler_SetupWithManager = Complete Kind_Namespace NamespaceReconciler"

definition DNSReconciler_SetupWithManager :: "DNSReconciler \<Rightarrow> boot_step" where
  "DNSReconciler_SetupWithManager r = Complete Kind_OverlayNetwork (DNS_Reconciler r)"

section \<open>The programs\<close>

definition main_operator :: "'o runtime \<Rightarrow> flags \<Rightarrow> 'o process \<Rightarrow> exit \<times> 'o process" where
  "main_operator P fl =
     must P operator_init (
       let metricsAddr = StringVar fl ''metrics-bind-address'' '':8080'';
           probeAddr = StringVar fl ''health-probe-bind-address'' '':8081'';
           enableLeaderElection = BoolVar fl ''leader-elect'' False
       in checked P
         [GetConfigOrDie,
          NewManager \<lparr>MetricsBindAddress = metricsAddr, opt_Port = 9443, HealthProbeBindAddress = probeAddr,
            LeaderElection = enableLeaderElection, LeaderElectionID = ''9ebb8151.deinstapel.de'', opt_Namespace = ''''\<rparr>,
          OverlayNetworkReconciler_SetupWithManager,
          PodReconciler_SetupWithManager,
          NamespaceReconciler_SetupWithManager,
          AddHealthzCheck ''healthz'',
          AddReadyzCheck ''readyz'',
          Start]
         (\<lambda>p. (Exited 0, p)))"

definition main_webhook :: "'o runtime \<Rightarrow> flags \<Rightarrow> (string \<Rightarrow> string option) \<Rightarrow> 'o process \<Rightarrow> exit \<times> 'o process" where
  "main_webhook P fl LookupEnv =
     must P webhook_init (
       let metricsAddr = StringVar fl ''metrics-bind-address'' '':8080'';
           probeAddr = StringVar fl ''health-probe-bind-address'' '':8081''
       in if LookupEnv ''SIDECAR_IMAGE'' = None then (\<lambda>p. (Exited 1, p))
          else checked P
            [GetConfigOrDie,
             NewManager \<lparr>MetricsBindAddress = metricsAddr, opt_Port = 9443, HealthProbeBindAddress = probeAddr,
               LeaderElection = False, LeaderElectionID = '''', opt_Namespace = ''''\<rparr>]
            (\<lambda>p. let p = snd (perform P (Register ''/mutate-v1-pod'' Handler_PodInjector) p);
                     p = snd (perform P (Register ''/validate-network-deinstapel-de-v1alpha1-overlaynetwork''
                           Handler_OverlayNetworkValidator) p)
                 in checked P [AddHealthzCheck ''healthz'', AddReadyzCheck ''readyz'', Start] (\<lambda>p. (Exited 0, p)) p))"

text \<open>The sidecar. When the manager stops without an error, the tunnels are removed; \<open>N\<close> is the kernel
  behind netlink, part of the same world.\<close>

definition shutdown_tunnels :: "'o netlink \<Rightarrow> 'o process \<Rightarrow> 'o process" where
  "shutdown_tunnels N p =
     (let n = Shutdown N \<lparr>kernel = world_state p, commands = []\<rparr>
      in \<lparr>world_state = kernel n, trace = trace p @ map Netlink (commands n)\<rparr>)"

definition main_sidecar ::
  "'o runtime \<Rightarrow> 'o netlink \<Rightarrow> flags \<Rightarrow> (string \<Rightarrow> string option) \<Rightarrow> 'o process \<Rightarrow> exit \<times> 'o process" where
  "main_sidecar P N fl LookupEnv =
     must P init_scheme (
       let metricsAddr = StringVar fl ''metrics-bind-address'' '':12001'';
           probeAddr = StringVar fl ''health-probe-bind-address'' '':12000''
       in case LookupEnv ''POD_NAMESPACE'' of
            None \<Rightarrow> (\<lambda>p. (Exited 1, p))
          | Some namespace \<Rightarrow>
              checked P
                [GetConfigOrDie,
                 NewManager \<lparr>MetricsBindAddress = metricsAddr, opt_Port = 12002, HealthProbeBindAddress = probeAddr,
                   LeaderElection = False, LeaderElectionID = '''', opt_Namespace = namespace\<rparr>,
                 Kmod_New,
                 Kmod_Load ''fou'' '''' 0,
                 Kmod_Load ''ipip'' '''' 0]
                (case SetupWithManager (LookupEnv ''POD_NAME'') of
                  Inl err \<Rightarrow> (\<lambda>p. (Exited 1, p))
                | Inr r \<Rightarrow>
                    checked P
                      [Complete Kind_OverlayNetwork (Tunnel_Reconciler r),
                       AddHealthzCheck ''healthz'',
                       AddReadyzCheck ''readyz'',
                       Start]
                      (\<lambda>p. (Exited 0, shutdown_tunnels N p))))"

text \<open>\<open>DNSReconciler.ServeDNS\<close>. In \<open>main\<close> it runs in a goroutine of its own, and its error is only logged.\<close>

definition ServeDNS :: "'o runtime \<Rightarrow> DNSReconciler \<Rightarrow> 'o process \<Rightarrow> string option \<times> 'o process" where
  "ServeDNS P r p =
     (let p = snd (perform P (Dns_HandleFunc (zone r)) p)
      in case perform P (Dns_ListenAndServe '':53'' ''udp'') p of
           (Some err, p) \<Rightarrow> (Some err, p)
         | (None, p) \<Rightarrow>
             let p = snd (perform P Await_Done p)
             in perform P Dns_Shutdown p)"

definition main_dns :: "'o runtime \<Rightarrow> flags \<Rightarrow> (string \<Rightarrow> string option) \<Rightarrow> 'o process \<Rightarrow> exit \<times> 'o process" where
  "main_dns P fl LookupEnv =
     must P dns_init (
       let metricsAddr = StringVar fl ''metrics-bind-address'' '':12001'';
           probeAddr = StringVar fl ''health-probe-bind-address'' '':12000''
       in case LookupEnv ''POD_NAMESPACE'' of
            None \<Rightarrow> (\<lambda>p. (Exited 1, p))
          | Some namespace \<Rightarrow>
             (case LookupEnv ''ROOT_ZONE'' of
               None \<Rightarrow> (\<lambda>p. (Exited 1, p))
             | Some zn \<Rightarrow>
                 let r = NewDNSReconciler namespace zn (case LookupEnv ''CLUSTER_DOMAIN'' of None \<Rightarrow> '''' | Some d \<Rightarrow> d)
                 in checked P
                     [GetConfigOrDie,
                      NewManager \<lparr>MetricsBindAddress = metricsAddr, opt_Port = 12002, HealthProbeBindAddress = probeAddr,
                        LeaderElection = False, LeaderElectionID = '''', opt_Namespace = namespace\<rparr>,
                      DNSReconciler_SetupWithManager r,
                      AddHealthzCheck ''healthz'',
                      AddReadyzCheck ''readyz'']
                     (\<lambda>p. checked P [Start] (\<lambda>p. (Exited 0, p)) (snd (perform P (Go_ServeDNS r) p)))))"

section \<open>Runs\<close>

lemma trace_perform: "perform P s p = (e, q) \<Longrightarrow> trace q = trace p @ [s]"
  by (auto simp: perform_def split: prod.splits)

lemma trace_unchecked: "trace (snd (perform P s p)) = trace p @ [s]"
  using trace_perform [of P s p] by (cases "perform P s p") simp

text \<open>A run of a list of calls stops within the list or goes through all of it.\<close>

lemma run_calls_cases:
  assumes "run_calls x0 P ss k p = (x, q)"
  obtains (stopped) i where "i < length ss" "x = x0" "trace q = trace p @ take (Suc i) ss"
  | (passed) p' where "trace p' = trace p @ ss" "k p' = (x, q)"
  using assms
proof (induction ss arbitrary: p thesis)
  case (Cons s ss)
  obtain e p1 where s: "perform P s p = (e, p1)" by fastforce
  note t = trace_perform [OF s]
  show ?case
  proof (cases e)
    case None
    with s Cons.prems(3) have "run_calls x0 P ss k p1 = (x, q)" by simp
    then show ?thesis
    proof (rule Cons.IH [rotated 2])
      fix i assume "i < length ss" "x = x0" "trace q = trace p1 @ take (Suc i) ss"
      then show ?thesis using t by (intro Cons.prems(1) [of "Suc i"]) simp_all
    next
      fix p' assume "trace p' = trace p1 @ ss" "k p' = (x, q)"
      then show ?thesis using t by (intro Cons.prems(2) [of p']) simp_all
    qed
  next
    case (Some err)
    with s Cons.prems(3) t show ?thesis by (intro Cons.prems(1) [of 0]) simp_all
  qed
qed simp

text \<open>\<open>follows plan fin prog\<close>: the program makes the calls of the plan in order; it ends early with a
  code other than 0, or makes them all and then ends as \<open>fin\<close> says.\<close>

definition follows ::
  "boot_step list \<Rightarrow> ('o process \<Rightarrow> exit \<Rightarrow> 'o process \<Rightarrow> bool) \<Rightarrow> ('o process \<Rightarrow> exit \<times> 'o process) \<Rightarrow> bool" where
  "follows plan fin prog \<longleftrightarrow> (\<forall>p x q. prog p = (x, q) \<longrightarrow>
     (\<exists>i < length plan. x \<noteq> Exited 0 \<and> trace q = trace p @ take (Suc i) plan) \<or>
     (\<exists>p'. trace p' = trace p @ plan \<and> fin p' x q))"

lemma followsE:
  assumes "follows plan fin prog" and "prog p = (x, q)"
  obtains (early) i where "i < length plan" "x \<noteq> Exited 0" "trace q = trace p @ take (Suc i) plan"
  | (late) p' where "trace p' = trace p @ plan" "fin p' x q"
  using assms unfolding follows_def by blast

lemma follows_last: "(\<And>p. fin p (fst (prog p)) (snd (prog p))) \<Longrightarrow> follows [] fin prog"
  unfolding follows_def by (metis append_Nil2 fst_conv snd_conv)

lemma follows_calls:
  assumes "follows plan fin prog" and "x0 \<noteq> Exited 0"
  shows "follows (ss @ plan) fin (run_calls x0 P ss prog)"
  unfolding follows_def
proof (intro allI impI)
  fix p x q assume "run_calls x0 P ss prog p = (x, q)"
  then show "(\<exists>i<length (ss @ plan). x \<noteq> Exited 0 \<and> trace q = trace p @ take (Suc i) (ss @ plan)) \<or>
      (\<exists>p'. trace p' = trace p @ ss @ plan \<and> fin p' x q)"
  proof (cases rule: run_calls_cases)
    case (stopped i)
    with assms(2) show ?thesis by (intro disjI1 exI [of _ i]) simp
  next
    case (passed p')
    from assms(1) passed(2) show ?thesis
    proof (cases rule: followsE)
      case (early i)
      with passed(1) show ?thesis by (intro disjI1 exI [of _ "length ss + i"]) simp
    next
      case (late p'')
      with passed(1) show ?thesis by (intro disjI2 exI [of _ p'']) simp
    qed
  qed
qed

lemma follows_unchecked:
  assumes "follows plan fin prog"
  shows "follows (s # plan) fin (\<lambda>p. prog (snd (perform P s p)))"
  unfolding follows_def
proof (intro allI impI)
  fix p x q assume "prog (snd (perform P s p)) = (x, q)"
  with assms show "(\<exists>i<length (s # plan). x \<noteq> Exited 0 \<and> trace q = trace p @ take (Suc i) (s # plan)) \<or>
      (\<exists>p'. trace p' = trace p @ s # plan \<and> fin p' x q)"
  proof (cases rule: followsE)
    case (early i)
    then show ?thesis by (intro disjI1 exI [of _ "Suc i"]) (simp add: trace_unchecked)
  next
    case (late p')
    then show ?thesis by (intro disjI2 exI [of _ p']) (simp add: trace_unchecked)
  qed
qed

lemmas follows_must = follows_calls [where ?x0.0 = Panicked, simplified]
lemmas follows_checked = follows_calls [where ?x0.0 = "Exited 1", simplified]

definition exits_0 :: "'o process \<Rightarrow> exit \<Rightarrow> 'o process \<Rightarrow> bool" where
  "exits_0 p x q \<longleftrightarrow> x = Exited 0 \<and> q = p"

lemma follows_exit_0: "follows [] exits_0 (\<lambda>p. (Exited 0, p))"
  by (rule follows_last) (simp add: exits_0_def)

section \<open>What the programs do\<close>

definition manager_options :: "flags \<Rightarrow> string \<Rightarrow> string \<Rightarrow> int \<Rightarrow> bool \<Rightarrow> string \<Rightarrow> string \<Rightarrow> Options" where
  "manager_options fl metrics probes port elect i ns = \<lparr>MetricsBindAddress = StringVar fl ''metrics-bind-address'' metrics,
     opt_Port = port, HealthProbeBindAddress = StringVar fl ''health-probe-bind-address'' probes,
     LeaderElection = elect, LeaderElectionID = i, opt_Namespace = ns\<rparr>"

definition operator_plan :: "flags \<Rightarrow> boot_step list" where
  "operator_plan fl = init_scheme @ [GetConfigOrDie,
     NewManager (manager_options fl '':8080'' '':8081'' 9443 (BoolVar fl ''leader-elect'' False) ''9ebb8151.deinstapel.de'' ''''),
     Complete Kind_OverlayNetwork OverlayNetworkReconciler, Complete Kind_Pod PodReconciler,
     Complete Kind_Namespace NamespaceReconciler, AddHealthzCheck ''healthz'', AddReadyzCheck ''readyz'', Start]"

lemma main_operator_follows: "follows (operator_plan fl) exits_0 (main_operator P fl)"
  using follows_must [OF follows_checked [OF follows_exit_0]]
  by (simp add: main_operator_def same_init operator_plan_def manager_options_def OverlayNetworkReconciler_SetupWithManager_def
      PodReconciler_SetupWithManager_def NamespaceReconciler_SetupWithManager_def Let_def)

definition webhook_plan :: "flags \<Rightarrow> boot_step list" where
  "webhook_plan fl = init_scheme @ [GetConfigOrDie,
     NewManager (manager_options fl '':8080'' '':8081'' 9443 False '''' ''''),
     Register ''/mutate-v1-pod'' Handler_PodInjector,
     Register ''/validate-network-deinstapel-de-v1alpha1-overlaynetwork'' Handler_OverlayNetworkValidator,
     AddHealthzCheck ''healthz'', AddReadyzCheck ''readyz'', Start]"

lemma main_webhook_follows:
  assumes "LookupEnv ''SIDECAR_IMAGE'' = Some img"
  shows "follows (webhook_plan fl) exits_0 (main_webhook P fl LookupEnv)"
proof -
  note checks = follows_checked [OF follows_exit_0, of "[AddHealthzCheck ''healthz'', AddReadyzCheck ''readyz'', Start]" P]
  note hooks = follows_unchecked [OF follows_unchecked [OF checks, of "Register ''/validate-network-deinstapel-de-v1alpha1-overlaynetwork''
      Handler_OverlayNetworkValidator" P], of "Register ''/mutate-v1-pod'' Handler_PodInjector" P]
  show ?thesis
    using follows_must [OF follows_checked [OF hooks, of "[GetConfigOrDie,
        NewManager (manager_options fl '':8080'' '':8081'' 9443 False '''' '''')]" P], of init_scheme P] assms
    by (simp add: main_webhook_def same_init webhook_plan_def manager_options_def Let_def)
qed

text \<open>The sidecar and the DNS server need their environment.\<close>

definition sidecar_plan :: "flags \<Rightarrow> string \<Rightarrow> string \<Rightarrow> boot_step list" where
  "sidecar_plan fl ns podName = init_scheme @ [GetConfigOrDie,
     NewManager (manager_options fl '':12001'' '':12000'' 12002 False '''' ns),
     Kmod_New, Kmod_Load ''fou'' '''' 0, Kmod_Load ''ipip'' '''' 0,
     Complete Kind_OverlayNetwork (Tunnel_Reconciler \<lparr>myPodName = podName, networkToName = [], networkIndex = 0\<rparr>),
     AddHealthzCheck ''healthz'', AddReadyzCheck ''readyz'', Start]"

definition exits_after_shutdown :: "'o netlink \<Rightarrow> 'o process \<Rightarrow> exit \<Rightarrow> 'o process \<Rightarrow> bool" where
  "exits_after_shutdown N p x q \<longleftrightarrow> x = Exited 0 \<and> q = shutdown_tunnels N p"

lemma main_sidecar_follows:
  assumes "LookupEnv ''POD_NAMESPACE'' = Some ns" and "LookupEnv ''POD_NAME'' = Some podName"
  shows "follows (sidecar_plan fl ns podName) (exits_after_shutdown N) (main_sidecar P N fl LookupEnv)"
proof -
  have last: "follows [] (exits_after_shutdown N) (\<lambda>p. (Exited 0, shutdown_tunnels N p))"
    by (rule follows_last) (simp add: exits_after_shutdown_def)
  note start = follows_checked [OF last, of "[Complete Kind_OverlayNetwork (Tunnel_Reconciler \<lparr>myPodName = podName,
      networkToName = [], networkIndex = 0\<rparr>), AddHealthzCheck ''healthz'', AddReadyzCheck ''readyz'', Start]" P]
  show ?thesis
    using follows_must [OF follows_checked [OF start, of "[GetConfigOrDie,
        NewManager (manager_options fl '':12001'' '':12000'' 12002 False '''' ns), Kmod_New, Kmod_Load ''fou'' '''' 0,
        Kmod_Load ''ipip'' '''' 0]" P], of init_scheme P] assms
    by (simp add: main_sidecar_def sidecar_plan_def manager_options_def SetupWithManager_def Let_def)
qed

definition dns_plan :: "flags \<Rightarrow> string \<Rightarrow> DNSReconciler \<Rightarrow> boot_step list" where
  "dns_plan fl ns r = init_scheme @ [GetConfigOrDie,
     NewManager (manager_options fl '':12001'' '':12000'' 12002 False '''' ns),
     Complete Kind_OverlayNetwork (DNS_Reconciler r), AddHealthzCheck ''healthz'', AddReadyzCheck ''readyz'',
     Go_ServeDNS r, Start]"

lemma main_dns_follows:
  assumes "LookupEnv ''POD_NAMESPACE'' = Some ns" and "LookupEnv ''ROOT_ZONE'' = Some zn"
  shows "follows (dns_plan fl ns (NewDNSReconciler ns zn (case LookupEnv ''CLUSTER_DOMAIN'' of None \<Rightarrow> '''' | Some d \<Rightarrow> d)))
    exits_0 (main_dns P fl LookupEnv)"
proof -
  let ?r = "NewDNSReconciler ns zn (case LookupEnv ''CLUSTER_DOMAIN'' of None \<Rightarrow> '''' | Some d \<Rightarrow> d)"
  note serve = follows_unchecked [OF follows_checked [OF follows_exit_0, of "[Start]" P], of "Go_ServeDNS ?r" P]
  show ?thesis
    using follows_must [OF follows_checked [OF serve, of "[GetConfigOrDie,
        NewManager (manager_options fl '':12001'' '':12000'' 12002 False '''' ns),
        Complete Kind_OverlayNetwork (DNS_Reconciler ?r), AddHealthzCheck ''healthz'', AddReadyzCheck ''readyz'']" P], of init_scheme P] assms
    by (simp add: main_dns_def same_init dns_plan_def manager_options_def DNSReconciler_SetupWithManager_def Let_def)
qed

lemma shutdown_tunnels_trace:
  "\<exists>links. trace (shutdown_tunnels N p) = trace p @ map (Netlink \<circ> LinkDel) links \<and> (\<forall>l \<in> set links. linkNameRegex (attr_Name l))"
proof -
  obtain g n where g: "nl_read (nl_LinkList N) \<lparr>kernel = world_state p, commands = []\<rparr> = (g, n)" by fastforce
  show ?thesis
  proof (cases g)
    case (Inl err)
    with g show ?thesis
      using commands_nl_read [OF g] by (intro exI [of _ "[]"]) (simp add: shutdown_tunnels_def Shutdown_def Let_def)
  next
    case (Inr links)
    with g show ?thesis
      using commands_nl_read [OF g]
      by (intro exI [of _ "filter (\<lambda>l. linkNameRegex (attr_Name l)) links"])
        (simp add: shutdown_tunnels_def Shutdown_def Let_def delete_overlay_links_commands)
  qed
qed

text \<open>The calls that put something into operation.\<close>

definition registers :: "boot_step \<Rightarrow> bool" where
  "registers s = (case s of Complete _ _ \<Rightarrow> True | WebhookComplete _ \<Rightarrow> True | Register _ _ \<Rightarrow> True | Go_ServeDNS _ \<Rightarrow> True | Start \<Rightarrow> True | _ \<Rightarrow> False)"

definition refuses :: "('o process \<Rightarrow> exit \<times> 'o process) \<Rightarrow> bool" where
  "refuses prog \<longleftrightarrow> (\<forall>p x q. prog p = (x, q) \<longrightarrow>
     x \<noteq> Exited 0 \<and> (\<exists>ss. trace q = trace p @ ss \<and> \<not> list_ex registers ss))"

lemma refuses_exit [simp, intro]: "refuses (Pair (Exited (Suc 0)))"
  by (auto simp: refuses_def intro: exI [of _ "[]"])

lemma refuses_calls:
  assumes "refuses prog" and "\<not> list_ex registers ss" and "x0 \<noteq> Exited 0"
  shows "refuses (run_calls x0 P ss prog)"
  unfolding refuses_def
proof (intro allI impI)
  fix p x q assume "run_calls x0 P ss prog p = (x, q)"
  then show "x \<noteq> Exited 0 \<and> (\<exists>ss. trace q = trace p @ ss \<and> \<not> list_ex registers ss)"
  proof (cases rule: run_calls_cases)
    case (stopped i)
    with assms(2,3) show ?thesis by (auto simp: list_ex_iff dest!: in_set_takeD)
  next
    case (passed p')
    with assms(1) obtain ts where "x \<noteq> Exited 0" "trace q = trace p' @ ts" "\<not> list_ex registers ts"
      unfolding refuses_def by blast
    with passed(1) assms(2) show ?thesis by (intro conjI exI [of _ "ss @ ts"]) simp_all
  qed
qed

lemma init_scheme_registers [simp]: "\<not> list_ex registers init_scheme"
  by (simp add: init_scheme_def registers_def)

text \<open>A plan that ends with the start of the manager.\<close>

definition started_complete :: "boot_step list \<Rightarrow> 'o process \<Rightarrow> exit \<Rightarrow> 'o process \<Rightarrow> bool" where
  "started_complete plan p x q \<longleftrightarrow> (\<exists>i. trace q = trace p @ take i plan) \<and>
     (x = Exited 0 \<or> Start \<in> set (drop (length (trace p)) (trace q)) \<longrightarrow> trace q = trace p @ plan)"

lemma follows_start:
  assumes "follows plan exits_0 prog" and "prog p = (x, q)" and "Start \<notin> set (butlast plan)"
  shows "started_complete plan p x q"
  using assms(1,2)
proof (cases rule: followsE)
  case (early i)
  have "Suc i = length plan" if "Start \<in> set (take (Suc i) plan)"
  proof (rule ccontr)
    assume "Suc i \<noteq> length plan"
    with early(1) have "take (Suc i) plan = take (Suc i) (butlast plan)" by (simp add: take_butlast)
    with that assms(3) show False by (auto dest: in_set_takeD)
  qed
  with early show ?thesis by (auto simp: started_complete_def)
next
  case (late p')
  then show ?thesis by (auto simp: started_complete_def exits_0_def intro: exI [of _ "length plan"])
qed

section \<open>Properties\<close>

definition bare_process :: "unit process" where
  "bare_process = \<lparr>world_state = (), trace = []\<rparr>"

definition fine_runtime :: "unit runtime" where
  "fine_runtime s k = (None, k)"

definition demo_env :: "string \<Rightarrow> string option" where
  "demo_env = [''POD_NAME'' \<mapsto> ''a'', ''POD_NAMESPACE'' \<mapsto> ''ns'', ''SIDECAR_IMAGE'' \<mapsto> ''img'']"

text \<open>C34: the calls of the sidecar's \<open>main\<close>, if its variables are set. It loads \<open>fou\<close> and \<open>ipip\<close> before it registers
  the tunnel reconciler under the name of its pod, adds its checks and only then starts the
  manager. It exits with 0 only after the manager has returned without error and \<open>Shutdown\<close> has asked the kernel to
  delete links with the name of a tunnel, and no others; in every other case the calls made are a first part
  of that sequence and \<open>Shutdown\<close> is not called. \<open>Start\<close> is one call here: what the reconciler
  commands while the manager runs, which includes deleting links to former peers, is in \<open>Tunneler\<close>.\<close>

theorem sidecar_lifecycle:
  assumes "LookupEnv ''POD_NAMESPACE'' = Some ns" and "LookupEnv ''POD_NAME'' = Some podName"
    and "main_sidecar P N fl LookupEnv p = (x, q)"
  shows "(x \<noteq> Exited 0 \<and> (\<exists>i. trace q = trace p @ take i (sidecar_plan fl ns podName))) \<or>
    (x = Exited 0 \<and> (\<exists>links. trace q = trace p @ sidecar_plan fl ns podName @ map (Netlink \<circ> LinkDel) links \<and>
       (\<forall>l \<in> set links. linkNameRegex (attr_Name l))))"
  using main_sidecar_follows [OF assms(1,2)] assms(3)
proof (cases rule: followsE)
  case (late p')
  with shutdown_tunnels_trace [of N p'] show ?thesis by (auto simp: exits_after_shutdown_def)
qed blast

theorem sidecar_lifecycle_witness:
  "(\<exists>links. trace (snd (main_sidecar fine_runtime (fixed_netlink []) (\<lambda>_. None) demo_env bare_process)) =
      sidecar_plan (\<lambda>_. None) ''ns'' ''a'' @ map (Netlink \<circ> LinkDel) links)"
proof -
  obtain x q where run: "main_sidecar fine_runtime (fixed_netlink []) (\<lambda>_. None) demo_env bare_process = (x, q)" by fastforce
  have e: "demo_env ''POD_NAMESPACE'' = Some ''ns''" "demo_env ''POD_NAME'' = Some ''a''" by (simp_all add: demo_env_def)
  have "x = Exited 0"
    using run by (simp add: main_sidecar_def init_scheme_def e SetupWithManager_def perform_def fine_runtime_def Let_def)
  with sidecar_lifecycle [OF e run] run show ?thesis by (auto simp: bare_process_def)
qed

text \<open>A program without its variables does not run. Without \<open>POD_NAMESPACE\<close> or \<open>POD_NAME\<close> the sidecar,
  without \<open>POD_NAMESPACE\<close> or \<open>ROOT_ZONE\<close> the DNS server, and without \<open>SIDECAR_IMAGE\<close> the webhook ends with
  a code other than 0 and has registered no controller and no webhook and started nothing.\<close>

lemma environment_missing:
  "LookupEnv ''POD_NAMESPACE'' = None \<or> LookupEnv ''POD_NAME'' = None \<Longrightarrow> refuses (main_sidecar P N fl LookupEnv)"
  "LookupEnv ''POD_NAMESPACE'' = None \<or> LookupEnv ''ROOT_ZONE'' = None \<Longrightarrow> refuses (main_dns P fl LookupEnv)"
  "LookupEnv ''SIDECAR_IMAGE'' = None \<Longrightarrow> refuses (main_webhook P fl LookupEnv)"
  unfolding main_sidecar_def main_dns_def main_webhook_def Let_def
  by (auto intro!: refuses_calls simp: same_init registers_def SetupWithManager_def split: option.splits)

text \<open>The operator and the webhook start complete. The program makes the calls of its plan in
  order; once the manager is started, all three reconcilers are registered for their kinds,
  respectively both handlers at their paths. An exit code of 0 means that the whole plan was carried out.\<close>

lemma managers_start_complete:
  "(main_operator P fl p = (x, q) \<longrightarrow> started_complete (operator_plan fl) p x q) \<and>
   (main_webhook P fl LookupEnv p = (x, q) \<longrightarrow> LookupEnv ''SIDECAR_IMAGE'' = Some img \<longrightarrow>
     started_complete (webhook_plan fl) p x q)"
proof (intro conjI impI)
  assume "main_operator P fl p = (x, q)"
  from follows_start [OF main_operator_follows this] show "started_complete (operator_plan fl) p x q"
    by (simp add: operator_plan_def init_scheme_def)
next
  assume "main_webhook P fl LookupEnv p = (x, q)" "LookupEnv ''SIDECAR_IMAGE'' = Some img"
  from follows_start [OF main_webhook_follows [of LookupEnv, OF this(2)] this(1)] show "started_complete (webhook_plan fl) p x q"
    by (simp add: webhook_plan_def init_scheme_def)
qed

end
