(* ===== verification/NamespaceController.thy ===== *)
theory NamespaceController
  imports External
begin

text \<open>
  The reconciler of the namespaces (\<open>controllers/namespace_controller.go\<close>): it gives every
  namespace the service account, the token secret and the role binding of the sidecar. A
  \<open>Get\<close> that fails leaves the object it was to fill as it was, so \<open>sa\<close> is then still the empty
  service account; \<open>Reconcile\<close> uses it like that.
\<close>

section \<open>The reconciler\<close>

definition reconcileServiceAccount :: "'s kube \<Rightarrow> string \<Rightarrow> 's world \<Rightarrow> api_error option \<times> 's world" where
  "reconcileServiceAccount K ns w =
     write_api K (CreateServiceAccount
       \<lparr>sa_Name = OVELRAY_NETWORK_SERVICE_ACCOUNT, sa_Namespace = ns, sa_Secrets = []\<rparr>) w"

definition reconcileSecret :: "'s kube \<Rightarrow> ServiceAccount \<Rightarrow> 's world \<Rightarrow> api_error option \<times> 's world" where
  "reconcileSecret K sa w =
     (let secretName = sa_Name sa @ ''-token'' in
      case read_env (kGetSecret K (sa_Namespace sa) secretName) w of
        (Inl err, w) \<Rightarrow>
          if \<not> IsNotFound err then (Some err, w)
          else (case write_api K (CreateSecret
                  \<lparr>sec_Name = secretName, sec_Namespace = sa_Namespace sa,
                   sec_Type = ''kubernetes.io/service-account-token'',
                   sec_Annotations = [(''kubernetes.io/service-account.name'', sa_Name sa)]\<rparr>) w of
                (Some err, w) \<Rightarrow> (if \<not> IsAlreadyExists err then Some err else None, w)
              | (None, w) \<Rightarrow> (None, w))
      | (Inr _, w) \<Rightarrow> (None, w))"

definition reconcileRole :: "'s kube \<Rightarrow> string \<Rightarrow> 's world \<Rightarrow> api_error option \<times> 's world" where
  "reconcileRole K ns w =
     write_api K (CreateRoleBinding
       \<lparr>rb_Name = OVELRAY_NETWORK_SERVICE_ACCOUNT, rb_Namespace = ns,
        rb_Subjects = [(''ServiceAccount'', '''', ns, OVELRAY_NETWORK_SERVICE_ACCOUNT)],
        rb_RoleRef = (''rbac.authorization.k8s.io'', ''ClusterRole'', OVELRAY_NETWORK_SERVICE_ACCOUNT)\<rparr>) w"

definition empty_sa :: ServiceAccount where
  "empty_sa = \<lparr>sa_Name = '''', sa_Namespace = '''', sa_Secrets = []\<rparr>"

text \<open>The three blocks of \<open>Reconcile\<close>; each ends it early with an error, or goes on.\<close>

definition ensure_account ::
  "'s kube \<Rightarrow> string \<Rightarrow> 's world \<Rightarrow> (api_error + ServiceAccount) \<times> 's world" where
  "ensure_account K ns w =
     (case read_env (kGetServiceAccount K ns OVELRAY_NETWORK_SERVICE_ACCOUNT) w of
       (Inr sa, w) \<Rightarrow> (Inr sa, w)
     | (Inl err, w) \<Rightarrow>
         if \<not> IsNotFound err then (Inl err, w)
         else (case reconcileServiceAccount K ns w of
             (Some err, w) \<Rightarrow> (if \<not> IsAlreadyExists err then Inl err else Inr empty_sa, w)
           | (None, w) \<Rightarrow> (Inr empty_sa, w)))"

definition ensure_secret ::
  "'s kube \<Rightarrow> ServiceAccount \<Rightarrow> 's world \<Rightarrow> api_error option \<times> 's world" where
  "ensure_secret K sa w =
     (if length (sa_Secrets sa) = 0 then
        (case reconcileSecret K sa w of
           (Some err, w) \<Rightarrow> (if \<not> IsAlreadyExists err then Some err else None, w)
         | (None, w) \<Rightarrow> (None, w))
      else (None, w))"

definition ensure_role :: "'s kube \<Rightarrow> string \<Rightarrow> 's world \<Rightarrow> api_error option \<times> 's world" where
  "ensure_role K ns w =
     (case read_env (kGetRoleBinding K ns OVELRAY_NETWORK_SERVICE_ACCOUNT) w of
       (Inr _, w) \<Rightarrow> (None, w)
     | (Inl err, w) \<Rightarrow>
         if \<not> IsNotFound err then (Some err, w)
         else (case reconcileRole K ns w of
             (Some err, w) \<Rightarrow> (if \<not> IsAlreadyExists err then Some err else None, w)
           | (None, w) \<Rightarrow> (None, w)))"

definition reconcile_namespace :: "'s kube \<Rightarrow> string \<Rightarrow> 's world \<Rightarrow> ctrl_result \<times> 's world" where
  "reconcile_namespace K name w =
     (case ensure_account K name w of
       (Inl err, w) \<Rightarrow> (Failed err, w)
     | (Inr sa, w) \<Rightarrow>
         (case ensure_secret K sa w of
           (Some err, w) \<Rightarrow> (Failed err, w)
         | (None, w) \<Rightarrow>
             (case ensure_role K name w of
               (Some err, w) \<Rightarrow> (Failed err, w)
             | (None, w) \<Rightarrow> (finished, w))))"

section \<open>What each block sends\<close>

definition account_for :: "string \<Rightarrow> ServiceAccount" where
  "account_for ns = \<lparr>sa_Name = OVELRAY_NETWORK_SERVICE_ACCOUNT, sa_Namespace = ns, sa_Secrets = []\<rparr>"

definition secret_for :: "ServiceAccount \<Rightarrow> Secret" where
  "secret_for sa = \<lparr>sec_Name = sa_Name sa @ ''-token'', sec_Namespace = sa_Namespace sa,
     sec_Type = ''kubernetes.io/service-account-token'',
     sec_Annotations = [(''kubernetes.io/service-account.name'', sa_Name sa)]\<rparr>"

definition role_for :: "string \<Rightarrow> RoleBinding" where
  "role_for ns = \<lparr>rb_Name = OVELRAY_NETWORK_SERVICE_ACCOUNT, rb_Namespace = ns,
     rb_Subjects = [(''ServiceAccount'', '''', ns, OVELRAY_NETWORK_SERVICE_ACCOUNT)],
     rb_RoleRef = (''rbac.authorization.k8s.io'', ''ClusterRole'', OVELRAY_NETWORK_SERVICE_ACCOUNT)\<rparr>"

text \<open>Reading first, creating if it is missing: the shape the blocks share.\<close>

definition create_if_missing ::
  "'s kube \<Rightarrow> ('s \<Rightarrow> (api_error + 'a) \<times> 's) \<Rightarrow> request \<Rightarrow> 's world \<Rightarrow> (api_error + 'a option) \<times> 's world" where
  "create_if_missing K get q w =
     (case read_env get w of
       (Inr x, w) \<Rightarrow> (Inr (Some x), w)
     | (Inl err, w) \<Rightarrow>
         if err \<noteq> NotFound then (Inl err, w)
         else (case write_api K q w of
             (e, w) \<Rightarrow> (if e = None \<or> e = Some AlreadyExists then Inr None else Inl (the e), w)))"

definition account_of :: "ServiceAccount option \<Rightarrow> ServiceAccount" where
  "account_of x = (case x of None \<Rightarrow> empty_sa | Some sa \<Rightarrow> sa)"

lemma ensure_account_eq:
  "ensure_account K ns w =
     (case create_if_missing K (kGetServiceAccount K ns OVELRAY_NETWORK_SERVICE_ACCOUNT)
        (CreateServiceAccount (account_for ns)) w of
       (r, w) \<Rightarrow> (map_sum id account_of r, w))"
  by (auto simp: account_of_def ensure_account_def reconcileServiceAccount_def create_if_missing_def account_for_def
      IsNotFound_def IsAlreadyExists_def split: prod.splits sum.splits option.splits)

lemma ensure_role_eq:
  "ensure_role K ns w =
     (case create_if_missing K (kGetRoleBinding K ns OVELRAY_NETWORK_SERVICE_ACCOUNT)
        (CreateRoleBinding (role_for ns)) w of
       (r, w) \<Rightarrow> (case r of Inl e \<Rightarrow> Some e | Inr _ \<Rightarrow> None, w))"
  by (auto simp: ensure_role_def reconcileRole_def create_if_missing_def role_for_def
      IsNotFound_def IsAlreadyExists_def split: prod.splits sum.splits option.splits)

lemma ensure_secret_eq:
  "ensure_secret K sa w =
     (if sa_Secrets sa = [] then
       (case create_if_missing K (kGetSecret K (sa_Namespace sa) (sa_Name sa @ ''-token''))
          (CreateSecret (secret_for sa)) w of
         (r, w) \<Rightarrow> (case r of Inl e \<Rightarrow> if e = AlreadyExists then None else Some e | Inr _ \<Rightarrow> None, w))
      else (None, w))"
  by (auto simp: ensure_secret_def reconcileSecret_def create_if_missing_def secret_for_def Let_def
      IsNotFound_def IsAlreadyExists_def split: prod.splits sum.splits option.splits)

lemma create_if_missing_result:
  assumes "create_if_missing K get q w = (r, w')"
  obtains (Present) x where "r = Inr (Some x)" "requests w' = requests w"
  | (Created) "r = Inr None" "requests w' = requests w @ [q]"
  | (Error) e where "r = Inl e" "requests w' = requests w \<or> requests w' = requests w @ [q]"
proof (cases "read_env get w")
  case (Pair g w1)
  show thesis
  proof (cases g)
    case (Inr x)
    with assms Pair requests_read_env [OF Pair] show thesis
      by (intro Present [of x]) (simp_all add: create_if_missing_def)
  next
    case (Inl e)
    obtain we w2 where "write_api K q w1 = (we, w2)" by (cases "write_api K q w1")
    with assms Pair Inl requests_read_env [OF Pair] requests_write_api [OF this] Created Error
    show thesis by (auto simp: create_if_missing_def split: if_splits)
  qed
qed

section \<open>Properties\<close>

definition demo_namespace_kube :: "(api_error + ServiceAccount) \<Rightarrow> unit kube" where
  "demo_namespace_kube sa = \<lparr>kGetPod = (\<lambda>_ _ s. (Inl NotFound, s)), kGetNetwork = (\<lambda>_ _ s. (Inl NotFound, s)),
     kGetServiceAccount = (\<lambda>_ _ s. (sa, s)), kGetSecret = (\<lambda>_ _ s. (Inl NotFound, s)),
     kGetRoleBinding = (\<lambda>_ _ s. (Inl NotFound, s)), kListNetworks = (\<lambda>_ s. (Inr [], s)),
     kWrite = (\<lambda>_ s. (None, s))\<rparr>"

text \<open>An object that is there without having been created has been found.\<close>

lemma create_if_missing_found:
  assumes "create_if_missing K g q v = (Inr y, v')" and "requests v' = requests v"
  shows "\<exists>x s. g (env v) = (Inr x, s)"
  using assms unfolding create_if_missing_def read_env_def write_api_def
  by (auto split: prod.splits sum.splits if_splits)

lemma ensure_secret_result:
  assumes "ensure_secret K sa w = (s, w')"
  obtains ss where "requests w' = requests w @ ss" "ss = [] \<or> ss = [CreateSecret (secret_for sa)] \<and> sa_Secrets sa = []"
proof (cases "sa_Secrets sa = []")
  case True
  obtain c w1 where c: "create_if_missing K (kGetSecret K (sa_Namespace sa) (sa_Name sa @ ''-token''))
      (CreateSecret (secret_for sa)) w = (c, w1)" by fastforce
  with assms True have "w' = w1" by (simp add: ensure_secret_eq)
  with c True that show thesis by (cases rule: create_if_missing_result) auto
qed (use assms that [of "[]"] in \<open>simp add: ensure_secret_eq\<close>)

text \<open>C40: the namespace reconciler creates nothing but the three objects, each at most once and in
  the order account, secret, role binding. The account and the role binding are those of the
  namespace, and the role is bound to that account; if it reports success, the account has been
  found or asked for, and likewise the role binding.\<close>

theorem reconcile_namespace_requests:
  assumes "reconcile_namespace K ns w = (r, w')"
  shows "\<exists>as ss rs. requests w' = requests w @ as @ ss @ rs \<and>
    (as = [] \<or> as = [CreateServiceAccount (account_for ns)]) \<and>
    (ss = [] \<or> (\<exists>sa. ss = [CreateSecret (secret_for sa)] \<and> sa_Secrets sa = [])) \<and>
    (rs = [] \<or> rs = [CreateRoleBinding (role_for ns)]) \<and>
    (r = finished \<longrightarrow>
       (as = [] \<longrightarrow> (\<exists>sa s. kGetServiceAccount K ns OVELRAY_NETWORK_SERVICE_ACCOUNT (env w) = (Inr sa, s))) \<and>
       (rs = [] \<longrightarrow> (\<exists>rb s s'. kGetRoleBinding K ns OVELRAY_NETWORK_SERVICE_ACCOUNT s = (Inr rb, s'))))"
proof -
  let ?ga = "kGetServiceAccount K ns OVELRAY_NETWORK_SERVICE_ACCOUNT"
  let ?gr = "kGetRoleBinding K ns OVELRAY_NETWORK_SERVICE_ACCOUNT"
  obtain a w1 where a: "create_if_missing K ?ga (CreateServiceAccount (account_for ns)) w = (a, w1)" by fastforce
  define sa where "sa = (case a of Inl _ \<Rightarrow> empty_sa | Inr x \<Rightarrow> account_of x)"
  obtain s w2 where s: "ensure_secret K sa w1 = (s, w2)" by fastforce
  obtain b w3 where b: "create_if_missing K ?gr (CreateRoleBinding (role_for ns)) w2 = (b, w3)" by fastforce
  from a obtain as where as: "requests w1 = requests w @ as" "as = [] \<or> as = [CreateServiceAccount (account_for ns)]"
    by (cases rule: create_if_missing_result) auto
  obtain ss where ss: "requests w2 = requests w1 @ ss" "ss = [] \<or> ss = [CreateSecret (secret_for sa)] \<and> sa_Secrets sa = []"
    using s by (rule ensure_secret_result)
  from b obtain rs where rs: "requests w3 = requests w2 @ rs" "rs = [] \<or> rs = [CreateRoleBinding (role_for ns)]"
    by (cases rule: create_if_missing_result) auto
  have early: ?thesis if "r \<noteq> finished" "requests w' = requests w @ as @ ss'" "ss' = [] \<or> ss' = ss" for ss'
    using that as(2) ss(2) by (intro exI [of _ as] exI [of _ ss'] exI [of _ "[]"]) auto
  note run = assms [unfolded reconcile_namespace_def ensure_account_eq ensure_role_eq a b s]
  show ?thesis
  proof (cases a)
    case (Inl e)
    with run as show ?thesis by (intro early [of "[]"]) auto
  next
    case (Inr x)
    then have sa: "account_of x = sa" by (simp add: sa_def)
    show ?thesis
    proof (cases s)
      case (Some e)
      with run Inr sa s as ss show ?thesis by (intro early [of ss]) auto
    next
      case None
      with run Inr sa s b have r: "r = (case b of Inl e \<Rightarrow> Failed e | Inr _ \<Rightarrow> finished)" "w' = w3"
        by (auto split: sum.splits)
      have "as = [] \<longrightarrow> (\<exists>sa s. ?ga (env w) = (Inr sa, s))" using create_if_missing_found [of K ?ga] a Inr as(1) by auto
      moreover have "r = finished \<longrightarrow> rs = [] \<longrightarrow> (\<exists>rb s s'. ?gr s = (Inr rb, s'))"
        using create_if_missing_found [of K ?gr _ w2 _ w3] b r(1) rs(1) by (cases b) (simp, fastforce)
      ultimately show ?thesis
        using as ss rs r(2) by (intro exI [of _ as] exI [of _ ss] exI [of _ rs]) auto
    qed
  qed
qed

theorem reconcile_namespace_requests_witness:
  "\<exists>r w' as ss rs. reconcile_namespace (demo_namespace_kube (Inl NotFound)) ''ns'' \<lparr>env = (), requests = []\<rparr> = (r, w') \<and>
     requests w' = as @ ss @ rs \<and> (as = [] \<or> as = [CreateServiceAccount (account_for ''ns'')])"
proof -
  obtain r w' where run: "reconcile_namespace (demo_namespace_kube (Inl NotFound)) ''ns'' \<lparr>env = (), requests = []\<rparr> = (r, w')"
    by fastforce
  from reconcile_namespace_requests [OF run] run show ?thesis by auto
qed

text \<open>The account is created and its secret misses it. When the account did not exist, the
  reconciler goes on with the empty account object: the secret it then asks for has no
  namespace, is called \<open>-token\<close> and names no account.\<close>

lemma new_account_gets_nameless_secret:
  assumes "ensure_account K ns w = (Inr sa, w1)"
    and "fst (kGetServiceAccount K ns OVELRAY_NETWORK_SERVICE_ACCOUNT (env w)) = Inl NotFound"
    and "fst (kGetSecret K '''' ''-token'' (env w1)) = Inl NotFound"
  shows "\<exists>e w2. ensure_secret K sa w1 = (e, w2) \<and>
    requests w2 = requests w @ [CreateServiceAccount (account_for ns),
      CreateSecret \<lparr>sec_Name = ''-token'', sec_Namespace = '''',
        sec_Type = ''kubernetes.io/service-account-token'',
        sec_Annotations = [(''kubernetes.io/service-account.name'', '''')]\<rparr>]"
  using assms
  by (auto simp: ensure_account_eq ensure_secret_eq create_if_missing_def read_env_def write_api_def
      empty_sa_def account_of_def secret_for_def split: prod.splits sum.splits if_splits option.splits)

lemma new_account_gets_nameless_secret_witness:
  "\<exists>e w2. ensure_secret (demo_namespace_kube (Inl NotFound)) empty_sa
      \<lparr>env = (), requests = [CreateServiceAccount (account_for ''ns'')]\<rparr> = (e, w2) \<and> length (requests w2) = 2"
proof -
  let ?K = "demo_namespace_kube (Inl NotFound)"
  have run: "ensure_account ?K ''ns'' \<lparr>env = (), requests = []\<rparr> =
      (Inr empty_sa, \<lparr>env = (), requests = [CreateServiceAccount (account_for ''ns'')]\<rparr>)"
    by (simp add: ensure_account_eq create_if_missing_def read_env_def write_api_def demo_namespace_kube_def
        account_of_def)
  have "fst (kGetServiceAccount ?K ''ns'' OVELRAY_NETWORK_SERVICE_ACCOUNT (env \<lparr>env = (), requests = []\<rparr>)) = Inl NotFound"
    "fst (kGetSecret ?K '''' ''-token'' (env \<lparr>env = (), requests = [CreateServiceAccount (account_for ''ns'')]\<rparr>)) = Inl NotFound"
    by (simp_all add: demo_namespace_kube_def)
  from new_account_gets_nameless_secret [OF run this] show ?thesis by auto
qed

text \<open>For an existing account the secret is right: it is created in the account's namespace,
  with the account's name, and only if the account has no secret yet.\<close>

lemma existing_account_secret:
  assumes "ensure_secret K sa w = (e, w')"
  shows "requests w' = requests w \<or> sa_Secrets sa = [] \<and> requests w' = requests w @
    [CreateSecret \<lparr>sec_Name = sa_Name sa @ ''-token'', sec_Namespace = sa_Namespace sa,
      sec_Type = ''kubernetes.io/service-account-token'',
      sec_Annotations = [(''kubernetes.io/service-account.name'', sa_Name sa)]\<rparr>]"
proof (cases "sa_Secrets sa = []")
  case True
  obtain c w1 where c: "create_if_missing K (kGetSecret K (sa_Namespace sa) (sa_Name sa @ ''-token''))
      (CreateSecret (secret_for sa)) w = (c, w1)" by fastforce
  with assms True have "w' = w1" by (simp add: ensure_secret_eq)
  with c True show ?thesis by (cases rule: create_if_missing_result) (auto simp: secret_for_def)
qed (use assms in \<open>simp add: ensure_secret_eq\<close>)

end
