(* ===== verification/PodInjector.thy ===== *)
theory PodInjector
  imports Admission
begin

text \<open>
  The mutating webhook of the pods (\<open>webhooks/pod.go\<close>): it puts the sidecar container, its
  two volumes and the finalizer into every pod with the label, and denies pods that use the
  reserved volume name. The environment of the process (\<open>os.Getenv\<close>), the JSON encoder and
  package \<open>lo\<close> at the element types used here are parameters.
\<close>

section \<open>The webhook\<close>

definition modulesVolumeName :: string where "modulesVolumeName = ''lib-modules''"
definition modulesPath :: string where "modulesPath = ''/lib/modules''"
definition saPath :: string where "saPath = ''/var/run/secrets/kubernetes.io/serviceaccount''"
definition sidecarApiAccess :: string where "sidecarApiAccess = ''overlay-sidecar-api-access''"

record 'raw injector =
  inj_decoder :: "('raw, Pod) decoder"
  inj_Marshal :: "Pod \<Rightarrow> string + 'raw"
  inj_Getenv :: "string \<Rightarrow> string"
  inj_ErrorText :: "api_error \<Rightarrow> string" \<comment> \<open>the text that \<open>%v\<close> prints for an API error\<close>
  lo_container :: "Container lo_slice"
  lo_mount :: "VolumeMount lo_slice"
  lo_volume :: "Volume lo_slice"

definition probe :: "string \<Rightarrow> Probe" where
  "probe path = \<lparr>InitialDelaySeconds = 10, PeriodSeconds = 10, TimeoutSeconds = 5, SuccessThreshold = 1,
     FailureThreshold = 3, HTTPGet_Port = 12000, HTTPGet_Path = path\<rparr>"

definition sidecar_container :: "(string \<Rightarrow> string) \<Rightarrow> Container" where
  "sidecar_container Getenv = \<lparr>c_Name = ''overlaysidecar'',
     c_Image = Getenv ''SIDECAR_IMAGE'',
     c_ImagePullPolicy = Getenv ''SIDECAR_PULL_POLICY'',
     c_Env = [\<lparr>env_Name = ''POD_NAME'', env_FieldPath = ''metadata.name''\<rparr>,
              \<lparr>env_Name = ''POD_NAMESPACE'', env_FieldPath = ''metadata.namespace''\<rparr>],
     c_Capabilities_Add = [''SYS_MODULE'', ''NET_ADMIN''],
     c_ReadinessProbe = Some (probe ''/readyz''),
     c_LivenessProbe = Some (probe ''/healthz''),
     c_VolumeMounts = [\<lparr>vm_Name = modulesVolumeName, vm_MountPath = modulesPath, vm_ReadOnly = True\<rparr>,
                       \<lparr>vm_Name = sidecarApiAccess, vm_MountPath = saPath, vm_ReadOnly = True\<rparr>]\<rparr>"

definition sidecar_volumes :: "string \<Rightarrow> Volume list" where
  "sidecar_volumes secretName =
     [\<lparr>v_Name = modulesVolumeName, v_Source = HostPath modulesPath\<rparr>,
      \<lparr>v_Name = sidecarApiAccess, v_Source = Projected
         [SecretProjection secretName [(''token'', ''token'')],
          ConfigMapProjection ''kube-root-ca.crt'' [(''ca.crt'', ''ca.crt'')],
          DownwardAPIProjection [(''namespace'', ''v1'', ''metadata.namespace'')]]\<rparr>]"

definition reserved_volume_message :: string where
  "reserved_volume_message = ''volume name '' @ modulesVolumeName @ '' is forbidden as it is reserved by the sidecar''"

definition uses_reserved :: "'raw injector \<Rightarrow> Pod \<Rightarrow> bool" where
  "uses_reserved I pod \<longleftrightarrow>
     lo_ContainsBy (lo_container I) (Containers pod)
       (\<lambda>c. lo_ContainsBy (lo_mount I) (c_VolumeMounts c) (\<lambda>v. vm_Name v = modulesVolumeName)) \<or>
     lo_ContainsBy (lo_volume I) (Volumes pod) (\<lambda>v. v_Name v = modulesVolumeName)"

text \<open>The changes to the pod object; \<open>sa.Secrets[0]\<close> panics on an empty slice.\<close>

definition inject_sidecar :: "(string \<Rightarrow> string) \<Rightarrow> string list \<Rightarrow> Pod \<Rightarrow> Pod outcome" where
  "inject_sidecar Getenv secrets pod =
     (case secrets of [] \<Rightarrow> Panics
      | secret # _ \<Rightarrow> Returns (pod\<lparr>
          pod_meta := (pod_meta pod)\<lparr>Finalizers := Finalizers (pod_meta pod) @ [POD_FINALIZER]\<rparr>,
          Containers := Containers pod @ [sidecar_container Getenv],
          Volumes := Volumes pod @ sidecar_volumes secret\<rparr>))"

definition injector_Handle ::
  "'raw injector \<Rightarrow> 's kube \<Rightarrow> 'raw admission_request \<Rightarrow> 's world \<Rightarrow> ('raw response \<times> 's world) outcome" where
  "injector_Handle I K req w =
     (case Decode (inj_decoder I) req of
       Inl err \<Rightarrow> Returns (Errored StatusBadRequest err, w)
     | Inr pod \<Rightarrow>
         if \<not> gm_has (Labels (pod_meta pod)) POD_OVERLAY_LABEL
            \<or> gm_get (Labels (pod_meta pod)) POD_OVERLAY_LABEL '''' \<noteq> ''true''
         then Returns (Allowed ''no label in pod, continuing'', w)
         else (case read_env (kGetServiceAccount K (req_Namespace req) OVELRAY_NETWORK_SERVICE_ACCOUNT) w of
             (Inl err, w) \<Rightarrow> Returns (Errored StatusPreconditionFailed
                (''sidecar service account retrieval error: '' @ inj_ErrorText I err), w)
           | (Inr sa, w) \<Rightarrow>
               let secrets = (if length (sa_Secrets sa) = 0 then sa_Secrets sa @ [sa_Name sa @ ''-token'']
                              else sa_Secrets sa)
               in if uses_reserved I pod then Returns (Denied reserved_volume_message, w)
                  else bind_outcome (inject_sidecar (inj_Getenv I) secrets pod)
                    (\<lambda>pod. case inj_Marshal I pod of
                        Inl err \<Rightarrow> Returns (Errored StatusInternalServerError err, w)
                      | Inr marshaledPod \<Rightarrow>
                          Returns (PatchResponseFromRaw (req_Object req) marshaledPod, w))))"

section \<open>What it answers\<close>

definition injector_ok :: "'raw injector \<Rightarrow> bool" where
  "injector_ok I \<longleftrightarrow> lo_slice_ok (lo_container I) \<and> lo_slice_ok (lo_mount I) \<and> lo_slice_ok (lo_volume I)"

definition reserved :: "Pod \<Rightarrow> bool" where
  "reserved pod \<longleftrightarrow>
     (\<exists>c \<in> set (Containers pod). \<exists>v \<in> set (c_VolumeMounts c). vm_Name v = modulesVolumeName) \<or>
     (\<exists>v \<in> set (Volumes pod). v_Name v = modulesVolumeName)"

definition labelled :: "Pod \<Rightarrow> bool" where
  "labelled pod \<longleftrightarrow> gm_get (Labels (pod_meta pod)) POD_OVERLAY_LABEL '''' = ''true''"

lemma labelled_iff:
  "\<not> labelled pod \<longleftrightarrow> \<not> gm_has (Labels (pod_meta pod)) POD_OVERLAY_LABEL
     \<or> gm_get (Labels (pod_meta pod)) POD_OVERLAY_LABEL '''' \<noteq> ''true''"
  by (auto simp: labelled_def gm_has_def gm_get_def split: option.splits)

lemma uses_reserved_eq: "injector_ok I \<Longrightarrow> uses_reserved I pod \<longleftrightarrow> reserved pod"
  by (simp add: uses_reserved_def reserved_def injector_ok_def lo_slice_okD(3))

definition token_secret :: "ServiceAccount \<Rightarrow> string" where
  "token_secret sa = (case sa_Secrets sa of [] \<Rightarrow> sa_Name sa @ ''-token'' | s # _ \<Rightarrow> s)"

definition injected :: "(string \<Rightarrow> string) \<Rightarrow> ServiceAccount \<Rightarrow> Pod \<Rightarrow> Pod" where
  "injected Getenv sa pod = pod\<lparr>
     pod_meta := (pod_meta pod)\<lparr>Finalizers := Finalizers (pod_meta pod) @ [POD_FINALIZER]\<rparr>,
     Containers := Containers pod @ [sidecar_container Getenv],
     Volumes := Volumes pod @ sidecar_volumes (token_secret sa)\<rparr>"

lemma inject_sidecar_eq:
  "inject_sidecar Getenv (if length (sa_Secrets sa) = 0 then sa_Secrets sa @ [sa_Name sa @ ''-token'']
     else sa_Secrets sa) pod = Returns (injected Getenv sa pod)"
  by (cases "sa_Secrets sa") (simp_all add: inject_sidecar_def injected_def token_secret_def)

text \<open>The webhook as a decision on the decoded pod and the service account.\<close>

lemma injector_Handle_eq:
  assumes "injector_ok I"
  shows "injector_Handle I K req w =
     (case Decode (inj_decoder I) req of
       Inl err \<Rightarrow> Returns (Errored StatusBadRequest err, w)
     | Inr pod \<Rightarrow>
         if \<not> labelled pod then Returns (Allowed ''no label in pod, continuing'', w)
         else (case read_env (kGetServiceAccount K (req_Namespace req) OVELRAY_NETWORK_SERVICE_ACCOUNT) w of
             (Inl err, w) \<Rightarrow> Returns (Errored StatusPreconditionFailed
                (''sidecar service account retrieval error: '' @ inj_ErrorText I err), w)
           | (Inr sa, w) \<Rightarrow>
               Returns (if reserved pod then Denied reserved_volume_message
                 else case inj_Marshal I (injected (inj_Getenv I) sa pod) of
                     Inl err \<Rightarrow> Errored StatusInternalServerError err
                   | Inr marshaledPod \<Rightarrow> PatchResponseFromRaw (req_Object req) marshaledPod, w)))"
  unfolding labelled_iff injector_Handle_def Let_def inject_sidecar_eq uses_reserved_eq [OF assms]
  by (auto split: sum.splits prod.splits)

lemma reserved_injected: "reserved (injected g sa pod)"
  by (simp add: reserved_def injected_def sidecar_volumes_def)

lemma labelled_injected [simp]: "labelled (injected g sa pod) = labelled pod"
  by (simp add: labelled_def injected_def)

lemma injector_patched:
  assumes "injector_ok I" and "injector_Handle I K req w = Returns (PatchResponseFromRaw old new, w')"
  obtains pod sa where "Decode (inj_decoder I) req = Inr pod" "labelled pod" "\<not> reserved pod"
    "fst (read_env (kGetServiceAccount K (req_Namespace req) OVELRAY_NETWORK_SERVICE_ACCOUNT) w) = Inr sa"
    "inj_Marshal I (injected (inj_Getenv I) sa pod) = Inr new" "old = req_Object req"
  using assms(2) unfolding injector_Handle_eq [OF assms(1)]
  by (auto split: sum.splits prod.splits if_splits)

section \<open>Properties\<close>

definition demo_injector :: "Pod injector" where
  "demo_injector = \<lparr>inj_decoder = \<lparr>Decode = (\<lambda>req. Inr (req_Object req)), DecodeRaw = Inr\<rparr>,
     inj_Marshal = Inr, inj_Getenv = (\<lambda>_. ''image''), inj_ErrorText = (\<lambda>_. ''error''), lo_container = lo_std, lo_mount = lo_std, lo_volume = lo_std\<rparr>"

definition plain_pod :: "(string, string) go_map \<Rightarrow> Pod" where
  "plain_pod labels = \<lparr>pod_meta = \<lparr>Name = ''p'', Namespace = ''ns'', ResourceVersion = ''1'', DeletionTimestamp = None,
       Finalizers = [], Labels = labels, Annotations = []\<rparr>,
     Containers = [], Volumes = [], status_PodIP = ''''\<rparr>"

definition pod_request :: "Pod \<Rightarrow> Pod admission_request" where
  "pod_request pod = \<lparr>req_Operation = Create, req_Namespace = ''ns'', req_Object = pod, req_OldObject = pod\<rparr>"

definition account_kube :: "unit kube" where
  "account_kube = \<lparr>kGetPod = (\<lambda>_ _ s. (Inl NotFound, s)), kGetNetwork = (\<lambda>_ _ s. (Inl NotFound, s)),
     kGetServiceAccount = (\<lambda>ns n s. (Inr \<lparr>sa_Name = n, sa_Namespace = ns, sa_Secrets = []\<rparr>, s)),
     kGetSecret = (\<lambda>_ _ s. (Inl NotFound, s)), kGetRoleBinding = (\<lambda>_ _ s. (Inl NotFound, s)),
     kListNetworks = (\<lambda>_ s. (Inr [], s)), kWrite = (\<lambda>_ s. (None, s))\<rparr>"

definition idle_world :: "unit world" where
  "idle_world = \<lparr>env = (), requests = []\<rparr>"

lemmas injector_eval = demo_injector_def plain_pod_def pod_request_def account_kube_def idle_world_def
  labelled_def reserved_def read_env_def POD_OVERLAY_LABEL_def gm_get_def

lemma demo_injector_ok [simp]: "injector_ok demo_injector"
  by (simp add: injector_ok_def demo_injector_def)

lemma demo_injection:
  "injector_Handle demo_injector account_kube (pod_request (plain_pod [(POD_OVERLAY_LABEL, ''true'')])) idle_world
     = Returns (PatchResponseFromRaw (plain_pod [(POD_OVERLAY_LABEL, ''true'')])
         (injected (\<lambda>_. ''image'') \<lparr>sa_Name = OVELRAY_NETWORK_SERVICE_ACCOUNT, sa_Namespace = ''ns'', sa_Secrets = []\<rparr>
            (plain_pod [(POD_OVERLAY_LABEL, ''true'')])), idle_world)"
  by (simp add: injector_Handle_eq [OF demo_injector_ok]) (simp add: injector_eval injected_def)

text \<open>C31: the injection adds and never takes away. A patched pod is the pod of the request with the
  finalizer appended to its finalizers, the sidecar container to its containers and some volumes to its
  volumes; labels, annotations, name, and all other fields are those of the request. Every volume
  the sidecar mounts is a volume of the pod; the volume that holds the credentials is
  backed by the first secret of the service account, or by its token secret if it has none.\<close>

theorem injection_adds_sidecar:
  assumes "injector_ok I" and "injector_Handle I K req w = Returns (PatchResponseFromRaw old new, w')"
  shows "\<exists>pod pod' sa vs. Decode (inj_decoder I) req = Inr pod \<and> inj_Marshal I pod' = Inr new \<and> old = req_Object req \<and>
    fst (read_env (kGetServiceAccount K (req_Namespace req) OVELRAY_NETWORK_SERVICE_ACCOUNT) w) = Inr sa \<and>
    pod' = pod\<lparr>pod_meta := (pod_meta pod)\<lparr>Finalizers := Finalizers (pod_meta pod) @ [POD_FINALIZER]\<rparr>,
      Containers := Containers pod @ [sidecar_container (inj_Getenv I)], Volumes := Volumes pod @ vs\<rparr> \<and>
    (\<forall>m \<in> set (c_VolumeMounts (sidecar_container (inj_Getenv I))). vm_Name m \<in> v_Name ` set vs) \<and>
    (\<exists>items rest. \<lparr>v_Name = sidecarApiAccess, v_Source = Projected (SecretProjection
        (case sa_Secrets sa of [] \<Rightarrow> sa_Name sa @ ''-token'' | s # _ \<Rightarrow> s) items # rest)\<rparr> \<in> set vs)"
proof -
  obtain pod sa where p: "Decode (inj_decoder I) req = Inr pod"
    "fst (read_env (kGetServiceAccount K (req_Namespace req) OVELRAY_NETWORK_SERVICE_ACCOUNT) w) = Inr sa"
    "inj_Marshal I (injected (inj_Getenv I) sa pod) = Inr new" "old = req_Object req"
    using assms by (rule injector_patched)
  show ?thesis
    by (intro exI [of _ pod] exI [of _ "injected (inj_Getenv I) sa pod"] exI [of _ sa]
        exI [of _ "sidecar_volumes (token_secret sa)"] conjI)
      (use p in \<open>auto simp: injected_def sidecar_volumes_def sidecar_container_def token_secret_def\<close>)
qed

text \<open>A pod with a finalizer and an annotation of its own keeps both.\<close>

definition owned_pod :: Pod where
  "owned_pod = (plain_pod [(POD_OVERLAY_LABEL, ''true'')])\<lparr>pod_meta := (pod_meta (plain_pod [(POD_OVERLAY_LABEL, ''true'')]))
     \<lparr>Finalizers := [''example.org/keep''], Annotations := [(''note'', ''mine'')]\<rparr>\<rparr>"

lemma owned_injection:
  "injector_Handle demo_injector account_kube (pod_request owned_pod) idle_world
     = Returns (PatchResponseFromRaw owned_pod
         (injected (\<lambda>_. ''image'') \<lparr>sa_Name = OVELRAY_NETWORK_SERVICE_ACCOUNT, sa_Namespace = ''ns'', sa_Secrets = []\<rparr> owned_pod),
       idle_world)"
  by (simp add: injector_Handle_eq [OF demo_injector_ok]) (simp add: injector_eval injected_def owned_pod_def)

theorem injection_adds_sidecar_witness:
  "\<exists>pod'. (\<exists>w'. injector_Handle demo_injector account_kube (pod_request owned_pod) idle_world =
       Returns (PatchResponseFromRaw owned_pod pod', w')) \<and>
     Finalizers (pod_meta pod') = [''example.org/keep'', POD_FINALIZER] \<and> Annotations (pod_meta pod') = [(''note'', ''mine'')] \<and>
     Containers pod' = [sidecar_container (\<lambda>_. ''image'')] \<and> sidecarApiAccess \<in> v_Name ` set (Volumes pod')"
proof -
  obtain pod pod' :: Pod and vs where p:
    "Decode (inj_decoder demo_injector) (pod_request owned_pod) = Inr pod"
    "inj_Marshal demo_injector pod' = Inr (injected (\<lambda>_. ''image'')
       \<lparr>sa_Name = OVELRAY_NETWORK_SERVICE_ACCOUNT, sa_Namespace = ''ns'', sa_Secrets = []\<rparr> owned_pod)"
    "pod' = pod\<lparr>pod_meta := (pod_meta pod)\<lparr>Finalizers := Finalizers (pod_meta pod) @ [POD_FINALIZER]\<rparr>,
      Containers := Containers pod @ [sidecar_container (inj_Getenv demo_injector)], Volumes := Volumes pod @ vs\<rparr>"
    "\<forall>m \<in> set (c_VolumeMounts (sidecar_container (inj_Getenv demo_injector))). vm_Name m \<in> v_Name ` set vs"
    using injection_adds_sidecar [OF demo_injector_ok owned_injection] by blast
  then have "pod = owned_pod" "sidecarApiAccess \<in> v_Name ` set vs"
    by (auto simp: demo_injector_def pod_request_def sidecar_container_def)
  with p(3) have f: "Finalizers (pod_meta pod') = [''example.org/keep'', POD_FINALIZER]" "Annotations (pod_meta pod') = [(''note'', ''mine'')]"
    "Containers pod' = [sidecar_container (\<lambda>_. ''image'')]" "sidecarApiAccess \<in> v_Name ` set (Volumes pod')"
    by (simp_all add: demo_injector_def owned_pod_def plain_pod_def)
  from p(2) have "injector_Handle demo_injector account_kube (pod_request owned_pod) idle_world =
      Returns (PatchResponseFromRaw owned_pod pod', idle_world)"
    by (simp add: owned_injection) (simp add: demo_injector_def)
  with f show ?thesis by blast
qed

text \<open>The sidecar is injected once. If the decoder reads back what was encoded, then the webhook,
  asked again about the pod it has patched, denies it (or fails to read the service account): it
  never patches a patched pod.\<close>

lemma injection_not_repeated:
  assumes "injector_ok I" and "injector_Handle I K req w = Returns (PatchResponseFromRaw old new, w')"
    and decode: "\<And>pod raw req. inj_Marshal I pod = Inr raw \<Longrightarrow> req_Object req = raw \<Longrightarrow> Decode (inj_decoder I) req = Inr pod"
    and "req_Object req2 = new" and "injector_Handle I K2 req2 w2 = Returns (answer2, w2')"
  shows "answer2 = Denied reserved_volume_message \<or> (\<exists>e. answer2 = Errored StatusPreconditionFailed e)"
proof -
  obtain pod sa where p: "labelled pod" "inj_Marshal I (injected (inj_Getenv I) sa pod) = Inr new"
    using assms(1,2) by (rule injector_patched)
  have "Decode (inj_decoder I) req2 = Inr (injected (inj_Getenv I) sa pod)"
    using p(2) assms(4) by (rule decode)
  with assms(5) p(1) reserved_injected show ?thesis
    by (auto simp: injector_Handle_eq [OF assms(1)] split: sum.splits prod.splits)
qed

text \<open>C32: the webhook never panics, and it lets a pod through unpatched only without the label; a
  pod that mounts or declares the reserved volume is never patched.\<close>

theorem injector_total_and_guarded:
  assumes "injector_ok I"
  shows "\<exists>r w'. injector_Handle I K req w = Returns (r, w') \<and> requests w' = requests w \<and>
    (\<forall>pod. Decode (inj_decoder I) req = Inr pod \<longrightarrow>
      ((\<exists>m. r = Allowed m) \<longleftrightarrow> gm_get (Labels (pod_meta pod)) POD_OVERLAY_LABEL '''' \<noteq> ''true'') \<and>
      (reserved pod \<longrightarrow> (\<nexists>old new. r = PatchResponseFromRaw old new)))"
  unfolding injector_Handle_eq [OF assms]
  by (auto simp: labelled_def split: sum.splits prod.splits dest: requests_read_env)

theorem injector_total_and_guarded_witness:
  "\<exists>r w'. injector_Handle demo_injector account_kube (pod_request (plain_pod [])) idle_world = Returns (r, w') \<and>
     (\<exists>m. r = Allowed m)"
  using injector_total_and_guarded [OF demo_injector_ok, of account_kube "pod_request (plain_pod [])" idle_world]
  by (auto simp: demo_injector_def pod_request_def plain_pod_def gm_get_def)

end
