(* ===== verification/Scheme.thy ===== *)
theory Scheme
  imports Startup PodController OverlayNetworkController NamespaceController PodInjector OverlayNetworkValidator
begin

text \<open>
  The API group of the program and the schemes in which the programs look up their types
  (\<open>api/v1alpha1/groupversion_info.go\<close>, the end of \<open>overlaynetwork_types.go\<close>, the \<open>init\<close> functions of
  \<open>cmd/\<close>), and the generated webhook of \<open>overlaynetwork_webhook.go\<close>, which accepts everything.

  A scheme maps group, version and kind to a Go type; a client or a webhook fails on a kind that its scheme does
  not have. Schemes and builders belong to apimachinery and controller-runtime and are parameters:
  \<open>scheme_pkg_ok\<close> states that adding a builder to a scheme without error makes the registered types known, and
  that the scheme of client-go has the built-in kinds. The judgement \<open>well_typed\<close> checks a sequence of calls
  against the kinds registered before each; \<open>typed_client\<close> is the client that fails on all other kinds, and the
  lemmas \<open>..._typed\<close> show that no reconciler or handler uses a kind that is not listed for it.
\<close>

section \<open>Group, version, kind\<close>

record group_version =
  gv_Group :: string
  gv_Version :: string

type_synonym gvk = "group_version \<times> string"

record ('b, 'sc) scheme_pkg =
  NewScheme :: 'sc
  new_Builder :: "group_version \<Rightarrow> 'b"
  Builder_Register :: "string list \<Rightarrow> 'b \<Rightarrow> 'b"
  Builder_AddToScheme :: "'b \<Rightarrow> 'sc \<Rightarrow> string option \<times> 'sc"
  clientgo_AddToScheme :: "'sc \<Rightarrow> string option \<times> 'sc"
  Recognizes :: "'sc \<Rightarrow> gvk \<Rightarrow> bool"

definition GroupVersion :: group_version where
  "GroupVersion = \<lparr>gv_Group = ''network.deinstapel.de'', gv_Version = ''v1alpha1''\<rparr>"

definition SchemeBuilder :: "('b, 'sc) scheme_pkg \<Rightarrow> 'b" where
  "SchemeBuilder P = new_Builder P GroupVersion"

text \<open>The \<open>init\<close> function of the package registers a type under the name of its Go type.\<close>

definition register_types :: "('b, 'sc) scheme_pkg \<Rightarrow> 'b \<Rightarrow> 'b" where
  "register_types P b = Builder_Register P [''OverlayNetwork'', ''OverlayNetworkList''] b"

text \<open>\<open>AddToScheme\<close> is a method value of the pointer \<open>SchemeBuilder\<close>. It is called after the \<open>init\<close> functions of the
  package, so that it sees the registered types.\<close>

definition networkv1alpha1_AddToScheme :: "('b, 'sc) scheme_pkg \<Rightarrow> 'sc \<Rightarrow> string option \<times> 'sc" where
  "networkv1alpha1_AddToScheme P = Builder_AddToScheme P (register_types P (SchemeBuilder P))"

section \<open>What the packages promise\<close>

definition core_v1 :: group_version where
  "core_v1 = \<lparr>gv_Group = '''', gv_Version = ''v1''\<rparr>"

definition client_kinds :: "gvk list" where
  "client_kinds = [(core_v1, ''Pod''), (core_v1, ''Namespace''), (core_v1, ''ServiceAccount''), (core_v1, ''Secret''),
     (\<lparr>gv_Group = ''rbac.authorization.k8s.io'', gv_Version = ''v1''\<rparr>, ''RoleBinding'')]"

definition network_kinds :: "gvk list" where
  "network_kinds = [(GroupVersion, ''OverlayNetwork''), (GroupVersion, ''OverlayNetworkList'')]"

definition scheme_pkg_ok :: "('b, 'sc) scheme_pkg \<Rightarrow> bool" where
  "scheme_pkg_ok P \<longleftrightarrow>
     (\<forall>gv ts s s'. Builder_AddToScheme P (Builder_Register P ts (new_Builder P gv)) s = (None, s') \<longrightarrow>
        (\<forall>k. Recognizes P s k \<or> k \<in> set (map (Pair gv) ts) \<longrightarrow> Recognizes P s' k)) \<and>
     (\<forall>s s'. clientgo_AddToScheme P s = (None, s') \<longrightarrow> (\<forall>k. Recognizes P s k \<or> k \<in> set client_kinds \<longrightarrow> Recognizes P s' k))"

lemma scheme_pkg_okD:
  assumes "scheme_pkg_ok P"
  shows "Builder_AddToScheme P (Builder_Register P ts (new_Builder P gv)) s = (None, s') \<Longrightarrow>
      Recognizes P s k \<or> k \<in> set (map (Pair gv) ts) \<Longrightarrow> Recognizes P s' k"
    "clientgo_AddToScheme P s = (None, s') \<Longrightarrow> Recognizes P s k \<or> k \<in> set client_kinds \<Longrightarrow> Recognizes P s' k"
  using assms unfolding scheme_pkg_ok_def by blast+

definition scheme_std :: "(group_version \<times> string list, gvk list) scheme_pkg" where
  "scheme_std = \<lparr>NewScheme = [], new_Builder = (\<lambda>gv. (gv, [])), Builder_Register = (\<lambda>ts (gv, us). (gv, us @ ts)),
     Builder_AddToScheme = (\<lambda>(gv, us) s. (None, s @ map (Pair gv) us)),
     clientgo_AddToScheme = (\<lambda>s. (None, s @ client_kinds)), Recognizes = (\<lambda>s k. k \<in> set s)\<rparr>"

lemma scheme_std_ok [simp]: "scheme_pkg_ok scheme_std"
  by (auto simp: scheme_pkg_ok_def scheme_std_def)

section \<open>The scheme in the course of a program\<close>

text \<open>\<open>utilruntime.Must\<close> panics on an error; the other calls leave the scheme alone.\<close>

fun scheme_step :: "('b, 'sc) scheme_pkg \<Rightarrow> boot_step \<Rightarrow> 'sc \<Rightarrow> 'sc outcome" where
  "scheme_step P (AddToScheme pkg) sc =
     (case (if pkg = ''clientgoscheme'' then clientgo_AddToScheme P sc else networkv1alpha1_AddToScheme P sc) of
       (None, sc) \<Rightarrow> Returns sc
     | (Some err, sc) \<Rightarrow> Panics)"
| "scheme_step P _ sc = Returns sc"

fun scheme_after :: "('b, 'sc) scheme_pkg \<Rightarrow> boot_step list \<Rightarrow> 'sc \<Rightarrow> 'sc outcome" where
  "scheme_after P [] sc = Returns sc"
| "scheme_after P (s # ss) sc = bind_outcome (scheme_step P s sc) (scheme_after P ss)"

section \<open>Typing\<close>

fun kind_gvk :: "kind \<Rightarrow> gvk" where
  "kind_gvk Kind_OverlayNetwork = (GroupVersion, ''OverlayNetwork'')"
| "kind_gvk Kind_Pod = (core_v1, ''Pod'')"
| "kind_gvk Kind_Namespace = (core_v1, ''Namespace'')"

text \<open>The kinds a reconciler or a handler reads and writes.\<close>

fun reconciler_kinds :: "reconciler \<Rightarrow> gvk list" where
  "reconciler_kinds OverlayNetworkReconciler = [(GroupVersion, ''OverlayNetwork'')]"
| "reconciler_kinds PodReconciler =
     [(core_v1, ''Pod''), (GroupVersion, ''OverlayNetwork''), (GroupVersion, ''OverlayNetworkList'')]"
| "reconciler_kinds NamespaceReconciler = [(core_v1, ''ServiceAccount''), (core_v1, ''Secret''),
     (\<lparr>gv_Group = ''rbac.authorization.k8s.io'', gv_Version = ''v1''\<rparr>, ''RoleBinding'')]"
| "reconciler_kinds (Tunnel_Reconciler r) = [(GroupVersion, ''OverlayNetwork'')]"
| "reconciler_kinds (DNS_Reconciler r) = [(GroupVersion, ''OverlayNetwork'')]"

fun handler_kinds :: "handler \<Rightarrow> gvk list" where
  "handler_kinds Handler_PodInjector = [(core_v1, ''Pod''), (core_v1, ''ServiceAccount'')]"
| "handler_kinds Handler_OverlayNetworkValidator = [(GroupVersion, ''OverlayNetwork'')]"

fun needs :: "boot_step \<Rightarrow> gvk list" where
  "needs (Complete k r) = kind_gvk k # reconciler_kinds r"
| "needs (WebhookComplete k) = [kind_gvk k]"
| "needs (Register path h) = handler_kinds h"
| "needs _ = []"

fun adds :: "boot_step \<Rightarrow> gvk list" where
  "adds (AddToScheme pkg) = (if pkg = ''clientgoscheme'' then client_kinds else network_kinds)"
| "adds _ = []"

inductive well_typed :: "gvk set \<Rightarrow> boot_step list \<Rightarrow> bool" where
  Nil: "well_typed G []"
| Cons: "set (needs s) \<subseteq> G \<Longrightarrow> well_typed (G \<union> set (adds s)) ss \<Longrightarrow> well_typed G (s # ss)"

declare well_typed.Nil [simp]
inductive_simps well_typed_Cons [simp]: "well_typed G (s # ss)"

lemma well_typed_mono: "well_typed G ss \<Longrightarrow> G \<subseteq> H \<Longrightarrow> well_typed H ss"
proof (induction arbitrary: H rule: well_typed.induct)
  case (Cons s G ss)
  have "well_typed (H \<union> set (adds s)) ss" by (rule Cons.IH) (use Cons.prems in auto)
  with Cons.hyps(1) Cons.prems show ?case by auto
qed simp

lemma well_typed_append: "well_typed G (xs @ ys) \<Longrightarrow> well_typed G xs"
  by (induction xs arbitrary: G) auto

lemma well_typed_take: "well_typed G ss \<Longrightarrow> well_typed G (take i ss)"
  using well_typed_append [of G "take i ss" "drop i ss"] by simp

lemma well_typed_quiet: "\<forall>s \<in> set ss. needs s = [] \<Longrightarrow> well_typed G ss"
  by (induction ss arbitrary: G) auto

lemma well_typed_extend: "well_typed G xs \<Longrightarrow> \<forall>s \<in> set ys. needs s = [] \<Longrightarrow> well_typed G (xs @ ys)"
  by (induction xs arbitrary: G) (simp_all add: well_typed_quiet)

text \<open>Soundness: one call keeps the registered kinds and adds its own, and so every call of a well-typed sequence finds
  its kinds.\<close>

lemma scheme_step_preserves:
  assumes "scheme_pkg_ok P" and "scheme_step P s sc = Returns sc'" and "\<forall>k \<in> G. Recognizes P sc k"
  shows "\<forall>k \<in> G \<union> set (adds s). Recognizes P sc' k"
proof (cases "\<exists>pkg. s = AddToScheme pkg")
  case True
  then obtain pkg where s: "s = AddToScheme pkg" by blast
  show ?thesis
  proof (cases "pkg = ''clientgoscheme''")
    case True
    with assms(2) have "clientgo_AddToScheme P sc = (None, sc')" by (auto simp: s split: prod.splits option.splits)
    note known = scheme_pkg_okD(2) [OF assms(1) this]
    show ?thesis using assms(3) True known by (auto simp: s)
  next
    case False
    with assms(2) have "networkv1alpha1_AddToScheme P sc = (None, sc')" by (auto simp: s split: prod.splits option.splits)
    note known = scheme_pkg_okD(1) [OF assms(1) this [unfolded networkv1alpha1_AddToScheme_def register_types_def SchemeBuilder_def]]
    have "set (map (Pair GroupVersion) [''OverlayNetwork'', ''OverlayNetworkList'']) = set network_kinds"
      by (simp add: network_kinds_def)
    with assms(3) False known show ?thesis unfolding s by (auto simp: network_kinds_def)
  qed
next
  case False
  with assms(2) have "sc' = sc" "adds s = []" by (cases s; simp)+
  with assms(3) show ?thesis by simp
qed

lemma well_typed_sound:
  assumes "scheme_pkg_ok P" and "well_typed G (xs @ s # ys)" and "scheme_after P xs sc = Returns sc'"
    and "\<forall>k \<in> G. Recognizes P sc k"
  shows "\<forall>k \<in> set (needs s). Recognizes P sc' k"
  using assms(2-4)
proof (induction xs arbitrary: G sc)
  case (Cons x xs)
  then obtain sc1 where sc1: "scheme_step P x sc = Returns sc1" "scheme_after P xs sc1 = Returns sc'"
    by (auto simp: bind_outcome_eq_Returns)
  show ?case
    by (rule Cons.IH [OF _ sc1(2) scheme_step_preserves [OF assms(1) sc1(1) Cons.prems(3)]]) (use Cons.prems(1) in simp)
qed auto

section \<open>The programs are well typed\<close>

lemma init_scheme_typed: "well_typed (set client_kinds \<union> set network_kinds) ss \<Longrightarrow> well_typed {} (init_scheme @ ss)"
  by (simp add: init_scheme_def)

lemmas typing_simps = client_kinds_def network_kinds_def

lemma plans_typed:
  "well_typed {} (operator_plan fl)" "well_typed {} (webhook_plan fl)" "well_typed {} (sidecar_plan fl ns pod)"
  "well_typed {} (dns_plan fl ns r)"
  unfolding operator_plan_def webhook_plan_def sidecar_plan_def dns_plan_def
  by (rule init_scheme_typed, simp add: typing_simps)+

lemma follows_typed:
  assumes "follows plan fin prog" and "well_typed {} plan" and "prog p = (x, q)"
    and "\<And>p'. fin p' x q \<Longrightarrow> \<exists>ss. trace q = trace p' @ ss \<and> (\<forall>s \<in> set ss. needs s = [])"
  shows "\<exists>ss. trace q = trace p @ ss \<and> well_typed {} ss"
  using assms(1,3)
proof (cases rule: followsE)
  case (early i)
  with well_typed_take [OF assms(2)] show ?thesis by blast
next
  case (late p')
  with assms(4) [OF late(2)] well_typed_extend [OF assms(2)] show ?thesis by force
qed

lemma refuses_typed:
  assumes "refuses prog" and "prog p = (x, q)"
  shows "\<exists>ss. trace q = trace p @ ss \<and> well_typed {} ss"
proof -
  obtain ss where ss: "trace q = trace p @ ss" "\<not> list_ex registers ss" using assms unfolding refuses_def by blast
  have "needs s = []" if "s \<in> set ss" for s
    using ss(2) that by (cases s) (auto simp: list_ex_iff registers_def)
  with ss(1) well_typed_quiet show ?thesis by blast
qed

lemma exits_0_quiet: "exits_0 p' x q \<Longrightarrow> \<exists>ss. trace q = trace p' @ ss \<and> (\<forall>s \<in> set ss. needs s = [])"
  by (auto simp: exits_0_def intro: exI [of _ "[]"])

lemma shutdown_quiet: "exits_after_shutdown N p' x q \<Longrightarrow> \<exists>ss. trace q = trace p' @ ss \<and> (\<forall>s \<in> set ss. needs s = [])"
  using shutdown_tunnels_trace [of N p'] by (auto simp: exits_after_shutdown_def)

lemma programs_typed:
  fixes R :: "'o runtime"
  assumes "prog \<in> {main_operator R fl, main_webhook R fl LookupEnv, main_sidecar R N fl LookupEnv, main_dns R fl LookupEnv}"
    and "prog p = (x, q)"
  shows "\<exists>ss. trace q = trace p @ ss \<and> well_typed {} ss"
proof -
  note ref = refuses_typed [of prog, OF _ assms(2)]
  note missing = environment_missing [of LookupEnv]
  from assms(1) consider "prog = main_operator R fl" | "prog = main_webhook R fl LookupEnv"
    | "prog = main_sidecar R N fl LookupEnv" | "prog = main_dns R fl LookupEnv" by blast
  then show ?thesis
  proof cases
    case 1
    show ?thesis
      by (rule follows_typed [OF main_operator_follows plans_typed(1) assms(2) [unfolded 1]]) (rule exits_0_quiet)
  next
    case 2
    show ?thesis
    proof (cases "LookupEnv ''SIDECAR_IMAGE''")
      case (Some img)
      show ?thesis
        by (rule follows_typed [OF main_webhook_follows [of LookupEnv, OF Some] plans_typed(2) assms(2) [unfolded 2]])
          (rule exits_0_quiet)
    qed (use ref missing(3) 2 in blast)
  next
    case 3
    show ?thesis
    proof (cases "LookupEnv ''POD_NAMESPACE'' = None \<or> LookupEnv ''POD_NAME'' = None")
      case False
      then obtain ns pod where e: "LookupEnv ''POD_NAMESPACE'' = Some ns" "LookupEnv ''POD_NAME'' = Some pod" by auto
      show ?thesis
        by (rule follows_typed [OF main_sidecar_follows [of LookupEnv, OF e] plans_typed(3) assms(2) [unfolded 3]])
          (rule shutdown_quiet)
    qed (use ref missing(1) 3 in blast)
  next
    case 4
    show ?thesis
    proof (cases "LookupEnv ''POD_NAMESPACE'' = None \<or> LookupEnv ''ROOT_ZONE'' = None")
      case False
      then obtain ns zn where e: "LookupEnv ''POD_NAMESPACE'' = Some ns" "LookupEnv ''ROOT_ZONE'' = Some zn" by auto
      show ?thesis
        by (rule follows_typed [OF main_dns_follows [of LookupEnv, OF e] plans_typed(4) assms(2) [unfolded 4]])
          (rule exits_0_quiet)
    qed (use ref missing(2) 4 in blast)
  qed
qed

section \<open>The client of a manager\<close>

text \<open>The client that a manager gives its reconcilers looks up the type of every object in the scheme of the manager
  and fails when the type is missing; so do the decoders of the webhooks. \<open>Known\<close> are the known kinds.\<close>

definition no_kind :: string where
  "no_kind = ''no kind is registered for the type''"

fun request_kind :: "request \<Rightarrow> gvk" where
  "request_kind (UpdatePod p) = (core_v1, ''Pod'')"
| "request_kind (UpdateNetwork nw) = (GroupVersion, ''OverlayNetwork'')"
| "request_kind (UpdateNetworkStatus nw) = (GroupVersion, ''OverlayNetwork'')"
| "request_kind (CreateServiceAccount sa) = (core_v1, ''ServiceAccount'')"
| "request_kind (CreateSecret sec) = (core_v1, ''Secret'')"
| "request_kind (CreateRoleBinding rb) = (\<lparr>gv_Group = ''rbac.authorization.k8s.io'', gv_Version = ''v1''\<rparr>, ''RoleBinding'')"

definition typed_read :: "(gvk \<Rightarrow> bool) \<Rightarrow> gvk \<Rightarrow> ('s \<Rightarrow> (api_error + 'a) \<times> 's) \<Rightarrow> 's \<Rightarrow> (api_error + 'a) \<times> 's" where
  "typed_read Known k get s = (if Known k then get s else (Inl (OtherError no_kind), s))"

definition typed_client :: "(gvk \<Rightarrow> bool) \<Rightarrow> 's kube \<Rightarrow> 's kube" where
  "typed_client Known K = \<lparr>
     kGetPod = (\<lambda>ns n. typed_read Known (core_v1, ''Pod'') (kGetPod K ns n)),
     kGetNetwork = (\<lambda>ns n. typed_read Known (GroupVersion, ''OverlayNetwork'') (kGetNetwork K ns n)),
     kGetServiceAccount = (\<lambda>ns n. typed_read Known (core_v1, ''ServiceAccount'') (kGetServiceAccount K ns n)),
     kGetSecret = (\<lambda>ns n. typed_read Known (core_v1, ''Secret'') (kGetSecret K ns n)),
     kGetRoleBinding = (\<lambda>ns n. typed_read Known (\<lparr>gv_Group = ''rbac.authorization.k8s.io'', gv_Version = ''v1''\<rparr>, ''RoleBinding'')
        (kGetRoleBinding K ns n)),
     kListNetworks = (\<lambda>ns. typed_read Known (GroupVersion, ''OverlayNetworkList'') (kListNetworks K ns)),
     kWrite = (\<lambda>q s. if Known (request_kind q) then kWrite K q s else (Some (OtherError no_kind), s))\<rparr>"

definition typed_decoder :: "(gvk \<Rightarrow> bool) \<Rightarrow> gvk \<Rightarrow> ('raw, 'obj) decoder \<Rightarrow> ('raw, 'obj) decoder" where
  "typed_decoder Known k D = \<lparr>Decode = (\<lambda>req. if Known k then Decode D req else Inl no_kind),
     DecodeRaw = (\<lambda>raw. if Known k then DecodeRaw D raw else Inl no_kind)\<rparr>"

lemma typed_read_known [simp]: "Known k \<Longrightarrow> typed_read Known k get = get"
  by (simp add: typed_read_def fun_eq_iff)

lemma typed_decoder_known [simp]: "Known k \<Longrightarrow> typed_decoder Known k D = D"
  by (simp add: typed_decoder_def)

lemma typed_client_reads [simp]:
  "Known (core_v1, ''Pod'') \<Longrightarrow> kGetPod (typed_client Known K) = kGetPod K"
  "Known (GroupVersion, ''OverlayNetwork'') \<Longrightarrow> kGetNetwork (typed_client Known K) = kGetNetwork K"
  "Known (core_v1, ''ServiceAccount'') \<Longrightarrow> kGetServiceAccount (typed_client Known K) = kGetServiceAccount K"
  "Known (core_v1, ''Secret'') \<Longrightarrow> kGetSecret (typed_client Known K) = kGetSecret K"
  "Known (\<lparr>gv_Group = ''rbac.authorization.k8s.io'', gv_Version = ''v1''\<rparr>, ''RoleBinding'') \<Longrightarrow>
     kGetRoleBinding (typed_client Known K) = kGetRoleBinding K"
  "Known (GroupVersion, ''OverlayNetworkList'') \<Longrightarrow> kListNetworks (typed_client Known K) = kListNetworks K"
  by (simp_all add: typed_client_def)

lemma typed_client_write [simp]:
  "Known (request_kind q) \<Longrightarrow> write_api (typed_client Known K) q = write_api K q"
  by (simp add: write_api_def typed_client_def fun_eq_iff)

text \<open>A reconciler runs as with the plain client if the kinds listed for it are known: it uses no other.\<close>

lemma process_networks_typed:
  assumes "Known (GroupVersion, ''OverlayNetwork'')"
  shows "process_networks L (typed_client Known K) pod rn es er items uniq h w =
    process_networks L K pod rn es er items uniq h w"
proof -
  have known_status: "Known (request_kind (UpdateNetworkStatus nw))" for nw using assms by simp
  have p: "push_status (typed_client Known K) nw w = push_status K nw w" for nw w
    unfolding push_status_def typed_client_write [of Known, OF known_status] ..
  have a: "allocateIP L (typed_client Known K) nw pod b xs ys w = allocateIP L K nw pod b xs ys w"
    and d: "deallocateIP L (typed_client Known K) nw pod w = deallocateIP L K nw pod w" for nw b xs ys w
    unfolding allocateIP_def deallocateIP_def p by (rule refl)+
  show ?thesis
  proof (induction items arbitrary: uniq h w)
    case (Cons item items)
    show ?case unfolding process_networks.simps a d Cons.IH ..
  qed simp
qed

lemma reconcile_pod_typed:
  assumes "\<forall>k \<in> set (reconciler_kinds PodReconciler). Known k"
  shows "reconcile_pod L F (typed_client Known K) ns name w = reconcile_pod L F K ns name w"
proof -
  from assms have known: "Known (core_v1, ''Pod'')" "Known (GroupVersion, ''OverlayNetwork'')"
    "Known (GroupVersion, ''OverlayNetworkList'')" "Known (request_kind (UpdatePod p))" for p by simp_all
  show ?thesis
    unfolding reconcile_pod_def process_networks_typed [of Known, OF known(2)] finish_reconcile_def
      typed_client_write [of Known, OF known(4)] typed_client_reads(1) [of Known, OF known(1)]
      typed_client_reads(6) [of Known, OF known(3)] ..
qed

lemma reconcile_network_typed:
  assumes "\<forall>k \<in> set (reconciler_kinds OverlayNetworkReconciler). Known k"
  shows "reconcile_network F (typed_client Known K) ns name w = reconcile_network F K ns name w"
proof -
  from assms have known: "Known (GroupVersion, ''OverlayNetwork'')" "Known (request_kind (UpdateNetwork nw))" for nw by simp_all
  show ?thesis
    unfolding reconcile_network_def handleDeletion_def typed_client_write [of Known, OF known(2)]
      typed_client_reads(2) [of Known, OF known(1)] ..
qed

lemma reconcile_namespace_typed:
  assumes "\<forall>k \<in> set (reconciler_kinds NamespaceReconciler). Known k"
  shows "reconcile_namespace (typed_client Known K) name w = reconcile_namespace K name w"
proof -
  from assms have known: "Known (core_v1, ''ServiceAccount'')" "Known (core_v1, ''Secret'')"
    "Known (\<lparr>gv_Group = ''rbac.authorization.k8s.io'', gv_Version = ''v1''\<rparr>, ''RoleBinding'')"
    "Known (request_kind (CreateServiceAccount sa))" "Known (request_kind (CreateSecret sec))"
    "Known (request_kind (CreateRoleBinding rb))" for sa sec rb by simp_all
  show ?thesis
    unfolding reconcile_namespace_def ensure_account_def ensure_secret_def ensure_role_def reconcileServiceAccount_def
      reconcileSecret_def reconcileRole_def typed_client_reads(3) [of Known, OF known(1)]
      typed_client_reads(4) [of Known, OF known(2)] typed_client_reads(5) [of Known, OF known(3)]
      typed_client_write [of Known, OF known(4)] typed_client_write [of Known, OF known(5)]
      typed_client_write [of Known, OF known(6)] ..
qed

lemma reconcile_tunnel_typed:
  assumes "\<forall>k \<in> set (reconciler_kinds (Tunnel_Reconciler t)). Known k"
  shows "reconcile_tunnel T N (typed_client Known K) ns name r w n = reconcile_tunnel T N K ns name r w n"
  using assms by (simp add: reconcile_tunnel_def)

lemma reconcile_dns_typed:
  assumes "\<forall>k \<in> set (reconciler_kinds (DNS_Reconciler d)). Known k"
  shows "reconcile_dns (typed_client Known K) ns name r w = reconcile_dns K ns name r w"
  using assms by (simp add: reconcile_dns_def)

lemma injector_Handle_typed:
  assumes "\<forall>k \<in> set (handler_kinds Handler_PodInjector). Known k"
  shows "injector_Handle (I\<lparr>inj_decoder := typed_decoder Known (core_v1, ''Pod'') (inj_decoder I)\<rparr>) (typed_client Known K) req w =
    injector_Handle I K req w"
proof -
  from assms have known: "Known (core_v1, ''Pod'')" "Known (core_v1, ''ServiceAccount'')" by simp_all
  have I: "I\<lparr>inj_decoder := typed_decoder Known (core_v1, ''Pod'') (inj_decoder I)\<rparr> = I" using known(1) by simp
  show ?thesis unfolding I injector_Handle_def typed_client_reads(3) [of Known, OF known(2)] ..
qed

lemma validator_Handle_typed:
  assumes "\<forall>k \<in> set (handler_kinds Handler_OverlayNetworkValidator). Known k"
  shows "validator_Handle Ls (typed_decoder Known (GroupVersion, ''OverlayNetwork'') D) req = validator_Handle Ls D req"
  using assms by simp

section \<open>The generated webhook\<close>

text \<open>The validators that the generator made for \<open>OverlayNetwork\<close> only log; \<open>None\<close> is no error. \<open>SetupWebhookWithManager\<close>
  would register them.\<close>

definition OverlayNetwork_SetupWebhookWithManager :: boot_step where
  "OverlayNetwork_SetupWebhookWithManager = WebhookComplete Kind_OverlayNetwork"

definition ValidateCreate :: "OverlayNetwork \<Rightarrow> string option" where
  "ValidateCreate r = None"

definition ValidateUpdate :: "OverlayNetwork \<Rightarrow> 'runtime_object \<Rightarrow> string option" where
  "ValidateUpdate r old = None"

definition ValidateDelete :: "OverlayNetwork \<Rightarrow> string option" where
  "ValidateDelete r = None"

text \<open>The path that kubebuilder documents for the validating webhook of a kind.\<close>

definition lower :: "char \<Rightarrow> char" where
  "lower c = (let n = of_char c :: nat in if 65 \<le> n \<and> n \<le> 90 then char_of (n + 32) else c)"

definition validate_path :: "gvk \<Rightarrow> string" where
  "validate_path k = ''/validate-'' @ map (\<lambda>c. if c = CHR ''.'' then CHR ''-'' else c) (gv_Group (fst k)) @ ''-'' @
     gv_Version (fst k) @ ''-'' @ map lower (snd k)"

lemma validate_path_network:
  "validate_path (kind_gvk Kind_OverlayNetwork) = ''/validate-network-deinstapel-de-v1alpha1-overlaynetwork''"
  by (simp add: validate_path_def GroupVersion_def lower_def char_of_def bit_0)

lemma webhook_steps:
  assumes "main_webhook R fl LookupEnv p = (x, q)" and "trace q = trace p @ ss"
  shows "list_ex registers ss \<longrightarrow> (\<exists>i. ss = take i (webhook_plan fl))"
proof (cases "LookupEnv ''SIDECAR_IMAGE''")
  case None
  with environment_missing(3) [of LookupEnv] assms show ?thesis unfolding refuses_def by fastforce
next
  case (Some img)
  from main_webhook_follows [of LookupEnv, OF this] assms(1) show ?thesis
  proof (cases rule: followsE)
    case (early i)
    with assms(2) show ?thesis by auto
  next
    case (late p')
    with assms(2) show ?thesis by (auto simp: exits_0_def intro: exI [of _ "length (webhook_plan fl)"])
  qed
qed

lemma webhook_plan_handlers:
  "Register path h \<in> set (webhook_plan fl) \<Longrightarrow> path = ''/mutate-v1-pod'' \<and> h = Handler_PodInjector \<or>
     path = validate_path (kind_gvk Kind_OverlayNetwork) \<and> h = Handler_OverlayNetworkValidator"
  "OverlayNetwork_SetupWebhookWithManager \<notin> set (webhook_plan fl)"
  unfolding validate_path_network by (simp_all add: webhook_plan_def init_scheme_def OverlayNetwork_SetupWebhookWithManager_def)

section \<open>Properties\<close>

text \<open>C22: the scheme of each program fits its reconcilers and webhooks. Whenever one of the four programs
  registers a controller, the scheme that its \<open>init\<close> has built knows the kind that is watched, and the
  reconciler runs on the client that fails on every kind the scheme does not know exactly as on a client
  without this restriction: on every server, for every object, in every state. The same holds for the
  handlers that the webhook program registers, with the decoders that need the scheme.\<close>

theorem reconcilers_run_with_scheme:
  fixes R :: "'o runtime" and K :: "'s kube"
  assumes "scheme_pkg_ok P"
    and "prog \<in> {main_operator R fl, main_webhook R fl LookupEnv, main_sidecar R N fl LookupEnv, main_dns R fl LookupEnv}"
    and "prog p = (x, q)" and "trace q = trace p @ xs @ s # ys" and "scheme_after P xs (NewScheme P) = Returns sc"
  shows "(\<forall>k c. s = Complete k c \<longrightarrow> Recognizes P sc (kind_gvk k)) \<and>
    (s = Complete Kind_Pod PodReconciler \<longrightarrow>
       reconcile_pod L F (typed_client (Recognizes P sc) K) ns name w = reconcile_pod L F K ns name w) \<and>
    (s = Complete Kind_OverlayNetwork OverlayNetworkReconciler \<longrightarrow>
       reconcile_network F (typed_client (Recognizes P sc) K) ns name w = reconcile_network F K ns name w) \<and>
    (s = Complete Kind_Namespace NamespaceReconciler \<longrightarrow>
       reconcile_namespace (typed_client (Recognizes P sc) K) name w = reconcile_namespace K name w) \<and>
    (\<forall>t. s = Complete Kind_OverlayNetwork (Tunnel_Reconciler t) \<longrightarrow>
       reconcile_tunnel T NL (typed_client (Recognizes P sc) K) ns name r w n = reconcile_tunnel T NL K ns name r w n) \<and>
    (\<forall>d. s = Complete Kind_OverlayNetwork (DNS_Reconciler d) \<longrightarrow>
       reconcile_dns (typed_client (Recognizes P sc) K) ns name dr w = reconcile_dns K ns name dr w) \<and>
    (\<forall>path. s = Register path Handler_PodInjector \<longrightarrow>
       injector_Handle (I\<lparr>inj_decoder := typed_decoder (Recognizes P sc) (core_v1, ''Pod'') (inj_decoder I)\<rparr>)
         (typed_client (Recognizes P sc) K) preq w = injector_Handle I K preq w) \<and>
    (\<forall>path. s = Register path Handler_OverlayNetworkValidator \<longrightarrow>
       validator_Handle Ls (typed_decoder (Recognizes P sc) (GroupVersion, ''OverlayNetwork'') D) nreq = validator_Handle Ls D nreq)"
proof -
  obtain ss where ss: "trace q = trace p @ ss" "well_typed {} ss" using programs_typed [OF assms(2,3)] by blast
  with assms(4) have "well_typed {} (xs @ s # ys)" by simp
  from well_typed_sound [OF assms(1) this assms(5)] have n: "\<forall>k \<in> set (needs s). Recognizes P sc k" by simp
  show ?thesis
    by (intro conjI allI impI;
        (rule reconcile_pod_typed reconcile_network_typed reconcile_namespace_typed reconcile_tunnel_typed
          reconcile_dns_typed injector_Handle_typed validator_Handle_typed)?; use n in simp)
qed

text \<open>The injector of a pod in the webhook program, with the scheme that the program has built when it registers it.\<close>

theorem reconcilers_run_with_scheme_witness:
  "\<exists>new. injector_Handle (demo_injector\<lparr>inj_decoder := typed_decoder (\<lambda>k. k \<in> set (client_kinds @ network_kinds)) (core_v1, ''Pod'')
       (inj_decoder demo_injector)\<rparr>) (typed_client (\<lambda>k. k \<in> set (client_kinds @ network_kinds)) account_kube)
     (pod_request (plain_pod [(POD_OVERLAY_LABEL, ''true'')])) idle_world =
     Returns (PatchResponseFromRaw (plain_pod [(POD_OVERLAY_LABEL, ''true'')]) new, idle_world)"
proof -
  let ?prog = "main_webhook fine_runtime (\<lambda>_. None) demo_env"
  obtain x q where run: "?prog bare_process = (x, q)" by fastforce
  define pre where "pre = take 4 (webhook_plan (\<lambda>_. None))"
  define post where "post = drop 5 (webhook_plan (\<lambda>_. None))"
  have "trace q = webhook_plan (\<lambda>_. None)"
    using run by (auto simp: main_webhook_def webhook_init_def webhook_plan_def init_scheme_def perform_def fine_runtime_def
        bare_process_def manager_options_def Let_def demo_env_def)
  then have t: "trace q = trace bare_process @ pre @ Register ''/mutate-v1-pod'' Handler_PodInjector # post"
    by (simp add: webhook_plan_def init_scheme_def pre_def post_def bare_process_def)
  have sc: "scheme_after scheme_std pre (NewScheme scheme_std) = Returns (client_kinds @ network_kinds)"
    by (simp add: pre_def webhook_plan_def init_scheme_def scheme_std_def networkv1alpha1_AddToScheme_def register_types_def
        SchemeBuilder_def network_kinds_def)
  have known: "Recognizes scheme_std (client_kinds @ network_kinds) = (\<lambda>k. k \<in> set (client_kinds @ network_kinds))"
    by (simp add: scheme_std_def fun_eq_iff)
  have "?prog \<in> {main_operator fine_runtime (\<lambda>_. None), ?prog, main_sidecar fine_runtime (fixed_netlink []) (\<lambda>_. None) demo_env,
      main_dns fine_runtime (\<lambda>_. None) demo_env}" by simp
  note run_with_scheme = reconcilers_run_with_scheme [OF scheme_std_ok this run t sc, unfolded known,
      THEN conjunct2, THEN conjunct2, THEN conjunct2, THEN conjunct2, THEN conjunct2, THEN conjunct2, THEN conjunct1,
      rule_format, OF refl, of demo_injector account_kube]
  show ?thesis unfolding run_with_scheme demo_injection by (intro exI) (rule refl)
qed

text \<open>The handlers that decide. The webhook program registers the injector and the validator of
  \<open>webhooks/\<close> and nothing else; the validator is served at the path that the generated configuration
  names for the kind \<open>OverlayNetwork\<close>, and the generated validators, which accept everything, are never
  registered.\<close>

lemma webhook_handlers:
  assumes "main_webhook R fl LookupEnv p = (x, q)" and "trace q = trace p @ ss"
  shows "(\<forall>path h. Register path h \<in> set ss \<longrightarrow> path = ''/mutate-v1-pod'' \<and> h = Handler_PodInjector \<or>
      path = validate_path (kind_gvk Kind_OverlayNetwork) \<and> h = Handler_OverlayNetworkValidator) \<and>
    OverlayNetwork_SetupWebhookWithManager \<notin> set ss"
proof (cases "list_ex registers ss")
  case True
  then obtain i where "ss = take i (webhook_plan fl)" using webhook_steps [OF assms] by blast
  then have "set ss \<subseteq> set (webhook_plan fl)" by (simp add: set_take_subset)
  with webhook_plan_handlers [where fl = fl] show ?thesis by blast
next
  case False
  then show ?thesis by (auto simp: list_ex_iff registers_def OverlayNetwork_SetupWebhookWithManager_def)
qed

end
