(* ===== verification/DeepCopy.thy ===== *)
theory DeepCopy
  imports Api
begin

text \<open>
  The generated deep copy functions of \<open>api/v1alpha1/zz_generated.deepcopy.go\<close>, over a store in which
  slices and maps are references: a slice is an array, an offset and a length, and two slices of
  the same array share its elements. Structs are values whose fields may hold references.
  \<open>DeepCopyInto\<close> takes the value of \<open>*in\<close> and returns the value it leaves in \<open>*out\<close> with the new store.
  The copy functions of the metadata belong to \<open>k8s.io/apimachinery\<close> and are parameters.
  \<open>abs_network\<close> reads a network from the store as the record that the other theories use.
\<close>

section \<open>Values and the store\<close>

record slice =
  s_arr :: nat
  s_off :: nat
  s_len :: nat

record AllocV =
  av_PodName :: string
  av_PodIP :: string
  av_IP :: string
  av_ExtraNetworks :: "slice option"

record ExtraV =
  xv_Name :: string
  xv_RoutableCIDRs :: "slice option"

record SpecV =
  sv_AllocatableCIDR :: string
  sv_Port :: int
  sv_RoutableCIDRs :: "slice option"
  sv_OptionalRoutes :: "slice option"
  sv_ServiceNames :: "slice option"

record StatusV =
  tv_Allocations :: "slice option"
  tv_Routers :: "slice option"
  tv_OptionalRouters :: "nat option"

record 'm NetworkV =
  nv_TypeMeta :: "string \<times> string"
  nv_ObjectMeta :: 'm
  nv_Spec :: SpecV
  nv_Status :: StatusV

record 'l ListV =
  lv_TypeMeta :: "string \<times> string"
  lv_ListMeta :: 'l
  lv_Items :: "slice option"

record ('m, 'h) store =
  free :: nat
  strs :: "nat \<rightharpoonup> string list"
  allocs :: "nat \<rightharpoonup> AllocV list"
  extras :: "nat \<rightharpoonup> ExtraV list"
  optmaps :: "nat \<rightharpoonup> (string, slice option) go_map"
  networks :: "nat \<rightharpoonup> 'm NetworkV list"
  metas :: 'h

record ('m, 'l, 'h) meta_pkg =
  om_DeepCopyInto :: "'m \<Rightarrow> 'h \<Rightarrow> 'm \<times> 'h"
  lm_DeepCopyInto :: "'l \<Rightarrow> 'h \<Rightarrow> 'l \<times> 'h"
  om_read :: "'h \<Rightarrow> 'm \<Rightarrow> ObjectMeta"

text \<open>The elements of a slice.\<close>

definition elems :: "(nat \<rightharpoonup> 'a list) \<Rightarrow> slice \<Rightarrow> 'a list" where
  "elems H s = (case H (s_arr s) of None \<Rightarrow> [] | Some xs \<Rightarrow> take (s_len s) (drop (s_off s) xs))"

section \<open>The copy functions\<close>

text \<open>A fresh address, and a slice over a whole fresh array.\<close>

definition fresh :: "('m, 'h) store \<Rightarrow> nat \<times> ('m, 'h) store" where
  "fresh h = (free h, h\<lparr>free := Suc (free h)\<rparr>)"

definition whole :: "nat \<Rightarrow> slice \<Rightarrow> slice" where
  "whole a s = \<lparr>s_arr = a, s_off = 0, s_len = s_len s\<rparr>"

text \<open>\<open>*out = make([]T, len(*in)); copy(*out, *in)\<close>, left out for \<open>nil\<close>.\<close>

definition copy_strs :: "slice option \<Rightarrow> ('m, 'h) store \<Rightarrow> slice option \<times> ('m, 'h) store" where
  "copy_strs so h = (case so of None \<Rightarrow> (None, h)
     | Some s \<Rightarrow> (case fresh h of (a, h) \<Rightarrow> (Some (whole a s), h\<lparr>strs := (strs h)(a \<mapsto> elems (strs h) s)\<rparr>)))"

definition copy_allocs :: "slice option \<Rightarrow> ('m, 'h) store \<Rightarrow> slice option \<times> ('m, 'h) store" where
  "copy_allocs so h = (case so of None \<Rightarrow> (None, h)
     | Some s \<Rightarrow> (case fresh h of (a, h) \<Rightarrow> (Some (whole a s), h\<lparr>allocs := (allocs h)(a \<mapsto> elems (allocs h) s)\<rparr>)))"

definition ExtraRoute_DeepCopyInto :: "ExtraV \<Rightarrow> ('m, 'h) store \<Rightarrow> ExtraV \<times> ('m, 'h) store" where
  "ExtraRoute_DeepCopyInto v h =
     (case copy_strs (xv_RoutableCIDRs v) h of (s, h) \<Rightarrow> (v\<lparr>xv_RoutableCIDRs := s\<rparr>, h))"

definition IPAllocation_DeepCopyInto :: "AllocV \<Rightarrow> ('m, 'h) store \<Rightarrow> AllocV \<times> ('m, 'h) store" where
  "IPAllocation_DeepCopyInto v h = (v, h)"

text \<open>\<open>for i := range *in { (*in)[i].DeepCopyInto(&(*out)[i]) }\<close>\<close>

fun copy_elems :: "('v \<Rightarrow> 's \<Rightarrow> 'v \<times> 's) \<Rightarrow> 'v list \<Rightarrow> 's \<Rightarrow> 'v list \<times> 's" where
  "copy_elems f [] h = ([], h)"
| "copy_elems f (v # vs) h =
     (case f v h of (v, h) \<Rightarrow> case copy_elems f vs h of (vs, h) \<Rightarrow> (v # vs, h))"

definition copy_extras :: "slice option \<Rightarrow> ('m, 'h) store \<Rightarrow> slice option \<times> ('m, 'h) store" where
  "copy_extras so h = (case so of None \<Rightarrow> (None, h)
     | Some s \<Rightarrow> (case fresh h of (a, h) \<Rightarrow>
         case copy_elems ExtraRoute_DeepCopyInto (elems (extras h) s) h of (vs, h) \<Rightarrow>
           (Some (whole a s), h\<lparr>extras := (extras h)(a \<mapsto> vs)\<rparr>)))"

definition Spec_DeepCopyInto :: "SpecV \<Rightarrow> ('m, 'h) store \<Rightarrow> SpecV \<times> ('m, 'h) store" where
  "Spec_DeepCopyInto v h =
     (case copy_strs (sv_RoutableCIDRs v) h of (cidrs, h) \<Rightarrow>
      case copy_extras (sv_OptionalRoutes v) h of (routes, h) \<Rightarrow>
        (v\<lparr>sv_RoutableCIDRs := cidrs, sv_OptionalRoutes := routes\<rparr>, h))"

text \<open>The loop over the map; \<open>outVal\<close> is \<open>nil\<close> for a \<open>nil\<close> slice.\<close>

definition copy_entry :: "string \<times> slice option \<Rightarrow> ('m, 'h) store \<Rightarrow> (string \<times> slice option) \<times> ('m, 'h) store" where
  "copy_entry kv h = (case copy_allocs (snd kv) h of (outVal, h) \<Rightarrow> ((fst kv, outVal), h))"

definition copy_optmap :: "nat option \<Rightarrow> ('m, 'h) store \<Rightarrow> nat option \<times> ('m, 'h) store" where
  "copy_optmap ao h = (case ao of None \<Rightarrow> (None, h)
     | Some m \<Rightarrow> (case fresh h of (a, h) \<Rightarrow>
         case copy_elems copy_entry (case optmaps h m of None \<Rightarrow> [] | Some es \<Rightarrow> es) h of (es, h) \<Rightarrow>
           (Some a, h\<lparr>optmaps := (optmaps h)(a \<mapsto> es)\<rparr>)))"

definition Status_DeepCopyInto :: "StatusV \<Rightarrow> ('m, 'h) store \<Rightarrow> StatusV \<times> ('m, 'h) store" where
  "Status_DeepCopyInto v h =
     (case copy_allocs (tv_Allocations v) h of (als, h) \<Rightarrow>
      case copy_allocs (tv_Routers v) h of (rts, h) \<Rightarrow>
      case copy_optmap (tv_OptionalRouters v) h of (opt, h) \<Rightarrow>
        (v\<lparr>tv_Allocations := als, tv_Routers := rts, tv_OptionalRouters := opt\<rparr>, h))"

definition Network_DeepCopyInto ::
  "('m, 'l, 'h) meta_pkg \<Rightarrow> 'm NetworkV \<Rightarrow> ('m, 'h) store \<Rightarrow> 'm NetworkV \<times> ('m, 'h) store" where
  "Network_DeepCopyInto M v h =
     (case om_DeepCopyInto M (nv_ObjectMeta v) (metas h) of (meta, mh) \<Rightarrow>
      case Spec_DeepCopyInto (nv_Spec v) (h\<lparr>metas := mh\<rparr>) of (spec, h) \<Rightarrow>
      case Status_DeepCopyInto (nv_Status v) h of (status, h) \<Rightarrow>
        (v\<lparr>nv_ObjectMeta := meta, nv_Spec := spec, nv_Status := status\<rparr>, h))"

definition List_DeepCopyInto ::
  "('m, 'l, 'h) meta_pkg \<Rightarrow> 'l ListV \<Rightarrow> ('m, 'h) store \<Rightarrow> 'l ListV \<times> ('m, 'h) store" where
  "List_DeepCopyInto M v h =
     (case lm_DeepCopyInto M (lv_ListMeta v) (metas h) of (meta, mh) \<Rightarrow>
      let v = v\<lparr>lv_ListMeta := meta\<rparr>; h = h\<lparr>metas := mh\<rparr>
      in case lv_Items v of None \<Rightarrow> (v, h)
         | Some s \<Rightarrow> (case fresh h of (a, h) \<Rightarrow>
             case copy_elems (Network_DeepCopyInto M) (elems (networks h) s) h of (vs, h) \<Rightarrow>
               (v\<lparr>lv_Items := Some (whole a s)\<rparr>, h\<lparr>networks := (networks h)(a \<mapsto> vs)\<rparr>)))"

text \<open>The six \<open>DeepCopy\<close> functions: \<open>nil\<close> for \<open>nil\<close>, otherwise a new object filled by \<open>DeepCopyInto\<close>; a pointer
  is given as the struct it points to.\<close>

definition DeepCopy :: "('v \<Rightarrow> 's \<Rightarrow> 'v \<times> 's) \<Rightarrow> 'v option \<Rightarrow> 's \<Rightarrow> 'v option \<times> 's" where
  "DeepCopy into p h = (case p of None \<Rightarrow> (None, h) | Some v \<Rightarrow> (case into v h of (v, h) \<Rightarrow> (Some v, h)))"

definition ExtraRoute_DeepCopy :: "ExtraV option \<Rightarrow> ('m, 'h) store \<Rightarrow> ExtraV option \<times> ('m, 'h) store" where
  "ExtraRoute_DeepCopy = DeepCopy ExtraRoute_DeepCopyInto"

definition IPAllocation_DeepCopy :: "AllocV option \<Rightarrow> ('m, 'h) store \<Rightarrow> AllocV option \<times> ('m, 'h) store" where
  "IPAllocation_DeepCopy = DeepCopy IPAllocation_DeepCopyInto"

definition Spec_DeepCopy :: "SpecV option \<Rightarrow> ('m, 'h) store \<Rightarrow> SpecV option \<times> ('m, 'h) store" where
  "Spec_DeepCopy = DeepCopy Spec_DeepCopyInto"

definition Status_DeepCopy :: "StatusV option \<Rightarrow> ('m, 'h) store \<Rightarrow> StatusV option \<times> ('m, 'h) store" where
  "Status_DeepCopy = DeepCopy Status_DeepCopyInto"

definition Network_DeepCopy ::
  "('m, 'l, 'h) meta_pkg \<Rightarrow> 'm NetworkV option \<Rightarrow> ('m, 'h) store \<Rightarrow> 'm NetworkV option \<times> ('m, 'h) store" where
  "Network_DeepCopy M = DeepCopy (Network_DeepCopyInto M)"

definition List_DeepCopy ::
  "('m, 'l, 'h) meta_pkg \<Rightarrow> 'l ListV option \<Rightarrow> ('m, 'h) store \<Rightarrow> 'l ListV option \<times> ('m, 'h) store" where
  "List_DeepCopy M = DeepCopy (List_DeepCopyInto M)"

text \<open>\<open>DeepCopyObject\<close> returns the interface value \<open>nil\<close> (\<open>None\<close>) if \<open>DeepCopy\<close> returns a \<open>nil\<close> pointer.\<close>

definition Network_DeepCopyObject ::
  "('m, 'l, 'h) meta_pkg \<Rightarrow> 'm NetworkV option \<Rightarrow> ('m, 'h) store \<Rightarrow> 'm NetworkV option \<times> ('m, 'h) store" where
  "Network_DeepCopyObject M p h = (case Network_DeepCopy M p h of (Some c, h) \<Rightarrow> (Some c, h) | (None, h) \<Rightarrow> (None, h))"

definition List_DeepCopyObject ::
  "('m, 'l, 'h) meta_pkg \<Rightarrow> 'l ListV option \<Rightarrow> ('m, 'h) store \<Rightarrow> 'l ListV option \<times> ('m, 'h) store" where
  "List_DeepCopyObject M p h = (case List_DeepCopy M p h of (Some c, h) \<Rightarrow> (Some c, h) | (None, h) \<Rightarrow> (None, h))"

section \<open>Reading a value from the store\<close>

definition read_strs :: "('m, 'h) store \<Rightarrow> slice option \<Rightarrow> string list" where
  "read_strs h so = (case so of None \<Rightarrow> [] | Some s \<Rightarrow> elems (strs h) s)"

definition abs_alloc :: "('m, 'h) store \<Rightarrow> AllocV \<Rightarrow> OverlayNetworkIPAllocation" where
  "abs_alloc h v = \<lparr>PodName = av_PodName v, PodIP = av_PodIP v, IP = av_IP v,
     ExtraNetworks = read_strs h (av_ExtraNetworks v)\<rparr>"

definition abs_allocs :: "('m, 'h) store \<Rightarrow> slice option \<Rightarrow> OverlayNetworkIPAllocation list" where
  "abs_allocs h so = (case so of None \<Rightarrow> [] | Some s \<Rightarrow> map (abs_alloc h) (elems (allocs h) s))"

definition abs_extra :: "('m, 'h) store \<Rightarrow> ExtraV \<Rightarrow> OverlayNetworkExtraRoute" where
  "abs_extra h v = \<lparr>er_Name = xv_Name v, er_RoutableCIDRs = read_strs h (xv_RoutableCIDRs v)\<rparr>"

definition abs_extras :: "('m, 'h) store \<Rightarrow> slice option \<Rightarrow> OverlayNetworkExtraRoute list" where
  "abs_extras h so = (case so of None \<Rightarrow> [] | Some s \<Rightarrow> map (abs_extra h) (elems (extras h) s))"

definition abs_entry :: "('m, 'h) store \<Rightarrow> string \<times> slice option \<Rightarrow> string \<times> OverlayNetworkIPAllocation list" where
  "abs_entry h kv = (fst kv, abs_allocs h (snd kv))"

definition entries :: "('m, 'h) store \<Rightarrow> nat \<Rightarrow> (string, slice option) go_map" where
  "entries h m = (case optmaps h m of None \<Rightarrow> [] | Some es \<Rightarrow> es)"

definition abs_spec :: "('m, 'h) store \<Rightarrow> SpecV \<Rightarrow> OverlayNetworkSpec" where
  "abs_spec h v = \<lparr>AllocatableCIDR = sv_AllocatableCIDR v, Port = sv_Port v, RoutableCIDRs = read_strs h (sv_RoutableCIDRs v),
     OptionalRoutes = abs_extras h (sv_OptionalRoutes v), ServiceNames = read_strs h (sv_ServiceNames v)\<rparr>"

definition abs_status :: "('m, 'h) store \<Rightarrow> StatusV \<Rightarrow> OverlayNetworkStatus" where
  "abs_status h v = \<lparr>Allocations = abs_allocs h (tv_Allocations v), Routers = abs_allocs h (tv_Routers v),
     OptionalRouters = map_option (\<lambda>m. map (abs_entry h) (entries h m)) (tv_OptionalRouters v)\<rparr>"

definition abs_network :: "('m, 'l, 'h) meta_pkg \<Rightarrow> ('m, 'h) store \<Rightarrow> 'm NetworkV \<Rightarrow> OverlayNetwork" where
  "abs_network M h v = \<lparr>nw_meta = om_read M (metas h) (nv_ObjectMeta v), nw_Spec = abs_spec h (nv_Spec v),
     nw_Status = abs_status h (nv_Status v)\<rparr>"

end
