(* ===== verification/DeepCopyLaws.thy ===== *)
theory DeepCopyLaws
  imports DeepCopy
begin

text \<open>
  What the deep copy functions guarantee. Every one of them is a \<open>copier\<close>: it leaves the cells that
  were in use as they were, the copy reads as the original, and the cells of the copy are fresh.
  The cells of a value are the addresses of the arrays and maps it may write to without affecting a
  copy; the functions leave two kinds of slice out of them, \<open>ServiceNames\<close> of a specification and
  \<open>ExtraNetworks\<close> of an allocation, which a copy shares with its original.
\<close>

section \<open>Stores that grow\<close>

definition meta_pkg_ok :: "('m, 'l, 'h) meta_pkg \<Rightarrow> bool" where
  "meta_pkg_ok M \<longleftrightarrow>
     (\<forall>m h m' h'. om_DeepCopyInto M m h = (m', h') \<longrightarrow> om_read M h' m' = om_read M h m \<and> (\<forall>x. om_read M h' x = om_read M h x)) \<and>
     (\<forall>l h l' h'. lm_DeepCopyInto M l h = (l', h') \<longrightarrow> (\<forall>x. om_read M h' x = om_read M h x))"

definition extends :: "('m, 'l, 'h) meta_pkg \<Rightarrow> ('m, 'h) store \<Rightarrow> ('m, 'h) store \<Rightarrow> bool" where
  "extends M h h' \<longleftrightarrow> free h \<le> free h' \<and>
     (\<forall>a < free h. strs h' a = strs h a \<and> allocs h' a = allocs h a \<and> extras h' a = extras h a \<and>
        optmaps h' a = optmaps h a \<and> networks h' a = networks h a) \<and>
     (\<forall>x. om_read M (metas h') x = om_read M (metas h) x)"

lemma extends_refl [simp]: "extends M h h"
  by (simp add: extends_def)

lemma extends_trans: "extends M h1 h2 \<Longrightarrow> extends M h2 h3 \<Longrightarrow> extends M h1 h3"
  by (simp add: extends_def)

lemma extends_free: "extends M h h' \<Longrightarrow> free h \<le> free h'"
  by (simp add: extends_def)

lemma extends_elems:
  assumes "extends M h h'" and "s_arr s < free h"
  shows "elems (strs h') s = elems (strs h) s" "elems (allocs h') s = elems (allocs h) s"
    "elems (extras h') s = elems (extras h) s" "elems (networks h') s = elems (networks h) s"
  using assms by (simp_all add: extends_def elems_def)

text \<open>A slice of an array in use, within its bounds.\<close>

definition in_arr :: "(nat \<rightharpoonup> 'a list) \<Rightarrow> slice \<Rightarrow> bool" where
  "in_arr H s \<longleftrightarrow> (\<exists>xs. H (s_arr s) = Some xs \<and> s_off s + s_len s \<le> length xs)"

lemma length_elems: "in_arr H s \<Longrightarrow> length (elems H s) = s_len s"
  by (auto simp: in_arr_def elems_def)

lemma elems_whole [simp]: "length xs = s_len s \<Longrightarrow> elems (H(a \<mapsto> xs)) (whole a s) = xs"
  by (simp add: elems_def whole_def)

lemma in_arr_whole [simp]: "length xs = s_len s \<Longrightarrow> in_arr (H(a \<mapsto> xs)) (whole a s)"
  by (simp add: in_arr_def whole_def)

lemma s_arr_whole [simp]: "s_arr (whole a s) = a"
  by (simp add: whole_def)

lemma fresh_eq: "fresh h = (free h, h\<lparr>free := Suc (free h)\<rparr>)"
  by (simp add: fresh_def)

section \<open>The contract of a copy function\<close>

locale copier =
  fixes M :: "('m, 'l, 'h) meta_pkg"
    and ok :: "('m, 'h) store \<Rightarrow> 'v \<Rightarrow> bool"
    and abs :: "('m, 'h) store \<Rightarrow> 'v \<Rightarrow> 'a"
    and cells :: "('m, 'h) store \<Rightarrow> 'v \<Rightarrow> nat set"
    and copy :: "'v \<Rightarrow> ('m, 'h) store \<Rightarrow> 'v \<times> ('m, 'h) store"
  assumes frame: "extends M h h' \<Longrightarrow> ok h v \<Longrightarrow> ok h' v \<and> abs h' v = abs h v \<and> cells h' v = cells h v"
    and copy_ok: "ok h v \<Longrightarrow> copy v h = (v', h') \<Longrightarrow>
      extends M h h' \<and> ok h' v' \<and> abs h' v' = abs h v \<and> cells h' v' \<subseteq> {free h..<free h'}"
begin

lemma frame_ok: "extends M h h' \<Longrightarrow> ok h v \<Longrightarrow> ok h' v"
  using frame by simp

lemma frame_list: "extends M h h' \<Longrightarrow> list_all (ok h) vs \<Longrightarrow>
    list_all (ok h') vs \<and> map (abs h') vs = map (abs h) vs \<and> (\<Union>v\<in>set vs. cells h' v) = (\<Union>v\<in>set vs. cells h v)"
  using frame by (induction vs) simp_all

lemma copy_elems_ok:
  "list_all (ok h) vs \<Longrightarrow> copy_elems copy vs h = (vs', h') \<Longrightarrow>
     extends M h h' \<and> list_all (ok h') vs' \<and> length vs' = length vs \<and> map (abs h') vs' = map (abs h) vs \<and>
     (\<Union>v\<in>set vs'. cells h' v) \<subseteq> {free h..<free h'}"
proof (induction vs arbitrary: h vs' h')
  case (Cons v vs)
  obtain v1 h1 where 1: "copy v h = (v1, h1)" by fastforce
  obtain vs2 h2 where 2: "copy_elems copy vs h1 = (vs2, h2)" by fastforce
  have r: "vs' = v1 # vs2" "h' = h2" using Cons.prems(2) 1 2 by simp_all
  have c: "extends M h h1" "ok h1 v1" "abs h1 v1 = abs h v" "cells h1 v1 \<subseteq> {free h..<free h1}"
    using copy_ok [OF _ 1] Cons.prems(1) by simp_all
  have vs1: "list_all (ok h1) vs" "map (abs h1) vs = map (abs h) vs"
    using frame_list [OF c(1), of vs] Cons.prems(1) by simp_all
  note IH = Cons.IH [OF vs1(1) 2]
  have v2: "ok h2 v1" "abs h2 v1 = abs h1 v1" "cells h2 v1 = cells h1 v1" using frame [OF conjunct1 [OF IH] c(2)] by simp_all
  show ?case
    using c v2 IH vs1(2) extends_trans [OF c(1)] extends_free [OF c(1)] extends_free [OF conjunct1 [OF IH]]
    by (auto simp: r subset_iff)
qed simp

end

section \<open>Slices of strings\<close>

definition ok_strs :: "('m, 'h) store \<Rightarrow> slice option \<Rightarrow> bool" where
  "ok_strs h so \<longleftrightarrow> (case so of None \<Rightarrow> True | Some s \<Rightarrow> s_arr s < free h \<and> in_arr (strs h) s)"

definition arr_cells :: "slice option \<Rightarrow> nat set" where
  "arr_cells so = (case so of None \<Rightarrow> {} | Some s \<Rightarrow> {s_arr s})"

lemma extends_in_arr:
  assumes "extends M h h'" and "s_arr s < free h"
  shows "s_arr s < free h'" "in_arr (strs h') s = in_arr (strs h) s" "in_arr (allocs h') s = in_arr (allocs h) s"
    "in_arr (extras h') s = in_arr (extras h) s" "in_arr (networks h') s = in_arr (networks h) s"
  using assms by (simp_all add: extends_def in_arr_def)

lemma ok_strs_frame:
  assumes "extends M h h'" and "ok_strs h so"
  shows "ok_strs h' so \<and> read_strs h' so = read_strs h so"
proof (cases so)
  case (Some s)
  with assms(2) have "s_arr s < free h" "in_arr (strs h) s" by (simp_all add: ok_strs_def)
  with Some extends_in_arr [OF assms(1)] extends_elems [OF assms(1)] show ?thesis by (simp add: ok_strs_def read_strs_def)
qed (simp add: ok_strs_def read_strs_def)

lemma extends_new:
  "extends M h (h\<lparr>free := Suc (free h), strs := (strs h)(free h \<mapsto> xs)\<rparr>)"
  "extends M h (h\<lparr>free := Suc (free h), allocs := (allocs h)(free h \<mapsto> ys)\<rparr>)"
  "extends M h (h\<lparr>free := Suc (free h)\<rparr>)"
  by (simp_all add: extends_def)

lemma copy_strs_ok:
  assumes "ok_strs h so" and "copy_strs so h = (so', h')"
  shows "extends M h h' \<and> ok_strs h' so' \<and> read_strs h' so' = read_strs h so \<and> arr_cells so' \<subseteq> {free h..<free h'}"
proof (cases so)
  case (Some s)
  with assms have "in_arr (strs h) s" by (simp add: ok_strs_def)
  moreover from Some assms(2) have "so' = Some (whole (free h) s)"
    "h' = h\<lparr>free := Suc (free h), strs := (strs h)(free h \<mapsto> elems (strs h) s)\<rparr>"
    by (simp_all add: copy_strs_def fresh_eq)
  ultimately show ?thesis
    using Some extends_new(1) by (simp add: ok_strs_def read_strs_def arr_cells_def length_elems)
qed (use assms in \<open>simp add: copy_strs_def ok_strs_def arr_cells_def\<close>)

interpretation strs_copier: copier M ok_strs read_strs "\<lambda>h. arr_cells" copy_strs
  for M :: "('m, 'l, 'h) meta_pkg"
  using ok_strs_frame copy_strs_ok by unfold_locales blast+

section \<open>Slices of allocations\<close>

text \<open>An allocation itself owns no cells: its only slice stays shared.\<close>

definition ok_alloc :: "('m, 'h) store \<Rightarrow> AllocV \<Rightarrow> bool" where
  "ok_alloc h v \<longleftrightarrow> ok_strs h (av_ExtraNetworks v)"

interpretation alloc_copier: copier M ok_alloc abs_alloc "\<lambda>_ _. {}" IPAllocation_DeepCopyInto
  for M :: "('m, 'l, 'h) meta_pkg"
  using ok_strs_frame by unfold_locales (auto simp: ok_alloc_def abs_alloc_def IPAllocation_DeepCopyInto_def)

definition ok_allocs :: "('m, 'h) store \<Rightarrow> slice option \<Rightarrow> bool" where
  "ok_allocs h so \<longleftrightarrow> (case so of None \<Rightarrow> True
     | Some s \<Rightarrow> s_arr s < free h \<and> in_arr (allocs h) s \<and> list_all (ok_alloc h) (elems (allocs h) s))"

lemma ok_allocs_frame:
  assumes "extends M h h'" and "ok_allocs h so"
  shows "ok_allocs h' so \<and> abs_allocs h' so = abs_allocs h so"
proof (cases so)
  case (Some s)
  with assms(2) have s: "s_arr s < free h" "in_arr (allocs h) s" "list_all (ok_alloc h) (elems (allocs h) s)"
    by (simp_all add: ok_allocs_def)
  with Some extends_in_arr [OF assms(1) s(1)] extends_elems [OF assms(1) s(1)] alloc_copier.frame_list [OF assms(1) s(3)]
  show ?thesis by (simp add: ok_allocs_def abs_allocs_def)
qed (simp add: ok_allocs_def abs_allocs_def)

lemma copy_allocs_ok:
  assumes "ok_allocs h so" and "copy_allocs so h = (so', h')"
  shows "extends M h h' \<and> ok_allocs h' so' \<and> abs_allocs h' so' = abs_allocs h so \<and> arr_cells so' \<subseteq> {free h..<free h'}"
proof (cases so)
  case (Some s)
  with assms have s: "in_arr (allocs h) s" "list_all (ok_alloc h) (elems (allocs h) s)" by (simp_all add: ok_allocs_def)
  from Some assms(2) have r: "so' = Some (whole (free h) s)"
    "h' = h\<lparr>free := Suc (free h), allocs := (allocs h)(free h \<mapsto> elems (allocs h) s)\<rparr>"
    by (simp_all add: copy_allocs_def fresh_eq)
  have e: "extends M h h'" unfolding r(2) by (rule extends_new(2))
  show ?thesis
    using Some r s e alloc_copier.frame_list [OF e s(2)]
    by (simp add: ok_allocs_def abs_allocs_def arr_cells_def length_elems)
qed (use assms in \<open>simp add: copy_allocs_def ok_allocs_def arr_cells_def\<close>)

interpretation allocs_copier: copier M ok_allocs abs_allocs "\<lambda>h. arr_cells" copy_allocs
  for M :: "('m, 'l, 'h) meta_pkg"
  using ok_allocs_frame copy_allocs_ok by unfold_locales blast+

section \<open>The specification\<close>

definition ok_extra :: "('m, 'h) store \<Rightarrow> ExtraV \<Rightarrow> bool" where
  "ok_extra h v \<longleftrightarrow> ok_strs h (xv_RoutableCIDRs v)"

definition extra_cells :: "('m, 'h) store \<Rightarrow> ExtraV \<Rightarrow> nat set" where
  "extra_cells h v = arr_cells (xv_RoutableCIDRs v)"

interpretation extra_copier: copier M ok_extra abs_extra extra_cells ExtraRoute_DeepCopyInto
  for M :: "('m, 'l, 'h) meta_pkg"
proof unfold_locales
  fix h h' :: "('m, 'h) store" and v v' :: ExtraV
  show "ok_extra h' v \<and> abs_extra h' v = abs_extra h v \<and> extra_cells h' v = extra_cells h v"
    if "extends M h h'" "ok_extra h v"
    using ok_strs_frame [OF that(1)] that(2) by (simp add: ok_extra_def abs_extra_def extra_cells_def)
  assume a: "ok_extra h v" "ExtraRoute_DeepCopyInto v h = (v', h')"
  obtain so h1 where c: "copy_strs (xv_RoutableCIDRs v) h = (so, h1)" by fastforce
  with a show "extends M h h' \<and> ok_extra h' v' \<and> abs_extra h' v' = abs_extra h v \<and> extra_cells h' v' \<subseteq> {free h..<free h'}"
    using copy_strs_ok [OF _ c, of M] by (clarsimp simp: ExtraRoute_DeepCopyInto_def ok_extra_def abs_extra_def extra_cells_def)
qed

definition ok_extras :: "('m, 'h) store \<Rightarrow> slice option \<Rightarrow> bool" where
  "ok_extras h so \<longleftrightarrow> (case so of None \<Rightarrow> True
     | Some s \<Rightarrow> s_arr s < free h \<and> in_arr (extras h) s \<and> list_all (ok_extra h) (elems (extras h) s))"

definition extras_cells :: "('m, 'h) store \<Rightarrow> slice option \<Rightarrow> nat set" where
  "extras_cells h so = arr_cells so \<union> (case so of None \<Rightarrow> {} | Some s \<Rightarrow> (\<Union>v \<in> set (elems (extras h) s). extra_cells h v))"

lemma ok_extras_frame:
  assumes "extends M h h'" and "ok_extras h so"
  shows "ok_extras h' so \<and> abs_extras h' so = abs_extras h so \<and> extras_cells h' so = extras_cells h so"
proof (cases so)
  case (Some s)
  with assms(2) have s: "s_arr s < free h" "in_arr (extras h) s" "list_all (ok_extra h) (elems (extras h) s)"
    by (simp_all add: ok_extras_def)
  with Some extends_in_arr [OF assms(1) s(1)] extends_elems [OF assms(1) s(1)] extra_copier.frame_list [OF assms(1) s(3)]
  show ?thesis by (simp add: ok_extras_def abs_extras_def extras_cells_def)
qed (simp add: ok_extras_def abs_extras_def extras_cells_def)

text \<open>Writing the new array or map at its reserved address, after the elements are copied.\<close>

lemma extends_put:
  assumes "extends M (h\<lparr>free := Suc (free h)\<rparr>) h1"
  shows "extends M h (h1\<lparr>extras := (extras h1)(free h \<mapsto> es)\<rparr>)" "extends M h (h1\<lparr>optmaps := (optmaps h1)(free h \<mapsto> ms)\<rparr>)"
    "extends M h (h1\<lparr>networks := (networks h1)(free h \<mapsto> ns)\<rparr>)"
  using assms by (simp_all add: extends_def less_Suc_eq)

lemma unaffected [simp]:
  "ok_strs (h\<lparr>extras := e\<rparr>) so = ok_strs h so" "read_strs (h\<lparr>extras := e\<rparr>) so = read_strs h so"
  "ok_strs (h\<lparr>optmaps := m\<rparr>) so = ok_strs h so" "read_strs (h\<lparr>optmaps := m\<rparr>) so = read_strs h so"
  by (simp_all add: ok_strs_def read_strs_def split: option.splits)

lemma unaffected_elems [simp]:
  "ok_extra (h\<lparr>extras := e\<rparr>) = ok_extra h" "abs_extra (h\<lparr>extras := e\<rparr>) = abs_extra h"
  "extra_cells (h\<lparr>extras := e\<rparr>) = extra_cells h"
  "ok_alloc (h\<lparr>optmaps := m\<rparr>) = ok_alloc h" "abs_alloc (h\<lparr>optmaps := m\<rparr>) = abs_alloc h"
  by (simp_all add: ok_extra_def abs_extra_def extra_cells_def ok_alloc_def abs_alloc_def fun_eq_iff)

lemma unaffected_allocs [simp]:
  "ok_allocs (h\<lparr>optmaps := m\<rparr>) so = ok_allocs h so" "abs_allocs (h\<lparr>optmaps := m\<rparr>) so = abs_allocs h so"
  by (simp_all add: ok_allocs_def abs_allocs_def split: option.splits)

lemma copy_extras_ok:
  assumes "ok_extras h so" and "copy_extras so h = (so', h')"
  shows "extends M h h' \<and> ok_extras h' so' \<and> abs_extras h' so' = abs_extras h so \<and> extras_cells h' so' \<subseteq> {free h..<free h'}"
proof (cases so)
  case (Some s)
  let ?h0 = "h\<lparr>free := Suc (free h)\<rparr>"
  from Some assms(1) have s: "s_arr s < free h" "in_arr (extras h) s" "list_all (ok_extra h) (elems (extras h) s)"
    by (simp_all add: ok_extras_def)
  obtain vs h1 where c: "copy_elems ExtraRoute_DeepCopyInto (elems (extras h) s) ?h0 = (vs, h1)" by fastforce
  with Some assms(2) have r: "so' = Some (whole (free h) s)" "h' = h1\<lparr>extras := (extras h1)(free h \<mapsto> vs)\<rparr>"
    by (simp_all add: copy_extras_def fresh_eq)
  note f0 = extra_copier.frame_list [OF extends_new(3) [of M h] s(3)]
  note cp = extra_copier.copy_elems_ok [where M = M, OF conjunct1 [OF f0] c]
  have len: "length vs = s_len s" using cp length_elems [OF s(2)] by simp
  have f: "Suc (free h) \<le> free h1" using extends_free cp by fastforce
  have cells: "extras_cells h' so' \<subseteq> {free h..<free h'}" using cp len f by (auto simp: r extras_cells_def arr_cells_def subset_iff)
  have abs: "abs_extras h' so' = abs_extras h so" using cp len f0 Some by (simp add: r abs_extras_def)
  have ok: "ok_extras h' so'" using cp len f by (simp add: r ok_extras_def)
  have "extends M h h'" unfolding r by (rule extends_put(1)) (use cp in simp)
  with cells abs ok show ?thesis by simp
qed (use assms in \<open>simp add: copy_extras_def ok_extras_def extras_cells_def arr_cells_def\<close>)

interpretation extras_copier: copier M ok_extras abs_extras extras_cells copy_extras
  for M :: "('m, 'l, 'h) meta_pkg"
  using ok_extras_frame copy_extras_ok by unfold_locales blast+

text \<open>\<open>ServiceNames\<close> is read but owns no cells.\<close>

definition ok_spec :: "('m, 'h) store \<Rightarrow> SpecV \<Rightarrow> bool" where
  "ok_spec h v \<longleftrightarrow> ok_strs h (sv_RoutableCIDRs v) \<and> ok_extras h (sv_OptionalRoutes v) \<and> ok_strs h (sv_ServiceNames v)"

definition spec_cells :: "('m, 'h) store \<Rightarrow> SpecV \<Rightarrow> nat set" where
  "spec_cells h v = arr_cells (sv_RoutableCIDRs v) \<union> extras_cells h (sv_OptionalRoutes v)"

interpretation spec_copier: copier M ok_spec abs_spec spec_cells Spec_DeepCopyInto
  for M :: "('m, 'l, 'h) meta_pkg"
proof unfold_locales
  fix h h' :: "('m, 'h) store" and v v' :: SpecV
  show "ok_spec h' v \<and> abs_spec h' v = abs_spec h v \<and> spec_cells h' v = spec_cells h v"
    if "extends M h h'" "ok_spec h v"
    using ok_strs_frame [OF that(1)] ok_extras_frame [OF that(1)] that(2) by (simp add: ok_spec_def abs_spec_def spec_cells_def)
  assume a: "ok_spec h v" "Spec_DeepCopyInto v h = (v', h')"
  obtain cidrs h1 where 1: "copy_strs (sv_RoutableCIDRs v) h = (cidrs, h1)" by fastforce
  obtain routes h2 where 2: "copy_extras (sv_OptionalRoutes v) h1 = (routes, h2)" by fastforce
  have r: "v' = v\<lparr>sv_RoutableCIDRs := cidrs, sv_OptionalRoutes := routes\<rparr>" "h' = h2"
    using a(2) 1 2 by (simp_all add: Spec_DeepCopyInto_def)
  have ok: "ok_strs h (sv_RoutableCIDRs v)" "ok_extras h (sv_OptionalRoutes v)" "ok_strs h (sv_ServiceNames v)"
    using a(1) by (simp_all add: ok_spec_def)
  note c1 = copy_strs_ok [OF ok(1) 1, of M]
  note e1 = conjunct1 [OF c1]
  note f1 = ok_extras_frame [OF e1 ok(2)]
  note c2 = copy_extras_ok [OF conjunct1 [OF f1] 2, of M]
  note e2 = conjunct1 [OF c2]
  note e = extends_trans [OF e1 e2]
  show "extends M h h' \<and> ok_spec h' v' \<and> abs_spec h' v' = abs_spec h v \<and> spec_cells h' v' \<subseteq> {free h..<free h'}"
    using e c1 c2 f1 ok_strs_frame [OF e2, of cidrs] ok_strs_frame [OF e ok(3)] extends_free [OF e1] extends_free [OF e2]
    by (auto simp: r ok_spec_def abs_spec_def spec_cells_def subset_iff)
qed

section \<open>The status\<close>

definition ok_entry :: "('m, 'h) store \<Rightarrow> string \<times> slice option \<Rightarrow> bool" where
  "ok_entry h kv \<longleftrightarrow> ok_allocs h (snd kv)"

definition entry_cells :: "('m, 'h) store \<Rightarrow> string \<times> slice option \<Rightarrow> nat set" where
  "entry_cells h kv = arr_cells (snd kv)"

interpretation entry_copier: copier M ok_entry abs_entry entry_cells copy_entry
  for M :: "('m, 'l, 'h) meta_pkg"
proof unfold_locales
  fix h h' :: "('m, 'h) store" and kv kv' :: "string \<times> slice option"
  show "ok_entry h' kv \<and> abs_entry h' kv = abs_entry h kv \<and> entry_cells h' kv = entry_cells h kv"
    if "extends M h h'" "ok_entry h kv"
    using ok_allocs_frame [OF that(1)] that(2) by (simp add: ok_entry_def abs_entry_def entry_cells_def)
  assume a: "ok_entry h kv" "copy_entry kv h = (kv', h')"
  obtain so h1 where c: "copy_allocs (snd kv) h = (so, h1)" by fastforce
  with a show "extends M h h' \<and> ok_entry h' kv' \<and> abs_entry h' kv' = abs_entry h kv \<and> entry_cells h' kv' \<subseteq> {free h..<free h'}"
    using copy_allocs_ok [OF _ c, of M] by (clarsimp simp: copy_entry_def ok_entry_def abs_entry_def entry_cells_def)
qed

definition abs_optmap :: "('m, 'h) store \<Rightarrow> nat option \<Rightarrow> (string, OverlayNetworkIPAllocation list) go_map option" where
  "abs_optmap h ao = map_option (\<lambda>m. map (abs_entry h) (entries h m)) ao"

definition ok_optmap :: "('m, 'h) store \<Rightarrow> nat option \<Rightarrow> bool" where
  "ok_optmap h ao \<longleftrightarrow> (case ao of None \<Rightarrow> True | Some m \<Rightarrow> m < free h \<and> list_all (ok_entry h) (entries h m))"

definition optmap_cells :: "('m, 'h) store \<Rightarrow> nat option \<Rightarrow> nat set" where
  "optmap_cells h ao = (case ao of None \<Rightarrow> {} | Some m \<Rightarrow> {m} \<union> (\<Union>kv \<in> set (entries h m). entry_cells h kv))"

lemma extends_entries: "extends M h h' \<Longrightarrow> m < free h \<Longrightarrow> entries h' m = entries h m"
  by (simp add: extends_def entries_def)

lemma ok_optmap_frame:
  assumes "extends M h h'" and "ok_optmap h ao"
  shows "ok_optmap h' ao \<and> abs_optmap h' ao = abs_optmap h ao \<and> optmap_cells h' ao = optmap_cells h ao"
proof (cases ao)
  case (Some m)
  with assms(2) have m: "m < free h" "list_all (ok_entry h) (entries h m)" by (simp_all add: ok_optmap_def)
  with Some extends_free [OF assms(1)] extends_entries [OF assms(1) m(1)] entry_copier.frame_list [OF assms(1) m(2)]
  show ?thesis by (simp add: ok_optmap_def abs_optmap_def optmap_cells_def)
qed (simp add: ok_optmap_def abs_optmap_def optmap_cells_def)

lemma unaffected_entries [simp]:
  "ok_entry (h\<lparr>optmaps := m\<rparr>) = ok_entry h" "abs_entry (h\<lparr>optmaps := m\<rparr>) = abs_entry h"
  "entry_cells (h\<lparr>optmaps := m\<rparr>) = entry_cells h" "entries (h\<lparr>optmaps := (optmaps h)(a \<mapsto> es)\<rparr>) a = es"
  by (simp_all add: ok_entry_def abs_entry_def entry_cells_def entries_def fun_eq_iff)

lemma copy_optmap_ok:
  assumes "ok_optmap h ao" and "copy_optmap ao h = (ao', h')"
  shows "extends M h h' \<and> ok_optmap h' ao' \<and> abs_optmap h' ao' = abs_optmap h ao \<and> optmap_cells h' ao' \<subseteq> {free h..<free h'}"
proof (cases ao)
  case (Some m)
  let ?h0 = "h\<lparr>free := Suc (free h)\<rparr>"
  from Some assms(1) have m: "m < free h" "list_all (ok_entry h) (entries h m)" by (simp_all add: ok_optmap_def)
  obtain es h1 where c: "copy_elems copy_entry (entries h m) ?h0 = (es, h1)" by fastforce
  with Some assms(2) have r: "ao' = Some (free h)" "h' = h1\<lparr>optmaps := (optmaps h1)(free h \<mapsto> es)\<rparr>"
    by (simp_all add: copy_optmap_def fresh_eq entries_def)
  note f0 = entry_copier.frame_list [OF extends_new(3) [of M h] m(2)]
  note cp = entry_copier.copy_elems_ok [where M = M, OF conjunct1 [OF f0] c]
  have f: "Suc (free h) \<le> free h1" using extends_free cp by fastforce
  have cells: "optmap_cells h' ao' \<subseteq> {free h..<free h'}" using cp f by (auto simp: r optmap_cells_def subset_iff)
  have abs: "abs_optmap h' ao' = abs_optmap h ao" using cp f0 Some by (simp add: r abs_optmap_def)
  have ok: "ok_optmap h' ao'" using cp f by (simp add: r ok_optmap_def)
  have "extends M h h'" unfolding r by (rule extends_put(2)) (use cp in simp)
  with cells abs ok show ?thesis by simp
qed (use assms in \<open>simp add: copy_optmap_def ok_optmap_def optmap_cells_def\<close>)

interpretation optmap_copier: copier M ok_optmap abs_optmap optmap_cells copy_optmap
  for M :: "('m, 'l, 'h) meta_pkg"
  using ok_optmap_frame copy_optmap_ok by unfold_locales blast+

definition ok_status :: "('m, 'h) store \<Rightarrow> StatusV \<Rightarrow> bool" where
  "ok_status h v \<longleftrightarrow> ok_allocs h (tv_Allocations v) \<and> ok_allocs h (tv_Routers v) \<and> ok_optmap h (tv_OptionalRouters v)"

definition status_cells :: "('m, 'h) store \<Rightarrow> StatusV \<Rightarrow> nat set" where
  "status_cells h v = arr_cells (tv_Allocations v) \<union> arr_cells (tv_Routers v) \<union> optmap_cells h (tv_OptionalRouters v)"

interpretation status_copier: copier M ok_status abs_status status_cells Status_DeepCopyInto
  for M :: "('m, 'l, 'h) meta_pkg"
proof unfold_locales
  fix h h' :: "('m, 'h) store" and v v' :: StatusV
  show "ok_status h' v \<and> abs_status h' v = abs_status h v \<and> status_cells h' v = status_cells h v"
    if "extends M h h'" "ok_status h v"
    using ok_allocs_frame [OF that(1)] ok_optmap_frame [OF that(1)] that(2)
    by (simp add: ok_status_def abs_status_def status_cells_def flip: abs_optmap_def)
  assume a: "ok_status h v" "Status_DeepCopyInto v h = (v', h')"
  obtain als h1 where 1: "copy_allocs (tv_Allocations v) h = (als, h1)" by fastforce
  obtain rts h2 where 2: "copy_allocs (tv_Routers v) h1 = (rts, h2)" by fastforce
  obtain opt h3 where 3: "copy_optmap (tv_OptionalRouters v) h2 = (opt, h3)" by fastforce
  have r: "v' = v\<lparr>tv_Allocations := als, tv_Routers := rts, tv_OptionalRouters := opt\<rparr>" "h' = h3"
    using a(2) 1 2 3 by (simp_all add: Status_DeepCopyInto_def)
  have ok: "ok_allocs h (tv_Allocations v)" "ok_allocs h (tv_Routers v)" "ok_optmap h (tv_OptionalRouters v)"
    using a(1) by (simp_all add: ok_status_def)
  note c1 = copy_allocs_ok [OF ok(1) 1, of M]
  note e1 = conjunct1 [OF c1]
  note f1 = ok_allocs_frame [OF e1 ok(2)]
  note c2 = copy_allocs_ok [OF conjunct1 [OF f1] 2, of M]
  note e2 = conjunct1 [OF c2]
  note e12 = extends_trans [OF e1 e2]
  note f2 = ok_optmap_frame [OF e12 ok(3)]
  note c3 = copy_optmap_ok [OF conjunct1 [OF f2] 3, of M]
  note e3 = conjunct1 [OF c3]
  note free = extends_free [OF e1] extends_free [OF e2] extends_free [OF e3]
  have "ok_status h' v'" "abs_status h' v' = abs_status h v"
    using c1 c2 c3 f1 f2 ok_allocs_frame [OF e3, of rts] ok_allocs_frame [OF extends_trans [OF e2 e3], of als]
    by (simp_all add: r ok_status_def abs_status_def flip: abs_optmap_def)
  moreover have "status_cells h' v' \<subseteq> {free h..<free h'}"
    using c1 c2 c3 free by (auto simp: r status_cells_def subset_iff)
  ultimately show "extends M h h' \<and> ok_status h' v' \<and> abs_status h' v' = abs_status h v \<and> status_cells h' v' \<subseteq> {free h..<free h'}"
    using extends_trans [OF e12 e3] by (simp add: r)
qed

section \<open>Networks\<close>

definition ok_network :: "('m, 'h) store \<Rightarrow> 'm NetworkV \<Rightarrow> bool" where
  "ok_network h v \<longleftrightarrow> ok_spec h (nv_Spec v) \<and> ok_status h (nv_Status v)"

definition network_cells :: "('m, 'h) store \<Rightarrow> 'm NetworkV \<Rightarrow> nat set" where
  "network_cells h v = spec_cells h (nv_Spec v) \<union> status_cells h (nv_Status v)"

lemma ok_network_frame:
  assumes "extends M h h'" and "ok_network h v"
  shows "ok_network h' v \<and> abs_network M h' v = abs_network M h v \<and> network_cells h' v = network_cells h v"
proof -
  have m: "om_read M (metas h') m = om_read M (metas h) m" for m using assms(1) by (simp add: extends_def)
  show ?thesis
    using spec_copier.frame [OF assms(1)] status_copier.frame [OF assms(1)] assms(2)
    by (simp add: ok_network_def abs_network_def network_cells_def m)
qed

lemma Network_DeepCopyInto_ok:
  assumes M: "meta_pkg_ok M" and ok: "ok_network h v" and run: "Network_DeepCopyInto M v h = (v', h')"
  shows "extends M h h' \<and> ok_network h' v' \<and> abs_network M h' v' = abs_network M h v \<and> network_cells h' v' \<subseteq> {free h..<free h'}"
proof -
  obtain meta mh where 0: "om_DeepCopyInto M (nv_ObjectMeta v) (metas h) = (meta, mh)" by fastforce
  define h0 where "h0 = h\<lparr>metas := mh\<rparr>"
  obtain spec h1 where 1: "Spec_DeepCopyInto (nv_Spec v) h0 = (spec, h1)" by fastforce
  obtain status h2 where 2: "Status_DeepCopyInto (nv_Status v) h1 = (status, h2)" by fastforce
  have r: "v' = v\<lparr>nv_ObjectMeta := meta, nv_Spec := spec, nv_Status := status\<rparr>" "h' = h2"
    using run 0 1 2 by (simp_all add: Network_DeepCopyInto_def h0_def)
  have meta: "om_read M mh meta = om_read M (metas h) (nv_ObjectMeta v)" "\<And>x. om_read M mh x = om_read M (metas h) x"
    using M 0 by (auto simp: meta_pkg_ok_def)
  have e0: "extends M h h0" using meta(2) by (simp add: extends_def h0_def)
  note s0 = spec_copier.frame [OF e0, of "nv_Spec v"] and t0 = status_copier.frame [OF e0, of "nv_Status v"]
  have oks: "ok_spec h (nv_Spec v)" "ok_status h (nv_Status v)" using ok by (simp_all add: ok_network_def)
  have c1: "extends M h0 h1" "ok_spec h1 spec" "abs_spec h1 spec = abs_spec h (nv_Spec v)" "spec_cells h1 spec \<subseteq> {free h0..<free h1}"
    using spec_copier.copy_ok [OF _ 1, of M] s0 oks by simp_all
  note t1 = status_copier.frame [OF extends_trans [OF e0 c1(1)] oks(2)]
  have c2: "extends M h1 h2" "ok_status h2 status" "abs_status h2 status = abs_status h (nv_Status v)"
    "status_cells h2 status \<subseteq> {free h1..<free h2}"
    using status_copier.copy_ok [OF _ 2, of M] t1 by simp_all
  note s2 = spec_copier.frame [OF c2(1) c1(2)]
  have m2: "om_read M (metas h2) meta = om_read M mh meta"
    using extends_trans [OF c1(1) c2(1)] by (simp add: extends_def h0_def)
  have "free h0 = free h" by (simp add: h0_def)
  then have "network_cells h' v' \<subseteq> {free h..<free h'}"
    using c1(4) c2(4) s2 extends_free [OF c1(1)] extends_free [OF c2(1)] by (auto simp: r network_cells_def subset_iff)
  moreover have "ok_network h' v'" using s2 c2 by (simp add: r ok_network_def)
  moreover have "abs_network M h' v' = abs_network M h v" using s2 c1(3) c2(3) m2 meta(1) by (simp add: r abs_network_def)
  ultimately show ?thesis using extends_trans [OF e0 extends_trans [OF c1(1) c2(1)]] by (simp add: r)
qed

lemma Network_DeepCopyInto_status:
  assumes M: "meta_pkg_ok M" and ok: "ok_network h v" and run: "Network_DeepCopyInto M v h = (v', h')"
  shows "\<exists>h1. extends M h h1 \<and> Status_DeepCopyInto (nv_Status v) h1 = (nv_Status v', h')"
proof -
  obtain meta mh where 0: "om_DeepCopyInto M (nv_ObjectMeta v) (metas h) = (meta, mh)" by fastforce
  have e0: "extends M h (h\<lparr>metas := mh\<rparr>)" using M 0 by (auto simp: meta_pkg_ok_def extends_def)
  obtain spec h1 where 1: "Spec_DeepCopyInto (nv_Spec v) (h\<lparr>metas := mh\<rparr>) = (spec, h1)" by fastforce
  have "ok_spec (h\<lparr>metas := mh\<rparr>) (nv_Spec v)" using spec_copier.frame_ok [OF e0] ok by (simp add: ok_network_def)
  then have "extends M h h1" using spec_copier.copy_ok [OF _ 1, of M] extends_trans [OF e0] by blast
  moreover have "Status_DeepCopyInto (nv_Status v) h1 = (nv_Status v', h')"
    using run 0 1 by (auto simp: Network_DeepCopyInto_def split: prod.splits)
  ultimately show ?thesis by blast
qed

lemma network_copier:
  "meta_pkg_ok M \<Longrightarrow> copier M ok_network (abs_network M) network_cells (Network_DeepCopyInto M)"
  by unfold_locales (use ok_network_frame Network_DeepCopyInto_ok in blast)+

text \<open>The items of a list are copied one by one.\<close>

definition ok_items :: "('m, 'h) store \<Rightarrow> slice option \<Rightarrow> bool" where
  "ok_items h so \<longleftrightarrow> (case so of None \<Rightarrow> True
     | Some s \<Rightarrow> s_arr s < free h \<and> in_arr (networks h) s \<and> list_all (ok_network h) (elems (networks h) s))"

definition abs_items :: "('m, 'l, 'h) meta_pkg \<Rightarrow> ('m, 'h) store \<Rightarrow> slice option \<Rightarrow> OverlayNetwork list" where
  "abs_items M h so = (case so of None \<Rightarrow> [] | Some s \<Rightarrow> map (abs_network M h) (elems (networks h) s))"

lemma unaffected_networks [simp]:
  "read_strs (h\<lparr>networks := n\<rparr>) = read_strs h" "abs_allocs (h\<lparr>networks := n\<rparr>) = abs_allocs h"
  "abs_extras (h\<lparr>networks := n\<rparr>) = abs_extras h" "abs_entry (h\<lparr>networks := n\<rparr>) = abs_entry h"
  "entries (h\<lparr>networks := n\<rparr>) = entries h"
proof -
  show r: "read_strs (h\<lparr>networks := n\<rparr>) = read_strs h" by (simp add: read_strs_def fun_eq_iff split: option.splits)
  then have "abs_alloc (h\<lparr>networks := n\<rparr>) = abs_alloc h" "abs_extra (h\<lparr>networks := n\<rparr>) = abs_extra h"
    by (simp_all add: abs_alloc_def abs_extra_def fun_eq_iff)
  then show a: "abs_allocs (h\<lparr>networks := n\<rparr>) = abs_allocs h" and "abs_extras (h\<lparr>networks := n\<rparr>) = abs_extras h"
    by (simp_all add: abs_allocs_def abs_extras_def fun_eq_iff split: option.splits)
  show "abs_entry (h\<lparr>networks := n\<rparr>) = abs_entry h" "entries (h\<lparr>networks := n\<rparr>) = entries h"
    using a by (simp_all add: abs_entry_def entries_def fun_eq_iff)
qed

lemma List_DeepCopyInto_ok:
  assumes M: "meta_pkg_ok M" and ok: "ok_items h (lv_Items v)" and run: "List_DeepCopyInto M v h = (v', h')"
  shows "extends M h h' \<and> abs_items M h' (lv_Items v') = abs_items M h (lv_Items v)"
proof -
  obtain meta mh where 0: "lm_DeepCopyInto M (lv_ListMeta v) (metas h) = (meta, mh)" by fastforce
  let ?h = "h\<lparr>metas := mh\<rparr>"
  have e0: "extends M h ?h" using M 0 by (auto simp: extends_def meta_pkg_ok_def)
  show ?thesis
  proof (cases "lv_Items v")
    case None
    with run 0 e0 show ?thesis by (auto simp: List_DeepCopyInto_def abs_items_def)
  next
    case (Some s)
    let ?h0 = "?h\<lparr>free := Suc (free h)\<rparr>"
    from Some ok have s: "in_arr (networks h) s" "list_all (ok_network h) (elems (networks h) s)" by (simp_all add: ok_items_def)
    obtain vs h1 where c: "copy_elems (Network_DeepCopyInto M) (elems (networks h) s) ?h0 = (vs, h1)" by fastforce
    with Some run 0 have r: "lv_Items v' = Some (whole (free h) s)" "h' = h1\<lparr>networks := (networks h1)(free h \<mapsto> vs)\<rparr>"
      by (auto simp: List_DeepCopyInto_def fresh_eq)
    have e: "extends M h ?h0" using extends_trans [OF e0 extends_new(3)] by simp
    note f0 = copier.frame_list [OF network_copier [OF M] e s(2)]
    note cp = copier.copy_elems_ok [OF network_copier [OF M] conjunct1 [OF f0] c]
    have e': "extends M h h'" unfolding r using cp e by (intro extends_put(3)) (simp add: extends_def)
    have len: "length vs = s_len s" using cp length_elems [OF s(1)] by simp
    have "abs_network M h' = abs_network M h1" by (simp add: r abs_network_def abs_spec_def abs_status_def fun_eq_iff)
    with cp len f0 e' show ?thesis by (simp add: abs_items_def r Some)
  qed
qed

text \<open>A store for examples; its metadata are values.\<close>

definition meta_std :: "(ObjectMeta, unit, unit) meta_pkg" where
  "meta_std = \<lparr>om_DeepCopyInto = Pair, lm_DeepCopyInto = Pair, om_read = (\<lambda>_ m. m)\<rparr>"

lemma meta_std_ok [simp]: "meta_pkg_ok meta_std"
  by (simp add: meta_pkg_ok_def meta_std_def)

section \<open>Cells in use\<close>

lemma ok_cells:
  "ok_strs h so \<Longrightarrow> arr_cells so \<subseteq> {..<free h}" "ok_allocs h so \<Longrightarrow> arr_cells so \<subseteq> {..<free h}"
  "ok_extra h e \<Longrightarrow> extra_cells h e \<subseteq> {..<free h}" "ok_entry h kv \<Longrightarrow> entry_cells h kv \<subseteq> {..<free h}"
  by (auto simp: ok_strs_def ok_allocs_def arr_cells_def ok_extra_def extra_cells_def ok_entry_def entry_cells_def
      split: option.splits)

lemma ok_network_cells:
  assumes "ok_network h v"
  shows "network_cells h v \<subseteq> {..<free h}"
proof -
  have "extras_cells h so \<subseteq> {..<free h}" if "ok_extras h so" for so
    using that ok_cells(3) by (fastforce simp: ok_extras_def extras_cells_def arr_cells_def list_all_iff split: option.splits)
  moreover have "optmap_cells h ao \<subseteq> {..<free h}" if "ok_optmap h ao" for ao
    using that ok_cells(4) by (fastforce simp: ok_optmap_def optmap_cells_def list_all_iff split: option.splits)
  ultimately show ?thesis
    using assms ok_cells(1,2) [of h]
    by (simp add: ok_network_def ok_spec_def ok_status_def network_cells_def spec_cells_def status_cells_def)
qed

text \<open>Two stores that differ at most in a set of cells, as after writes through the owner of these.\<close>

definition differ_in :: "('m, 'l, 'h) meta_pkg \<Rightarrow> nat set \<Rightarrow> ('m, 'h) store \<Rightarrow> ('m, 'h) store \<Rightarrow> bool" where
  "differ_in M C h h' \<longleftrightarrow> free h \<le> free h' \<and>
     (\<forall>a < free h. a \<notin> C \<longrightarrow> strs h' a = strs h a \<and> allocs h' a = allocs h a \<and> extras h' a = extras h a \<and>
        optmaps h' a = optmaps h a \<and> networks h' a = networks h a) \<and>
     (\<forall>x. om_read M (metas h') x = om_read M (metas h) x)"

lemma extends_differ_in:
  assumes "extends M h h'" and "C \<subseteq> {free h..}" and "differ_in M C h' h''"
  shows "extends M h h''"
proof -
  have "a < free h' \<and> a \<notin> C" if "a < free h" for a using that assms(2) extends_free [OF assms(1)] by auto
  then show ?thesis using assms(1,3) by (simp add: extends_def differ_in_def)
qed

text \<open>An assignment to an element of a slice of strings.\<close>

definition write_str :: "slice \<Rightarrow> nat \<Rightarrow> string \<Rightarrow> ('m, 'h) store \<Rightarrow> ('m, 'h) store" where
  "write_str s i x h = (case strs h (s_arr s) of None \<Rightarrow> h
     | Some xs \<Rightarrow> h\<lparr>strs := (strs h)(s_arr s \<mapsto> xs[s_off s + i := x])\<rparr>)"

lemma read_write_str:
  assumes "in_arr (strs h) s" and "i < s_len s"
  shows "read_strs (write_str s i x h) (Some s) ! i = x"
  using assms by (auto simp: in_arr_def read_strs_def write_str_def elems_def)

lemma allocs_write_str [simp]: "allocs (write_str s i x h) = allocs h"
  by (simp add: write_str_def split: option.splits)

text \<open>The array of allocations is copied element by element as it is.\<close>

lemma Status_DeepCopyInto_elems:
  assumes ok: "ok_status h v" and run: "Status_DeepCopyInto v h = (v', h')" and t: "tv_Allocations v' = Some t"
  shows "\<exists>t0. tv_Allocations v = Some t0 \<and> s_len t = s_len t0 \<and> elems (allocs h') t = elems (allocs h) t0"
proof -
  fix M :: "('a, unit, 'b) meta_pkg"
  obtain als h1 where 1: "copy_allocs (tv_Allocations v) h = (als, h1)" by fastforce
  obtain rts h2 where 2: "copy_allocs (tv_Routers v) h1 = (rts, h2)" by fastforce
  obtain opt h3 where 3: "copy_optmap (tv_OptionalRouters v) h2 = (opt, h3)" by fastforce
  have r: "als = Some t" "h' = h3" using run t 1 2 3 by (auto simp: Status_DeepCopyInto_def)
  have o: "ok_allocs h (tv_Allocations v)" "ok_allocs h (tv_Routers v)" "ok_optmap h (tv_OptionalRouters v)"
    using ok by (simp_all add: ok_status_def)
  have e1: "extends M h h1" and t1: "ok_allocs h1 als" using copy_allocs_ok [OF o(1) 1, of M] by simp_all
  have e2: "extends M h1 h2" using copy_allocs_ok [OF _ 2, of M] ok_allocs_frame [OF e1 o(2)] by simp
  have e3: "extends M h2 h3" using copy_optmap_ok [OF _ 3, of M] ok_optmap_frame [OF extends_trans [OF e1 e2] o(3)] by simp
  from 1 r(1) obtain t0 where t0: "tv_Allocations v = Some t0" "t = whole (free h) t0"
    "h1 = h\<lparr>free := Suc (free h), allocs := (allocs h)(free h \<mapsto> elems (allocs h) t0)\<rparr>"
    by (auto simp: copy_allocs_def fresh_eq split: option.splits)
  have "elems (allocs h1) t = elems (allocs h) t0" using o(1) t0 by (simp add: ok_allocs_def length_elems)
  moreover have "elems (allocs h3) t = elems (allocs h1) t"
    using t1 r(1) by (intro extends_elems(2) [OF extends_trans [OF e2 e3]]) (simp add: ok_allocs_def)
  ultimately show ?thesis using t0 by (simp add: r(2) whole_def)
qed

section \<open>Properties\<close>

definition demo_store :: "(ObjectMeta, unit) store" where
  "demo_store = \<lparr>free = 3, strs = [0 \<mapsto> [''web'', ''db''], 1 \<mapsto> [''uplink'']],
     allocs = [2 \<mapsto> [\<lparr>av_PodName = ''a'', av_PodIP = ''172.16.0.1'', av_IP = ''10.0.0.1'',
        av_ExtraNetworks = Some \<lparr>s_arr = 1, s_off = 0, s_len = 1\<rparr>\<rparr>]],
     extras = Map.empty, optmaps = Map.empty, networks = Map.empty, metas = ()\<rparr>"

definition demo_object :: "ObjectMeta NetworkV" where
  "demo_object = \<lparr>nv_TypeMeta = (''OverlayNetwork'', ''v1alpha1''),
     nv_ObjectMeta = \<lparr>Name = ''net'', Namespace = ''ns'', ResourceVersion = '''', DeletionTimestamp = None, Finalizers = [],
       Labels = [], Annotations = []\<rparr>,
     nv_Spec = \<lparr>sv_AllocatableCIDR = ''10.0.0.0/24'', sv_Port = 4000, sv_RoutableCIDRs = None, sv_OptionalRoutes = None,
       sv_ServiceNames = Some \<lparr>s_arr = 0, s_off = 0, s_len = 2\<rparr>\<rparr>,
     nv_Status = \<lparr>tv_Allocations = Some \<lparr>s_arr = 2, s_off = 0, s_len = 1\<rparr>, tv_Routers = None, tv_OptionalRouters = None\<rparr>\<rparr>"

lemma demo_object_ok [simp]: "ok_network demo_store demo_object"
  by (simp add: ok_network_def ok_spec_def ok_status_def ok_strs_def ok_allocs_def ok_extras_def ok_optmap_def ok_alloc_def
      in_arr_def elems_def demo_store_def demo_object_def)

text \<open>The service names of a network and the extra networks of its allocations are not copied. An
  assignment to an element of such a slice through the copy changes the original too.\<close>

lemma DeepCopy_shares_slices:
  assumes M: "meta_pkg_ok M" and ok: "ok_network h v" and run: "Network_DeepCopy M (Some v) h = (Some v', h')"
  shows "(\<forall>s i x. sv_ServiceNames (nv_Spec v') = Some s \<longrightarrow> i < s_len s \<longrightarrow>
      ServiceNames (nw_Spec (abs_network M (write_str s i x h') v)) ! i = x) \<and>
    (\<forall>t j s i x. tv_Allocations (nv_Status v') = Some t \<longrightarrow> j < s_len t \<longrightarrow>
      av_ExtraNetworks (elems (allocs h') t ! j) = Some s \<longrightarrow> i < s_len s \<longrightarrow>
      ExtraNetworks (Allocations (nw_Status (abs_network M (write_str s i x h') v)) ! j) ! i = x)"
proof -
  have into: "Network_DeepCopyInto M v h = (v', h')"
    using run by (auto simp: Network_DeepCopy_def DeepCopy_def split: prod.splits)
  note cp = Network_DeepCopyInto_ok [OF M ok into]
  have okv: "ok_network h' v" and okv': "ok_network h' v'" using ok_network_frame [OF _ ok] cp by blast+
  have names: "sv_ServiceNames (nv_Spec v') = sv_ServiceNames (nv_Spec v)"
    using into by (auto simp: Network_DeepCopyInto_def Spec_DeepCopyInto_def split: prod.splits)
  have "ServiceNames (nw_Spec (abs_network M (write_str s i x h') v)) ! i = x"
    if "sv_ServiceNames (nv_Spec v') = Some s" "i < s_len s" for s i x
    using that names okv read_write_str [of h' s i x]
    by (simp add: abs_network_def abs_spec_def ok_network_def ok_spec_def ok_strs_def)
  moreover have "ExtraNetworks (Allocations (nw_Status (abs_network M (write_str s i x h') v)) ! j) ! i = x"
    if a: "tv_Allocations (nv_Status v') = Some t" "j < s_len t" "av_ExtraNetworks (elems (allocs h') t ! j) = Some s" "i < s_len s"
    for t j s i x
  proof -
    obtain h1 where st: "Status_DeepCopyInto (nv_Status v) h1 = (nv_Status v', h')" and e1: "extends M h h1"
      using Network_DeepCopyInto_status [OF M ok into] by blast
    have ok1: "ok_status h1 (nv_Status v)" using status_copier.frame_ok [OF e1] ok by (simp add: ok_network_def)
    obtain t0 where t0: "tv_Allocations (nv_Status v) = Some t0" "s_len t = s_len t0" "elems (allocs h') t = elems (allocs h1) t0"
      using Status_DeepCopyInto_elems [OF ok1 st a(1)] by blast
    have okt: "s_arr t0 < free h1" "in_arr (allocs h1) t0" using ok1 t0(1) by (simp_all add: ok_status_def ok_allocs_def)
    have "extends M h1 h'" using status_copier.copy_ok [OF ok1 st, of M] by simp
    then have same: "elems (allocs h') t0 = elems (allocs h') t" using extends_elems(2) okt(1) t0(3) by metis
    have len: "j < length (elems (allocs h') t)" using a(2) t0(2,3) length_elems [OF okt(2)] by simp
    then have "ok_alloc h' (elems (allocs h') t ! j)"
      using okv' a(1) by (simp add: ok_network_def ok_status_def ok_allocs_def list_all_length)
    with a(3) have "in_arr (strs h') s" by (simp add: ok_alloc_def ok_strs_def)
    from read_write_str [OF this a(4), of x] same len a(3) show ?thesis
      by (simp add: abs_network_def abs_status_def abs_allocs_def abs_alloc_def t0(1))
  qed
  ultimately show ?thesis by blast
qed

text \<open>C24: what a deep copy shares with its original. The copy of a network reads as the network. The
  arrays of routable CIDRs, optional routes, allocations, routers and optional routers and the map of the copy
  are not those of the original, and whatever is written there later, the original still reads as
  before. The arrays of service names and of the extra networks of the allocations are shared: an assignment to an element
  of theirs through the copy changes the original.\<close>

theorem DeepCopy_independent:
  assumes M: "meta_pkg_ok M" and ok: "ok_network h v" and run: "Network_DeepCopy M (Some v) h = (Some v', h')"
  shows "abs_network M h' v' = abs_network M h v \<and> network_cells h' v' \<inter> network_cells h v = {} \<and>
    (\<forall>h''. differ_in M (network_cells h' v') h' h'' \<longrightarrow> abs_network M h'' v = abs_network M h v) \<and>
    (\<forall>s i x. sv_ServiceNames (nv_Spec v') = Some s \<longrightarrow> i < s_len s \<longrightarrow>
      ServiceNames (nw_Spec (abs_network M (write_str s i x h') v)) ! i = x) \<and>
    (\<forall>t j s i x. tv_Allocations (nv_Status v') = Some t \<longrightarrow> j < s_len t \<longrightarrow>
      av_ExtraNetworks (elems (allocs h') t ! j) = Some s \<longrightarrow> i < s_len s \<longrightarrow>
      ExtraNetworks (Allocations (nw_Status (abs_network M (write_str s i x h') v)) ! j) ! i = x)"
proof -
  have into: "Network_DeepCopyInto M v h = (v', h')"
    using run by (auto simp: Network_DeepCopy_def DeepCopy_def split: prod.splits)
  note cp = Network_DeepCopyInto_ok [OF M ok into]
  have "abs_network M h'' v = abs_network M h v" if "differ_in M (network_cells h' v') h' h''" for h''
  proof -
    have "extends M h h''" by (rule extends_differ_in [OF _ _ that]) (use cp in auto)
    with ok show ?thesis using ok_network_frame by blast
  qed
  moreover have "network_cells h' v' \<inter> network_cells h v = {}" using cp ok_network_cells [OF ok] by force
  ultimately show ?thesis using cp DeepCopy_shares_slices [OF M ok run] by blast
qed

theorem DeepCopy_independent_witness:
  "\<exists>v' h'. Network_DeepCopy meta_std (Some demo_object) demo_store = (Some v', h') \<and>
     abs_network meta_std h' v' = abs_network meta_std demo_store demo_object \<and>
     ServiceNames (nw_Spec (abs_network meta_std (write_str \<lparr>s_arr = 0, s_off = 0, s_len = 2\<rparr> 1 ''x'' h') demo_object)) ! 1 = ''x''"
proof -
  obtain v' h' where run: "Network_DeepCopyInto meta_std demo_object demo_store = (v', h')" by fastforce
  then have copy: "Network_DeepCopy meta_std (Some demo_object) demo_store = (Some v', h')"
    by (simp add: Network_DeepCopy_def DeepCopy_def)
  have "sv_ServiceNames (nv_Spec v') = Some \<lparr>s_arr = 0, s_off = 0, s_len = 2\<rparr>"
    using run by (auto simp: Network_DeepCopyInto_def Spec_DeepCopyInto_def demo_object_def split: prod.splits)
  with DeepCopy_independent [OF meta_std_ok demo_object_ok copy] copy show ?thesis by auto
qed

end
