(* ===== verification/Spec2Isabelle.thy ===== *)
theory Spec2Isabelle
  imports Progress Settled Scheme DeepCopyLaws
begin

text \<open>
  \<^bold>\<open>A verification of the overlay network operator.\<close>

  The repository builds four programs. The \<^emph>\<open>operator\<close> runs three reconcilers: one gives pods
  addresses in overlay networks (the custom resource \<open>OverlayNetwork\<close>), one protects networks with
  a finalizer while they have members, one prepares namespaces for the sidecar. The \<^emph>\<open>webhook\<close>
  validates networks and injects a sidecar container into labelled pods. The \<^emph>\<open>sidecar\<close> turns
  the status of a network into tunnels and routes of its pod. The \<^emph>\<open>DNS server\<close> answers queries
  for the services of a network with overlay addresses. They share no memory: they interact
  through the stored \<open>OverlayNetwork\<close> objects, whose status the pod reconciler writes and the
  others read.

  \<^bold>\<open>Theories and sources.\<close>
  \<^item> \<open>Prelude\<close>: Go's maps, strings and panics; generic lemmas. \<open>GoNet\<close>, \<open>AddrNum\<close>: the part of Go's
    package \<open>net\<close> that the code calls (parsing and printing of addresses and CIDRs, masks, containment),
    and addresses as numbers.
  \<^item> \<open>IPUtil\<close> (\<open>controllers/iputil/pickip.go\<close>): \<open>FirstFreeHost\<close>, \<open>inc\<close>. The search refines a linear search over
    numbers, always returns and stays in the network.
  \<^item> \<open>Api\<close> (\<open>api/v1alpha1/overlaynetwork_types.go\<close>): the data, and the fields of Kubernetes objects in use.
    \<open>External\<close>: the packages and the Kubernetes client the code calls, as parameters.
  \<^item> \<open>PodController\<close> (\<open>controllers/pod_controller.go\<close>): \<open>Reconcile\<close> (\<open>reconcile_pod\<close>), \<open>allocateIP\<close>, \<open>deallocateIP\<close>.
    \<open>PodStatus\<close>: the invariant \<open>status_ok\<close> of a status, what an allocation does to it, the contract of the
    status operations as locale \<open>status_operation\<close>. \<open>PodReconcile\<close>: what a whole reconciliation sends.
    \<open>Convergence\<close>: what a run for each of several pods leaves on a server that stores what it accepts.
    \<open>Progress\<close>: one run is enough, if the networks exist and have room and the server accepts current updates.
  \<^item> \<open>OverlayNetworkController\<close> (\<open>controllers/overlaynetwork_controller.go\<close>), \<open>NamespaceController\<close>
    (\<open>controllers/namespace_controller.go\<close>): the other two reconcilers.
  \<^item> \<open>Admission\<close>: requests and responses, and the contract of a validating policy as locale
    \<open>admission_policy\<close>. \<open>OverlayNetworkValidator\<close> (\<open>webhooks/validating.go\<close>) is an instance of it.
    \<open>PodInjector\<close> (\<open>webhooks/pod.go\<close>): the injection of the sidecar.
  \<^item> \<open>Cluster\<close>: the versions of one network under concurrent writers. The API server is a parameter;
    \<open>history\<close> is the inductive set of what can be stored. The network reconciler acts in it by the updates that
    its \<open>Reconcile\<close> is seen to send (\<open>operator_sends\<close>), the pod reconciler by its status operations;
    \<open>history_reconcile_pod\<close> and \<open>history_reconcile_network\<close> show that what the reconcilers send extends it. Addresses stay unique
    and in the pool, no allocation is lost, and a network outlives its members. \<open>Ipam\<close>: the abstract
    address manager that these versions implement, stable addresses, and that a deleted network can be
    emptied and removed. \<open>Capacity\<close>: how many addresses a pool has, and that they can all be given out.
  \<^item> \<open>Tunneler\<close> (\<open>tunneler/network_controller.go\<close>): the reconciler of the sidecar over a kernel that is a
    parameter. \<open>TunnelLinks\<close>, \<open>TunnelRoutes\<close>, \<open>Tunnels\<close>, \<open>TunnelPorts\<close>: names and links, routes, both ends of
    a tunnel, ports. \<open>LinkState\<close>, \<open>RouteState\<close>: the links and the routes in the kernel before and after a
    reconciliation. \<open>Settled\<close>: the receivers, and that a second reconciliation sends nothing.
  \<^item> \<open>Resolver\<close> (\<open>resolver/dns_controller.go\<close>): the cache, its reconciler, the query handler.
  \<^item> \<open>KernelModules\<close> (\<open>cmd/sidecar/main.go\<close>): the loader of kernel modules, and its copy in
    \<open>cmd/dns/main.go\<close>, which no program runs. \<open>Startup\<close> (\<open>cmd/*/main.go\<close> and the
    \<open>SetupWithManager\<close> functions): the four programs as sequences of calls with early exits. \<open>Scheme\<close>
    (\<open>api/v1alpha1/groupversion_info.go\<close>, \<open>overlaynetwork_webhook.go\<close>): what the programs add to their
    scheme, a type system for their calls, the client that fails on kinds outside the scheme, with which all
    reconcilers and handlers run as without it, and the generated validators, which are never registered.
  \<^item> \<open>DeepCopy\<close> (\<open>api/v1alpha1/zz_generated.deepcopy.go\<close>): the copy functions over a store in which slices
    share arrays. \<open>DeepCopyLaws\<close>: the contract of a copy function as locale \<open>copier\<close>, interpreted on each
    of them.
  \<^item> This theory: the injected container and the sidecar that runs in it, the stored status and the
    tunnels made of it, the admitted port and the commands that use it, the answers of the DNS server
    and the tunnels that lead to them.

  \<^bold>\<open>How code is modelled.\<close> Every function of the source is a function of the same name here, or of
  that name with the component added where several have it; loops are named after what they do.
  A panic and a loop that does not return are values of type \<open>outcome\<close>. Errors are values. The
  state of the outside world is passed through every call that can change it, so that other actors
  may act between any two calls; the requests to the API server, the commands to the kernel and the
  calls of the programs are recorded in ghost fields. The order in which Go ranges over a map is the order of an
  association list, or a parameter where the code ranges over the same map twice. Integers that are
  only compared are \<open>int\<close>; bytes, hashes, network ids and the ports of a tunnel are words that wrap
  around. Logging is left out.

  \<^bold>\<open>Termination.\<close> The address search (\<open>free_host_loop\<close>) may in principle run forever and is a
  \<^theory_text>\<open>partial_function\<close> into \<open>option\<close>; it is proved to return on every input, because some
  address lies outside every network and repeated increments reach it. All other loops run over
  lists. No fuel is used.

  \<^bold>\<open>Parameters.\<close> The packages \<open>lo\<close>, \<open>controllerutil\<close>, \<open>base58\<close>, \<open>netlink\<close>, \<open>dns\<close>, \<open>kmod\<close>, the decoders and
  encoders of objects, the decompressors, the copy functions of the metadata, the cluster's
  resolver, the kubelet, the scheme and the API server. What a theorem needs of them is a hypothesis with a
  name ending in \<open>_ok\<close>, stating documented behaviour, and each has an instance for which it holds.
  Nothing is assumed of the Kubernetes client of a single reconciliation. \<open>Cluster\<close>, on histories of stored
  objects, assumes the API server to refuse outdated writes (\<open>api_server_ok\<close>) and, for the removal of networks, users to leave
  the finalizer of the operator alone; \<open>Ipam\<close>, for the removal of a
  network only, that the server takes current writes (\<open>accepts_current\<close>); \<open>Convergence\<close>, that it stores what it accepts
  and lists the networks of the namespace it is asked for, objects being known by namespace and name
  (\<open>pod_store_ok\<close>, with the in-memory server \<open>memory_kube\<close>), and \<open>Progress\<close> that it answers and accepts
  updates of what is stored (\<open>pod_store_accepts\<close>, same server). \<open>LinkState\<close> assumes that a successful netlink
  command has its effect on the links and the tunnels behind them, a failed one has none, and that the kernel lists its links
  (\<open>kernel_links_ok\<close>, with the kernel \<open>list_netlink\<close>). \<open>RouteState\<close> and \<open>Settled\<close> assume the same of the
  IPv4 routes (\<open>kernel_routes_ok\<close>, which allows routes without destination) and of the receivers (\<open>kernel_fou_ok\<close>); the kernel \<open>mini_netlink\<close>, with links,
  routes and receivers, satisfies all three.

  \<^bold>\<open>Not modelled.\<close> Logging; the fields \<open>Client\<close> and \<open>Scheme\<close> of the reconcilers and \<open>InjectDecoder\<close> of the webhooks,
  whose contents are arguments of the definitions; parsing of the command line; the scheduling of
  reconciliations by controller-runtime and of the goroutine that serves DNS, so that the call that starts the manager
  is one step of a program and what a reconciler does meanwhile is in the theory of the reconciler; test suites.
\<close>

section \<open>From the injected container to the running sidecar\<close>

text \<open>The kubelet resolves the field references of a container's environment; \<open>fieldRef\<close> is a parameter.\<close>

definition fieldRef_ok :: "(Pod \<Rightarrow> string \<Rightarrow> string) \<Rightarrow> bool" where
  "fieldRef_ok f \<longleftrightarrow> (\<forall>pod. f pod ''metadata.name'' = Name (pod_meta pod) \<and> f pod ''metadata.namespace'' = Namespace (pod_meta pod))"

definition fieldRef_std :: "Pod \<Rightarrow> string \<Rightarrow> string" where
  "fieldRef_std pod path = (if path = ''metadata.name'' then Name (pod_meta pod)
     else if path = ''metadata.namespace'' then Namespace (pod_meta pod) else '''')"

lemma fieldRef_std_ok [simp]: "fieldRef_ok fieldRef_std"
  by (simp add: fieldRef_ok_def fieldRef_std_def)

definition container_env :: "(Pod \<Rightarrow> string \<Rightarrow> string) \<Rightarrow> Pod \<Rightarrow> Container \<Rightarrow> string \<Rightarrow> string option" where
  "container_env f pod c v = map_option (\<lambda>e. f pod (env_FieldPath e)) (find (\<lambda>e. env_Name e = v) (c_Env c))"

lemma sidecar_env:
  assumes "fieldRef_ok f"
  shows "container_env f pod (sidecar_container g) ''POD_NAMESPACE'' = Some (Namespace (pod_meta pod))"
    "container_env f pod (sidecar_container g) ''POD_NAME'' = Some (Name (pod_meta pod))"
  using assms by (simp_all add: container_env_def sidecar_container_def fieldRef_ok_def)

text \<open>What a call of the sidecar has to do with the container and its pod.\<close>

fun fits_container :: "Pod \<Rightarrow> Container \<Rightarrow> boot_step \<Rightarrow> bool" where
  "fits_container pod c (NewManager opts) \<longleftrightarrow> opt_Namespace opts = Namespace (pod_meta pod) \<and>
     (\<forall>pr \<in> set_option (c_ReadinessProbe c) \<union> set_option (c_LivenessProbe c).
        HealthProbeBindAddress opts = '':'' @ itoa (nat (HTTPGet_Port pr)))"
| "fits_container pod c (Complete k rec) \<longleftrightarrow>
     (\<exists>r. rec = Tunnel_Reconciler r \<and> myPodName r = Name (pod_meta pod) \<and> ids_ok r) \<and> k = Kind_OverlayNetwork"
| "fits_container pod c _ \<longleftrightarrow> True"

text \<open>The path that a manager with default options serves once a check has been added, whatever the name of the
  check.\<close>

fun serves :: "boot_step \<Rightarrow> string option" where
  "serves (AddHealthzCheck n) = Some ''/healthz''"
| "serves (AddReadyzCheck n) = Some ''/readyz''"
| "serves _ = None"

definition probes :: "Container \<Rightarrow> Probe list" where
  "probes c = List.map_filter id [c_ReadinessProbe c, c_LivenessProbe c]"

text \<open>Ready to be started: the manager exists, the reconciler is registered, every declared probe is served.\<close>

definition set_up_for :: "Container \<Rightarrow> boot_step list \<Rightarrow> bool" where
  "set_up_for c ss \<longleftrightarrow> (\<exists>opts. NewManager opts \<in> set ss) \<and> (\<exists>k rec. Complete k rec \<in> set ss) \<and>
     (\<forall>pr \<in> set (probes c). Some (HTTPGet_Path pr) \<in> serves ` set ss)"

lemma sidecar_plan_fits:
  "list_all (fits_container pod (sidecar_container g)) (sidecar_plan (\<lambda>_. None) (Namespace (pod_meta pod)) (Name (pod_meta pod)))"
proof -
  have "itoa 12000 = ''12000''" by (simp add: itoa.simps digit_char_def)
  then show ?thesis
    by (simp add: sidecar_plan_def init_scheme_def sidecar_container_def probe_def manager_options_def StringVar_def ids_ok_def)
qed

lemma sidecar_plan_set_up:
  obtains body where "sidecar_plan (\<lambda>_. None) ns pod = body @ [Start]" "Start \<notin> set body" "set_up_for (sidecar_container g) body"
proof (rule that)
  show "sidecar_plan (\<lambda>_. None) ns pod = butlast (sidecar_plan (\<lambda>_. None) ns pod) @ [Start]"
    by (simp add: sidecar_plan_def init_scheme_def)
qed (auto simp: sidecar_plan_def init_scheme_def set_up_for_def probes_def sidecar_container_def probe_def List.map_filter_def)

text \<open>C23: the sidecar that the webhook injects is the one that its pod needs. Started without flags in
  the injected container, it listens for health probes on the port that the kubelet is told to
  probe, watches the networks of the namespace of its pod, and runs the tunnel reconciler under the
  name of its pod. It starts its manager only after the manager has been made, the reconciler has been
  registered and every probe that the container declares is served, and it exits with 0 only if it has started.\<close>

theorem injected_sidecar_fits:
  assumes "fieldRef_ok f" and "main_sidecar P N (\<lambda>_. None) (container_env f pod (sidecar_container g)) p = (x, q)"
  shows "\<exists>ss. trace q = trace p @ ss \<and> list_all (fits_container pod (sidecar_container g)) ss \<and>
    (\<forall>before after. ss = before @ Start # after \<longrightarrow> set_up_for (sidecar_container g) before) \<and>
    (x = Exited 0 \<longrightarrow> Start \<in> set ss)"
proof -
  let ?plan = "sidecar_plan (\<lambda>_. None) (Namespace (pod_meta pod)) (Name (pod_meta pod))"
  have fits: "list_all (fits_container pod (sidecar_container g)) (take i ?plan)" for i
    using sidecar_plan_fits [of pod g] by (auto simp: list_all_iff dest: in_set_takeD)
  obtain body where body: "?plan = body @ [Start]" "Start \<notin> set body" "set_up_for (sidecar_container g) body"
    by (rule sidecar_plan_set_up)
  have started: "set_up_for (sidecar_container g) before"
    if "body @ Start # after' = before @ Start # after" "Start \<notin> set after'" for before after after'
    using that body(2,3) by (simp add: append_Cons_eq_iff)
  from main_sidecar_follows [OF sidecar_env [OF assms(1)]] assms(2) show ?thesis
  proof (cases rule: followsE)
    case (early i)
    have started_early: "set_up_for (sidecar_container g) before" if t: "take j ?plan = before @ Start # after" for j before after
    proof -
      have "Start \<in> set (take j ?plan)" by (simp add: t)
      with body(1,2) have "take j ?plan = body @ [Start]"
        by (cases "j \<le> length body") (auto dest: in_set_takeD)
      with started [of "[]" before after] t show ?thesis by simp
    qed
    show ?thesis by (rule exI [of _ "take (Suc i) ?plan"]) (use early fits started_early in blast)
  next
    case (late p')
    then obtain links where tr: "trace q = trace p @ ?plan @ map (Netlink \<circ> LinkDel) links"
      using shutdown_tunnels_trace [of N p'] by (auto simp: exits_after_shutdown_def)
    have "set_up_for (sidecar_container g) before" if "?plan @ map (Netlink \<circ> LinkDel) links = before @ Start # after" for before after
      using that started [of "map (Netlink \<circ> LinkDel) links" before after] by (auto simp: body(1))
    with tr sidecar_plan_fits [of pod g] show ?thesis by (intro exI [of _ "?plan @ map (Netlink \<circ> LinkDel) links"]) (auto simp: list_all_iff body(1))
  qed
qed

theorem injected_sidecar_fits_witness:
  "\<exists>before after. trace (snd (main_sidecar fine_runtime (fixed_netlink []) (\<lambda>_. None)
      (container_env fieldRef_std (plain_pod []) (sidecar_container (\<lambda>_. ''image''))) bare_process)) = before @ Start # after \<and>
     set_up_for (sidecar_container (\<lambda>_. ''image'')) before \<and> (\<exists>path. Some path \<in> serves ` set before)"
proof -
  obtain x q where run: "main_sidecar fine_runtime (fixed_netlink []) (\<lambda>_. None)
      (container_env fieldRef_std (plain_pod []) (sidecar_container (\<lambda>_. ''image''))) bare_process = (x, q)" by fastforce
  note e = sidecar_env [OF fieldRef_std_ok, of "plain_pod []" "\<lambda>_. ''image''"]
  have "x = Exited 0"
    using run by (simp add: main_sidecar_def init_scheme_def e SetupWithManager_def perform_def fine_runtime_def Let_def)
  with injected_sidecar_fits [OF fieldRef_std_ok run] have "Start \<in> set (trace q)" and
    set_up: "\<And>before after. trace q = before @ Start # after \<Longrightarrow> set_up_for (sidecar_container (\<lambda>_. ''image'')) before"
    by (auto simp: bare_process_def)
  then obtain before after where q: "trace q = before @ Start # after" by (auto dest: split_list)
  have "Some (HTTPGet_Path (probe ''/healthz'')) \<in> serves ` set before"
    using set_up [OF q] by (auto simp: set_up_for_def probes_def sidecar_container_def List.map_filter_def)
  with set_up [OF q] run q show ?thesis by auto
qed

section \<open>From the stored status to the tunnels\<close>

lemma own_entry_member:
  assumes "status_ok nw" and "own_entry nw me = Some e"
  shows "\<exists>a \<in> set (nw_allocs nw). PodName a = me \<and> PodIP a = PodIP e \<and> IP a = IP e"
proof -
  have e: "PodName e = me" "e \<in> set (nw_routers nw) \<union> set (nw_allocs nw)"
    using assms(2) by (auto simp: own_entry_def find_Some_iff split: option.splits)
  then obtain b where "b \<in> set (nw_allocs nw)" "binding b = binding e" using status_ok_router [OF assms(1)] by blast
  with e(1) show ?thesis by (intro bexI [of _ b]) (simp_all add: binding_def)
qed

lemma peers_not_me: "b \<in> set (peers nw me) \<Longrightarrow> PodName b \<noteq> me"
  by (force simp: peers_def split: if_splits)

lemma target_links_members:
  assumes T: "tunnel_pkg_ok T" and ok: "status_ok nw" and li: "map_of (fst (target_links T r nw)) k = Some li"
  shows "\<exists>a \<in> set (nw_allocs nw). \<exists>b \<in> set (nw_allocs nw). PodName a = myPodName r \<and> PodName b \<noteq> PodName a \<and>
    LocalIP li = PodIP a \<and> RemoteIP li = PodIP b \<and> InTunnelLocalIP li = IP a \<and> InTunnelRemoteIP li = IP b"
proof -
  obtain i r' where id: "getNetworkId r nw = (i, r')" by fastforce
  from target_links_eq [OF T id] li obtain me where me: "own_entry nw (myPodName r) = Some me"
    and m: "map_of (rev (map (\<lambda>a. (tunnel_name T i (PodName a), link_to me a)) (peers nw (myPodName r)))) k = Some li"
    by (auto split: option.splits)
  from map_of_SomeD [OF m] obtain y where y: "y \<in> set (peers nw (myPodName r))" "li = link_to me y" by auto
  obtain b where b: "b \<in> set (nw_allocs nw)" "binding b = binding y" using peers_members(2) [OF ok y(1)] by blast
  obtain a where "a \<in> set (nw_allocs nw)" "PodName a = myPodName r" "PodIP a = PodIP me" "IP a = IP me"
    using own_entry_member [OF ok me] by blast
  with b y peers_not_me [OF y(1)] show ?thesis
    by (intro bexI [of _ a] bexI [of _ b]) (auto simp: link_to_def binding_def)
qed

text \<open>C17: tunnels connect members inside the pool. Whatever version of a network a sidecar reads, each
  tunnel it wants runs between its own pod and another member recorded in that version, over
  their pod addresses, with their overlay addresses at its ends, and these lie in the pool of the network.\<close>

theorem tunnels_connect_members:
  assumes "api_server_ok S" and "history S L D enc vs g" and "v \<in> set vs" and "tunnel_pkg_ok T"
    and "map_of (fst (target_links T r v)) k = Some li"
  shows "(\<exists>a \<in> set (nw_allocs v). \<exists>b \<in> set (nw_allocs v). PodName a = myPodName r \<and> PodName b \<noteq> PodName a \<and>
      LocalIP li = PodIP a \<and> RemoteIP li = PodIP b \<and> InTunnelLocalIP li = IP a \<and> InTunnelRemoteIP li = IP b) \<and>
    in_pool (nw_Spec v) (InTunnelLocalIP li) \<and> in_pool (nw_Spec v) (InTunnelRemoteIP li)"
proof -
  have ok: "status_ok v" "pool_ok v" using history_version_ok [OF assms(1,2)] assms(3) by (auto simp: version_ok_def)
  from target_links_members [OF assms(4) ok(1) assms(5)] ok(2) show ?thesis unfolding pool_ok_def by (auto; metis)
qed

theorem tunnels_connect_members_witness:
  "\<exists>k li. map_of (fst (target_links tunnel_std (fresh_sidecar ''q'') demo_both)) k = Some li \<and>
     in_pool (nw_Spec demo_both) (InTunnelRemoteIP li)"
proof -
  obtain i r' where id: "getNetworkId (fresh_sidecar ''q'') demo_both = (i, r')" by fastforce
  let ?q = "demo_entry\<lparr>PodName := ''q'', IP := ''10.0.0.2''\<rparr>"
  have "own_entry demo_both ''q'' = Some ?q" "peers demo_both ''q'' = [demo_entry]"
    by (simp_all add: own_entry_def peers_def demo_both_def demo_network1_def demo_entry_def)
  then have "map_of (fst (target_links tunnel_std (fresh_sidecar ''q'') demo_both)) (tunnel_name tunnel_std i ''p'') = Some (link_to ?q demo_entry)"
    using target_links_eq [OF tunnel_std_ok id] by (auto simp: fresh_sidecar_def demo_entry_def)
  note link = this
  from tunnels_connect_members [OF api_server_std_ok demo_history_both _ tunnel_std_ok link] link show ?thesis by auto
qed

section \<open>From the admitted port to the tunnel\<close>

lemma stored_port:
  assumes "api_server_ok S" and "history S L D enc vs g" and "v \<in> set vs"
  shows "0 < Port (nw_Spec v)" "Port (nw_Spec v) < 65536"
  using history_version_ok [OF assms(1,2)] assms(3) by (auto simp: version_ok_def valid_spec_def)

text \<open>C25: both ends of the encapsulation use the port of the network. The port is converted to 16 bits
  for the tunnels and not for the receiver; since the webhook keeps it between 1 and 65535, in a
  run of the reconciler on any stored version of a network every tunnel is created with exactly
  this port, and so is the receiver.\<close>

theorem stored_port_exact:
  assumes "api_server_ok S" and "history S L D enc vs g" and "v \<in> set vs" and "tunnel_pkg_ok T"
    and "read_env (kGetNetwork K ns name) w = (Inr v, w1)"
    and "reconcile_tunnel T N K ns name r w n = Returns (res, r', w', n')"
  shows "\<exists>cs. commands n' = commands n @ cs \<and>
    (\<forall>t. LinkAdd t \<in> set cs \<longrightarrow> uint (EncapSport t) = Port (nw_Spec v) \<and> uint (EncapDport t) = Port (nw_Spec v)) \<and>
    (\<forall>f. FouAdd f \<in> set cs \<longrightarrow> f_Port f = Port (nw_Spec v))"
proof -
  have m: "Port (nw_Spec v) mod 65536 = Port (nw_Spec v)" using stored_port [OF assms(1-3)] by simp
  obtain cs where "commands n' = commands n @ cs" "list_all (port_command (Port (nw_Spec v))) cs"
    using reconcile_tunnel_ports [OF assms(4-6)] by (auto simp: sends_def)
  then show ?thesis by (intro exI [of _ cs]) (auto simp: list_all_iff port_command_def m)
qed

theorem stored_port_exact_witness:
  "\<exists>res r' w' n'. reconcile_tunnel tunnel_std (fixed_netlink []) one_network ''ns'' ''net'' (fresh_sidecar ''q'')
      \<lparr>env = demo_both, requests = []\<rparr> idle_node = Returns (res, r', w', n') \<and>
     (\<forall>t. LinkAdd t \<in> set (commands n') \<longrightarrow> uint (EncapDport t) = 5555)"
proof -
  let ?run = "reconcile_tunnel tunnel_std (fixed_netlink []) one_network ''ns'' ''net'' (fresh_sidecar ''q'') \<lparr>env = demo_both, requests = []\<rparr> idle_node"
  have got: "read_env (kGetNetwork one_network ''ns'' ''net'') \<lparr>env = demo_both, requests = []\<rparr> = (Inr demo_both, \<lparr>env = demo_both, requests = []\<rparr>)"
    by (simp add: read_env_def one_network_def)
  have N: "dst_listed (fixed_netlink [])" by (simp add: dst_listed_def fixed_netlink_def)
  obtain res r' w' n' where run: "?run = Returns (res, r', w', n')"
    using reconcile_tunnel_returns [OF tunnel_std_ok N] by blast
  have "Port (nw_Spec demo_both) = 5555" by (simp add: demo_both_def demo_joined_def demo_created_def PodStatus.demo_network_def)
  with stored_port_exact [OF api_server_std_ok demo_history_both _ tunnel_std_ok got run] run show ?thesis
    by (auto simp: idle_node_def)
qed

section \<open>From a name to a tunnel\<close>

lemma overlay_of_member:
  assumes "overlay_of nw v4 = Some t"
  shows "\<exists>b \<in> set (nw_allocs nw). To4 (ParseIP (PodIP b)) = v4 \<and> t = To4 (ParseIP (IP b))"
  using map_of_SomeD [OF assms [unfolded overlay_of_def]] by (auto simp: address_book_def)

lemma router_tunnel:
  assumes T: "tunnel_pkg_ok T" and ok: "status_ok nw" and nc: "no_collision T nw" and b: "b \<in> set (nw_allocs nw)"
    and r: "myPodName r \<in> PodName ` set (nw_routers nw)" "myPodName r \<noteq> PodName b" and id: "getNetworkId r nw = (i, r')"
  shows "\<exists>li. map_of (fst (target_links T r nw)) (tunnel_name T i (PodName b)) = Some li \<and>
    RemoteIP li = PodIP b \<and> InTunnelRemoteIP li = IP b"
proof -
  obtain x where x: "x \<in> set (nw_routers nw)" "PodName x = myPodName r" using r(1) by auto
  obtain a where a: "a \<in> set (nw_allocs nw)" "binding a = binding x" using status_ok_router [OF ok x(1)] by blast
  then have me: "myPodName r = PodName a" using x(2) by (simp add: binding_def)
  have "PodName b \<in> PodName ` set (peers nw (PodName a))"
    using peers_iff [OF ok, of "PodName a" "PodName b"] a(1) b r me by auto
  from target_link_to [OF T ok nc a(1) me b this id] show ?thesis by simp
qed

text \<open>C11: what the DNS server answers is reachable. If the cache represents stored versions of networks, every
  record of an answer is the overlay address of a pod that is a member in such a version, and the address
  lies in the pool of the network. If moreover the hashes of the names of the members of that version differ, so that their
  tunnels get different names, then every router of that version other than the pod itself wants a
  tunnel to the pod's own address with the answered address at its far end.\<close>

theorem dns_answers_reachable:
  assumes "dns_pkg_ok P" and "cache_ok r nws" and "handleDnsRequest P LookupIP r q = Returns m" and "rr \<in> set (Answer m)"
    and "api_server_ok S" and "\<forall>n v. nws n = Some v \<longrightarrow> history S L D enc (versions n) (gone n) \<and> v \<in> set (versions n)"
    and "tunnel_pkg_ok T"
  shows "\<exists>n v b nm. nws n = Some v \<and> b \<in> set (nw_allocs v) \<and> in_pool (nw_Spec v) (IP b) \<and>
    NewRR P (nm @ '' 60 A '' @ IP_String (To4 (ParseIP (IP b)))) = Inr rr \<and>
    (\<forall>t t' i. no_collision T v \<longrightarrow> myPodName t \<in> PodName ` set (nw_routers v) \<longrightarrow> myPodName t \<noteq> PodName b \<longrightarrow>
       getNetworkId t v = (i, t') \<longrightarrow>
       (\<exists>li. map_of (fst (target_links T t v)) (tunnel_name T i (PodName b)) = Some li \<and>
          RemoteIP li = PodIP b \<and> InTunnelRemoteIP li = IP b))"
proof -
  obtain n nw ip t nm where
    rr: "nws n = Some nw" "overlay_of nw (To4 ip) = Some t" "NewRR P (nm @ '' 60 A '' @ IP_String t) = Inr rr"
    using handleDnsRequest_result [OF assms(1,2), of LookupIP q] unfolding assms(3) outcome.inject using assms(4) by blast
  obtain b where b: "b \<in> set (nw_allocs nw)" "t = To4 (ParseIP (IP b))" using overlay_of_member [OF rr(2)] by blast
  have "version_ok (fixed_part (nw_Spec (hd (versions n)))) nw"
    using history_version_ok [OF assms(5)] assms(6) rr(1) by blast
  then have ok: "status_ok nw" "pool_ok nw" by (simp_all add: version_ok_def)
  have "in_pool (nw_Spec nw) (IP b)" using ok(2) b(1) by (simp add: pool_ok_def)
  with rr b router_tunnel [OF assms(7) ok(1) _ b(1)] show ?thesis by blast
qed

definition demo_served :: OverlayNetwork where
  "demo_served = stamp [demo_created, demo_joined, demo_both] (demo_both\<lparr>nw_Spec := (nw_Spec demo_both)\<lparr>ServiceNames := [''db'']\<rparr>\<rparr>)"

lemma demo_history_served:
  "history api_server_std lo_std OverlayNetworkValidator.demo_decoder id [demo_created, demo_joined, demo_both, demo_served] False"
proof -
  let ?nw = "demo_both\<lparr>nw_Spec := (nw_Spec demo_both)\<lparr>ServiceNames := [''db'']\<rparr>\<rparr>"
  have "valid_spec (nw_Spec demo_both)"
    using history_version_ok [OF api_server_std_ok demo_history_both] by (simp add: version_ok_def)
  then have "admits_update lo_std OverlayNetworkValidator.demo_decoder id demo_both ?nw"
    by (simp add: admits_update_iff valid_spec_def routable_ok_def fixed_part_def)
  moreover have "srv_update api_server_std ?nw [demo_created, demo_joined, demo_both] = Inr (Some demo_served)"
    by (simp add: api_server_std_def demo_served_def demo_both_def demo_joined_def demo_created_def PodStatus.demo_network_def demo_meta_def)
  ultimately show ?thesis using history.user [OF demo_history_both, of ?nw demo_served] by simp
qed

lemma demo_served_allocs:
  "nw_allocs demo_served = [demo_entry, demo_entry\<lparr>PodName := ''q'', IP := ''10.0.0.2''\<rparr>]" "ServiceNames (nw_Spec demo_served) = [''db'']"
  by (simp_all add: demo_served_def demo_both_def)

lemma demo_served_lookup: "overlay_of demo_served [172, 16, 0, 9] \<noteq> None"
  by (simp add: overlay_of_def address_book_def demo_served_allocs demo_entry_def go_parse_eval To4_def v4InV6Prefix_def)

text \<open>The answer for the service is the address of \<open>q\<close>; the router \<open>p\<close> wants a tunnel to it.\<close>

definition split_pkg :: tunnel_pkg where
  "split_pkg = tunnel_std\<lparr>base58 := (\<lambda>x. if x = fnv64 ''p'' then ''pppppppp'' else ''qqqqqqqq'')\<rparr>"

lemma split_pkg_ok: "tunnel_pkg_ok split_pkg"
  using tunnel_std_ok by (simp add: tunnel_pkg_ok_def split_pkg_def alnum_def letter_def)

lemma demo_served_distinct: "no_collision split_pkg demo_served"
  by (simp add: no_collision_def demo_served_allocs demo_entry_def split_pkg_def) (simp add: fnv64_def)

lemma demo_served_members:
  "List.map_filter (\<lambda>ip. if To4 ip = [] then None else overlay_of demo_served (To4 ip)) [[172, 16, 0, 9]] = [[10, 0, 0, 2]]"
  by (simp add: List.map_filter_def overlay_of_def address_book_def demo_served_allocs demo_entry_def go_parse_eval To4_def v4InV6Prefix_def)

lemma demo_served_printed:
  "IP_String (To4 (ParseIP ''10.0.0.1'')) = ''10.0.0.1''" "IP_String [10, 0, 0, 2] = ''10.0.0.2''"
  by (simp_all add: go_parse_eval go_print_eval)

theorem dns_answers_reachable_witness:
  "\<exists>r m li. handleDnsRequest dns_std (\<lambda>_. Inr [[172, 16, 0, 9]]) r (demo_query ''db.net.example.org.'') = Returns m \<and>
     Answer m = [''db.net.example.org. 60 A 10.0.0.2''] \<and>
     map_of (fst (target_links split_pkg (fresh_sidecar ''p'') demo_served)) (tunnel_name split_pkg 65 ''q'') = Some li \<and>
     InTunnelRemoteIP li = ''10.0.0.2''"
proof -
  let ?r0 = "NewDNSReconciler ''ns'' ''example.org.'' ''''" and ?nws = "[''net'' \<mapsto> demo_served]"
  obtain nc where nc: "caches nc demo_served" using cache_entry_result by blast
  define r where "r = ?r0\<lparr>cache := gm_put (cache ?r0) ''net'' nc\<rparr>"
  have r: "cache_ok r ?nws" unfolding r_def using cache_ok_put [OF cache_ok_new nc] by simp
  have zn: "zone r = ''example.org.''" by (simp add: r_def NewDNSReconciler_def)
  let ?q = "demo_query ''db.net.example.org.''" and ?look = "\<lambda>_. Inr [[172, 16, 0, 9]]"
  have std: "NewRR dns_std ((''db'' @ ''.'' @ ''net'' @ ''.'' @ zone r) @ '' 60 A '' @ IP_String t) =
      Inr (''db.net.example.org. 60 A '' @ IP_String t)" for t by (simp add: dns_std_def zn)
  have "\<exists>m. handleDnsRequest dns_std ?look r ?q = Returns m \<and>
      Answer m = map (\<lambda>t. ''db.net.example.org. 60 A '' @ IP_String t) [[10, 0, 0, 2]]"
    unfolding demo_served_members [symmetric]
    by (rule service_resolved [OF dns_std_ok r std, where qs = "[]"])
      (simp_all add: zn demo_served_allocs demo_query_def dns_std_def)
  then obtain m where m: "handleDnsRequest dns_std ?look r ?q = Returns m" "Answer m = [''db.net.example.org. 60 A 10.0.0.2'']"
    by (auto simp: demo_served_printed)
  have stored: "\<forall>n v. ?nws n = Some v \<longrightarrow> history api_server_std lo_std OverlayNetworkValidator.demo_decoder id
      [demo_created, demo_joined, demo_both, demo_served] False \<and> v \<in> set [demo_created, demo_joined, demo_both, demo_served]"
    using demo_history_served by simp
  obtain t' where id: "getNetworkId (fresh_sidecar ''p'') demo_served = (65, t')"
    by (simp add: getNetworkId_def fresh_sidecar_def)
  have router: "''p'' \<in> PodName ` set (nw_routers demo_served)"
    by (simp add: demo_served_def demo_both_def demo_network1_def demo_entry_def)
  have "''db.net.example.org. 60 A 10.0.0.2'' \<in> set (Answer m)" by (simp add: m(2))
  from dns_answers_reachable [OF dns_std_ok r m(1) this api_server_std_ok stored split_pkg_ok]
  obtain n v b nm where b: "?nws n = Some v" "b \<in> set (nw_allocs v)"
    "NewRR dns_std (nm @ '' 60 A '' @ IP_String (To4 (ParseIP (IP b)))) = Inr ''db.net.example.org. 60 A 10.0.0.2''"
    and reach: "\<And>t t' i. no_collision split_pkg v \<Longrightarrow> myPodName t \<in> PodName ` set (nw_routers v) \<Longrightarrow> myPodName t \<noteq> PodName b \<Longrightarrow>
       getNetworkId t v = (i, t') \<Longrightarrow> \<exists>li. map_of (fst (target_links split_pkg t v)) (tunnel_name split_pkg i (PodName b)) = Some li \<and>
          RemoteIP li = PodIP b \<and> InTunnelRemoteIP li = IP b" by blast
  from b(1) have v: "v = demo_served" by (simp split: if_splits)
  have "b \<noteq> demo_entry"
  proof
    assume "b = demo_entry"
    with b(3) have "last (nm @ '' 60 A 10.0.0.1'') = last ''db.net.example.org. 60 A 10.0.0.2''"
      by (simp add: dns_std_def demo_entry_def demo_served_printed)
    then show False by simp
  qed
  with b(2) have "PodName b = ''q''" "IP b = ''10.0.0.2''" by (auto simp: v demo_served_allocs)
  with reach [unfolded v, OF demo_served_distinct _ _ id] router m show ?thesis by (auto simp: fresh_sidecar_def)
qed

end
